(* ===== verification/Xcp_Prelude.thy ===== *)
theory Xcp_Prelude
  imports Main "HOL-Library.Word"
begin

unbundle bit_operations_syntax

text \<open>
  What every component of the xcp model shares: the C integer types as machine words, the
  object representation of an integer in the memory of a little-endian or big-endian host
  (with \<open>htons\<close>/\<open>htonl\<close> and their inverses), the outcome of a C++ statement (a value, an
  exception, an abort, or undefined behaviour), sequencing of stateful statements, and
  decimal printing as done by \<open>std::to_string\<close>. The lemmas here are the hints the component
  theories use: \<open>repr_simps\<close> collects the facts on object representations and
  \<open>outcome_simps\<close> those on sequencing.
\<close>

named_theorems repr_simps "object representations of integers"

named_theorems outcome_simps "sequencing of C++ statements"

section \<open>C types\<close>

type_synonym byte = "8 word"
type_synonym u16 = "16 word"
type_synonym u32 = "32 word"
type_synonym u64 = "64 word"
type_synonym c_int = "32 word" \<comment> \<open>a C \<open>int\<close>, read with \<open>sint\<close>\<close>

section \<open>Object representation of integers\<close>

datatype endian = LittleEndian | BigEndian

fun le_bytes :: "nat \<Rightarrow> nat \<Rightarrow> byte list" where
  "le_bytes 0 x = []"
| "le_bytes (Suc n) x = word_of_nat x # le_bytes n (x div 256)"

fun le_value :: "byte list \<Rightarrow> nat" where
  "le_value [] = 0"
| "le_value (b # bs) = unat b + 256 * le_value bs"

fun obj_repr :: "endian \<Rightarrow> nat \<Rightarrow> nat \<Rightarrow> byte list" where
  "obj_repr LittleEndian n x = le_bytes n x"
| "obj_repr BigEndian n x = rev (le_bytes n x)"

fun obj_value :: "endian \<Rightarrow> byte list \<Rightarrow> nat" where
  "obj_value LittleEndian bs = le_value bs"
| "obj_value BigEndian bs = le_value (rev bs)"

lemma length_le_bytes [simp, repr_simps]: "length (le_bytes n x) = n"
  by (induction n arbitrary: x) auto

lemma length_obj_repr [simp, repr_simps]: "length (obj_repr h n x) = n"
  by (cases h) auto

lemma unat_lt_width: "unat (w :: 'a::len word) < 2 ^ LENGTH('a)"
  by (rule unsigned_less)

lemma unat_word_of_nat_small: "x < 2 ^ LENGTH('a) \<Longrightarrow> unat (word_of_nat x :: 'a::len word) = x"
  by (simp add: unat_of_nat)

lemma word_of_int_eq_mod:
  "(word_of_int x :: 'a::len word) = word_of_int y \<longleftrightarrow> x mod 2 ^ LENGTH('a) = y mod 2 ^ LENGTH('a)"
  by (simp add: word_of_int_eq_iff take_bit_eq_mod)

lemma sint_small:
  assumes "unat (n :: c_int) < 2 ^ 31"
  shows "sint n = int (unat n)"
proof -
  have "int (unat n) < int (2 ^ 31)" using assms by (simp only: of_nat_less_iff)
  then have u: "uint n < 2 ^ 31" by simp
  have "0 \<le> uint n" by (rule uint_ge_0)
  then have "- (2 ^ 31) \<le> uint n" by (rule order_trans [rotated]) simp
  then have "signed_take_bit 31 (uint n) = uint n"
    using u by (rule signed_take_bit_int_eq_self)
  then show ?thesis by (simp add: sint_uint)
qed

lemma unat_byte_of_nat [simp]: "unat (word_of_nat x :: byte) = x mod 256"
  by (simp add: unat_of_nat)

lemma le_value_le_bytes [repr_simps]: "le_value (le_bytes n x) = x mod 256 ^ n"
proof (induction n arbitrary: x)
  case 0
  then show ?case by simp
next
  case (Suc n)
  have "x mod 256 + 256 * (x div 256 mod 256 ^ n) = x mod (256 * 256 ^ n)"
    by (simp add: mod_mult2_eq)
  with Suc show ?case by simp
qed

lemma le_value_bound: "le_value bs < 256 ^ length bs"
proof (induction bs)
  case Nil
  then show ?case by simp
next
  case (Cons b bs)
  have "unat b < 256" using unat_lt_width [of b] by simp
  with Cons show ?case by simp
qed

lemma le_bytes_le_value [repr_simps]: "length bs = n \<Longrightarrow> le_bytes n (le_value bs) = bs"
proof (induction bs arbitrary: n)
  case Nil
  then show ?case by simp
next
  case (Cons b bs)
  have b: "unat b < 256" using unat_lt_width [of b] by simp
  have 1: "(word_of_nat (unat b + 256 * le_value bs) :: byte) = b"
  proof (rule word_unat_eq_iff [THEN iffD2])
    show "unat (word_of_nat (unat b + 256 * le_value bs) :: byte) = unat b"
      using b by (simp only: unat_byte_of_nat) simp
  qed
  have 2: "(unat b + 256 * le_value bs) div 256 = le_value bs" using b by simp
  from Cons obtain m where "n = Suc m" "length bs = m" by (cases n) auto
  with Cons.IH [of m] 1 2 show ?case by simp
qed

lemma obj_value_obj_repr [simp, repr_simps]: "obj_value h (obj_repr h n x) = x mod 256 ^ n"
  by (cases h) (simp_all add: le_value_le_bytes)

lemma obj_repr_obj_value [repr_simps]: "length bs = n \<Longrightarrow> obj_repr h n (obj_value h bs) = bs"
  by (cases h) (simp_all add: le_bytes_le_value)

lemma obj_value_bound: "obj_value h bs < 256 ^ length bs"
  using le_value_bound [of bs] le_value_bound [of "rev bs"] by (cases h) simp_all

text \<open>Storing and loading a word of each width through a pointer.\<close>

definition store16 :: "endian \<Rightarrow> u16 \<Rightarrow> byte list" where
  "store16 h w = obj_repr h 2 (unat w)"

definition store32 :: "endian \<Rightarrow> u32 \<Rightarrow> byte list" where
  "store32 h w = obj_repr h 4 (unat w)"

definition store64 :: "endian \<Rightarrow> u64 \<Rightarrow> byte list" where
  "store64 h w = obj_repr h 8 (unat w)"

definition load16 :: "endian \<Rightarrow> byte list \<Rightarrow> u16" where
  "load16 h bs = word_of_nat (obj_value h bs)"

definition load32 :: "endian \<Rightarrow> byte list \<Rightarrow> u32" where
  "load32 h bs = word_of_nat (obj_value h bs)"

definition load64 :: "endian \<Rightarrow> byte list \<Rightarrow> u64" where
  "load64 h bs = word_of_nat (obj_value h bs)"

lemma length_store [simp, repr_simps]:
  "length (store16 h a) = 2" "length (store32 h b) = 4" "length (store64 h c) = 8"
  by (simp_all add: store16_def store32_def store64_def)

lemma unat_mod_width:
  "unat (a :: u16) mod 65536 = unat a" "unat (b :: u32) mod 4294967296 = unat b"
  "unat (c :: u64) mod 18446744073709551616 = unat c"
  using unat_lt_width [of a] unat_lt_width [of b] unat_lt_width [of c] by simp_all

lemma load_store [simp, repr_simps]:
  "load16 h (store16 h a) = a" "load32 h (store32 h b) = b" "load64 h (store64 h c) = c"
  by (simp_all add: load16_def store16_def load32_def store32_def load64_def store64_def
      unat_mod_width)

lemma store32_load32: "length bs = 4 \<Longrightarrow> store32 h (load32 h bs) = bs"
  using obj_value_bound [of h bs]
  by (simp add: store32_def load32_def unat_of_nat obj_repr_obj_value)

text \<open>
  \<open>htons\<close> and \<open>htonl\<close> swap the bytes on a little-endian host and do nothing on a big-endian
  one; \<open>ntohs\<close> and \<open>ntohl\<close> are the same functions.
\<close>

definition htons :: "endian \<Rightarrow> u16 \<Rightarrow> u16" where
  "htons h w = (case h of BigEndian \<Rightarrow> w | LittleEndian \<Rightarrow> word_of_nat (le_value (rev (le_bytes 2 (unat w)))))"

definition htonl :: "endian \<Rightarrow> u32 \<Rightarrow> u32" where
  "htonl h w = (case h of BigEndian \<Rightarrow> w | LittleEndian \<Rightarrow> word_of_nat (le_value (rev (le_bytes 4 (unat w)))))"

abbreviation (input) ntohs :: "endian \<Rightarrow> u16 \<Rightarrow> u16" where
  "ntohs \<equiv> htons"

abbreviation (input) ntohl :: "endian \<Rightarrow> u32 \<Rightarrow> u32" where
  "ntohl \<equiv> htonl"

lemma unat_swap16: "unat (word_of_nat (le_value bs) :: u16) = le_value bs" if "length bs = 2"
  using le_value_bound [of bs] that by (simp add: unat_of_nat)

lemma unat_swap32: "unat (word_of_nat (le_value bs) :: u32) = le_value bs" if "length bs = 4"
  using le_value_bound [of bs] that by (simp add: unat_of_nat)

lemma ntohs_htons [simp]: "ntohs h (htons h w) = w"
  by (cases h) (simp_all add: htons_def unat_swap16 le_bytes_le_value le_value_le_bytes unat_mod_width)

lemma ntohl_htonl [simp]: "ntohl h (htonl h w) = w"
  by (cases h) (simp_all add: htonl_def unat_swap32 le_bytes_le_value le_value_le_bytes unat_mod_width)

text \<open>What a store of a converted word leaves in memory does not depend on the host.\<close>

lemma store32_htonl [repr_simps]: "store32 h (htonl h w) = rev (le_bytes 4 (unat w))"
  by (cases h) (simp_all add: htonl_def store32_def unat_swap32 le_bytes_le_value)

lemma store16_htons [repr_simps]: "store16 h (htons h w) = rev (le_bytes 2 (unat w))"
  by (cases h) (simp_all add: htons_def store16_def unat_swap16 le_bytes_le_value)

lemma htonl_load32 [repr_simps]:
  "ntohl h (load32 h (rev (le_bytes 4 (unat w)))) = w"
  by (metis load_store(2) ntohl_htonl store32_htonl)

lemma htons_load16 [repr_simps]:
  "ntohs h (load16 h (rev (le_bytes 2 (unat w)))) = w"
  by (metis load_store(1) ntohs_htons store16_htons)

text \<open>A store through a pointer into a buffer.\<close>

definition poke :: "nat \<Rightarrow> byte list \<Rightarrow> byte list \<Rightarrow> byte list" where
  "poke off bs buf = take off buf @ bs @ drop (off + length bs) buf"

lemma length_poke [simp]: "off + length bs \<le> length buf \<Longrightarrow> length (poke off bs buf) = length buf"
  by (simp add: poke_def)

section \<open>Outcomes of C++ statements\<close>

text \<open>
  A statement returns, throws, aborts the process (a failed \<open>ASSERT\<close> or a
  \<open>PANIC_TERMINATE\<close>, \<open>infra/assertion.h\<close>), or has undefined behaviour. The exceptions are the ones
  the source throws or lets pass.
\<close>

datatype cpp_exception =
    Transfer_error c_int string
  | Archive_error nat nat
  | Invalid_argument
  | Out_of_range
  | System_error int
  | Filesystem_error int
  | Bad_optional_access

datatype 'a outcome = Ret 'a | Throw cpp_exception | Abort | Undefined

text \<open>Statements over a state keep the state they reached when they throw.\<close>

definition seq_st :: "('s \<Rightarrow> 'a outcome \<times> 's) \<Rightarrow> ('a \<Rightarrow> 's \<Rightarrow> 'b outcome \<times> 's) \<Rightarrow> 's \<Rightarrow> 'b outcome \<times> 's" where
  "seq_st m k s = (case m s of
       (Ret a, s') \<Rightarrow> k a s'
     | (Throw e, s') \<Rightarrow> (Throw e, s')
     | (Abort, s') \<Rightarrow> (Abort, s')
     | (Undefined, s') \<Rightarrow> (Undefined, s'))"

definition return_st :: "'a \<Rightarrow> 's \<Rightarrow> 'a outcome \<times> 's" where
  "return_st a s = (Ret a, s)"

definition throw_st :: "cpp_exception \<Rightarrow> 's \<Rightarrow> 'a outcome \<times> 's" where
  "throw_st e s = (Throw e, s)"

definition assert_st :: "bool \<Rightarrow> 's \<Rightarrow> unit outcome \<times> 's" where
  "assert_st b s = (if b then (Ret (), s) else (Abort, s))"

lemma seq_st_simps [simp, outcome_simps]:
  "m s = (Ret a, s') \<Longrightarrow> seq_st m k s = k a s'"
  "m s = (Throw e, s') \<Longrightarrow> seq_st m k s = (Throw e, s')"
  "m s = (Abort, s') \<Longrightarrow> seq_st m k s = (Abort, s')"
  "m s = (Undefined, s') \<Longrightarrow> seq_st m k s = (Undefined, s')"
  by (simp_all add: seq_st_def)

lemma return_st_simp [simp, outcome_simps]: "return_st a s = (Ret a, s)"
  by (simp add: return_st_def)

lemma throw_st_simp [simp, outcome_simps]: "throw_st e s = (Throw e, s)"
  by (simp add: throw_st_def)

lemma assert_st_simps [simp, outcome_simps]:
  "b \<Longrightarrow> assert_st b s = (Ret (), s)" "\<not> b \<Longrightarrow> assert_st b s = (Abort, s)"
  by (simp_all add: assert_st_def)

lemma seq_st_Ret_iff [outcome_simps]:
  "seq_st m k s = (Ret b, t) \<longleftrightarrow> (\<exists>a s'. m s = (Ret a, s') \<and> k a s' = (Ret b, t))"
  by (auto simp: seq_st_def split: prod.splits outcome.splits)

section \<open>Mutexes\<close>

text \<open>
  Threads are program counters; those inside a critical section are exactly the owner of its
  mutex. The components that interleave threads preserve this by one of three moves.
\<close>

definition mutex_ok :: "('p \<Rightarrow> bool) \<Rightarrow> (nat \<Rightarrow> 'p) \<Rightarrow> nat option \<Rightarrow> bool" where
  "mutex_ok inside pcs owner \<longleftrightarrow> (\<forall>t. inside (pcs t) \<longleftrightarrow> owner = Some t)"

lemma mutex_okD: "mutex_ok inside pcs owner \<Longrightarrow> inside (pcs t) \<longleftrightarrow> owner = Some t"
  by (simp add: mutex_ok_def)

lemma mutex_holder: "mutex_ok inside pcs owner \<Longrightarrow> pcs t = p \<Longrightarrow> inside p \<Longrightarrow> owner = Some t"
  by (auto simp: mutex_ok_def)

lemma mutex_move: "mutex_ok inside pcs owner \<Longrightarrow> inside p = inside (pcs t) \<Longrightarrow> mutex_ok inside (pcs(t := p)) owner"
  by (simp add: mutex_ok_def)

lemma mutex_acquire: "mutex_ok inside pcs None \<Longrightarrow> inside p \<Longrightarrow> mutex_ok inside (pcs(t := p)) (Some t)"
  by (auto simp: mutex_ok_def)

lemma mutex_release: "mutex_ok inside pcs (Some t) \<Longrightarrow> \<not> inside p \<Longrightarrow> mutex_ok inside (pcs(t := p)) None"
  by (auto simp: mutex_ok_def)

section \<open>Decimal numbers as std::to_string prints them\<close>

fun string_of_nat :: "nat \<Rightarrow> string" where
  "string_of_nat n = (if n < 10 then [char_of (48 + n)]
     else string_of_nat (n div 10) @ [char_of (48 + n mod 10)])"

declare string_of_nat.simps [simp del]

definition string_of_int :: "int \<Rightarrow> string" where
  "string_of_int i = (if i < 0 then CHR ''-'' # string_of_nat (nat (- i)) else string_of_nat (nat i))"

end
