(* ===== verification/Cereal.thy ===== *)
theory Cereal
  imports Xcp_Prelude
begin

text \<open>
  The part of cereal's portable binary archive that xcp uses
  (\<open>thirdparty/cereal/include/cereal/archives/portable_binary.hpp\<close> and \<open>types/string.hpp\<close>,
  \<open>vector.hpp\<close>, \<open>optional.hpp\<close>): an archive is its stream of bytes. Saving gives the bytes
  appended to the stream, or an abort where a \<open>save\<close> method aborts. Loading consumes bytes from
  the front of the stream and throws when the stream is too short. Both sides use the default
  options, so the stream carries the writer's endianness in its first byte and the reader
  swaps when it differs from its own.

  The interface between the archive and the message layer is the locale \<open>codec\<close>: loading what was
  saved, followed by anything, gives the value back and leaves the rest. Inside it the
  round trips of vectors and optionals of such values are proved once.
\<close>

named_theorems codec_intros "codecs of the library's types"

section \<open>The binary stream\<close>

definition is_little_endian :: "endian \<Rightarrow> byte" where
  "is_little_endian h = (case h of LittleEndian \<Rightarrow> 1 | BigEndian \<Rightarrow> 0)"

definition swap_chunks :: "nat \<Rightarrow> byte list \<Rightarrow> byte list" where
  "swap_chunks ds bs = concat (map (\<lambda>i. rev (take ds (drop (i * ds) bs))) [0..<length bs div ds])"

definition saveBinary :: "bool \<Rightarrow> nat \<Rightarrow> byte list \<Rightarrow> byte list outcome" where
  "saveBinary convert ds data = Ret (if convert then swap_chunks ds data else data)"

definition loadBinary :: "bool \<Rightarrow> nat \<Rightarrow> nat \<Rightarrow> byte list \<Rightarrow> byte list outcome \<times> byte list" where
  "loadBinary convert ds n s =
     (if n \<le> length s
      then (Ret (if convert then swap_chunks ds (take n s) else take n s), drop n s)
      else (Throw (Archive_error n (length s)), []))"

text \<open>The constructors: the default options give the host's own endianness.\<close>

definition out_convert :: "endian \<Rightarrow> bool" where
  "out_convert h = (is_little_endian h XOR is_little_endian h \<noteq> 0)"

definition output_archive :: "endian \<Rightarrow> byte list outcome" where
  "output_archive h = saveBinary (out_convert h) 1 [is_little_endian h]"

definition input_archive :: "endian \<Rightarrow> byte list \<Rightarrow> bool outcome \<times> byte list" where
  "input_archive h = seq_st (loadBinary False 1 1)
     (\<lambda>d. return_st (is_little_endian h XOR hd d \<noteq> 0))"

section \<open>Scalars, sequencing\<close>

type_synonym 'a saver = "endian \<Rightarrow> 'a \<Rightarrow> byte list outcome"
type_synonym 'a loader = "endian \<Rightarrow> bool \<Rightarrow> byte list \<Rightarrow> 'a outcome \<times> byte list"

definition cat :: "byte list outcome \<Rightarrow> byte list outcome \<Rightarrow> byte list outcome" where
  "cat x y = (case x of
       Ret a \<Rightarrow> (case y of Ret b \<Rightarrow> Ret (a @ b) | Throw e \<Rightarrow> Throw e | Abort \<Rightarrow> Abort | Undefined \<Rightarrow> Undefined)
     | Throw e \<Rightarrow> Throw e | Abort \<Rightarrow> Abort | Undefined \<Rightarrow> Undefined)"

definition save_uint :: "nat \<Rightarrow> endian \<Rightarrow> nat \<Rightarrow> byte list outcome" where
  "save_uint n h x = saveBinary (out_convert h) n (obj_repr h n x)"

definition load_uint :: "nat \<Rightarrow> nat loader" where
  "load_uint n h convert = seq_st (loadBinary convert n n) (\<lambda>d. return_st (obj_value h d))"

definition save_bool :: "bool saver" where
  "save_bool h b = save_uint 1 h (if b then 1 else 0)"

definition load_bool :: "bool loader" where
  "load_bool h c = seq_st (load_uint 1 h c) (\<lambda>n. return_st (n \<noteq> 0))"

definition save_u16 :: "u16 saver" where
  "save_u16 h w = save_uint 2 h (unat w)"

definition load_u16 :: "u16 loader" where
  "load_u16 h c = seq_st (load_uint 2 h c) (\<lambda>n. return_st (word_of_nat n))"

definition save_u32 :: "u32 saver" where
  "save_u32 h w = save_uint 4 h (unat w)"

definition load_u32 :: "u32 loader" where
  "load_u32 h c = seq_st (load_uint 4 h c) (\<lambda>n. return_st (word_of_nat n))"

definition save_u64 :: "u64 saver" where
  "save_u64 h w = save_uint 8 h (unat w)"

definition load_u64 :: "u64 loader" where
  "load_u64 h c = seq_st (load_uint 8 h c) (\<lambda>n. return_st (word_of_nat n))"

section \<open>Strings, vectors, optionals\<close>

definition byte_of_char :: "char \<Rightarrow> byte" where
  "byte_of_char c = word_of_nat (of_char c)"

definition char_of_byte :: "byte \<Rightarrow> char" where
  "char_of_byte b = char_of (unat b)"

definition save_string :: "string saver" where
  "save_string h s = cat (save_u64 h (word_of_nat (length s)))
     (saveBinary (out_convert h) 1 (map byte_of_char s))"

definition load_string :: "string loader" where
  "load_string h c = seq_st (load_u64 h c)
     (\<lambda>n. seq_st (loadBinary c 1 (unat n)) (\<lambda>d. return_st (map char_of_byte d)))"

fun save_elems :: "'a saver \<Rightarrow> endian \<Rightarrow> 'a list \<Rightarrow> byte list outcome" where
  "save_elems save h [] = Ret []"
| "save_elems save h (v # vs) = cat (save h v) (save_elems save h vs)"

fun load_elems :: "'a loader \<Rightarrow> endian \<Rightarrow> bool \<Rightarrow> nat \<Rightarrow> byte list \<Rightarrow> 'a list outcome \<times> byte list" where
  "load_elems load h c 0 s = (Ret [], s)"
| "load_elems load h c (Suc n) s =
     seq_st (load h c) (\<lambda>v. seq_st (load_elems load h c n) (\<lambda>vs. return_st (v # vs))) s"

definition save_vector :: "'a saver \<Rightarrow> 'a list saver" where
  "save_vector save h vs = cat (save_u64 h (word_of_nat (length vs))) (save_elems save h vs)"

definition load_vector :: "'a loader \<Rightarrow> 'a list loader" where
  "load_vector load h c = seq_st (load_u64 h c) (\<lambda>n. load_elems load h c (unat n))"

definition save_optional :: "'a saver \<Rightarrow> 'a option saver" where
  "save_optional save h x = (case x of
       None \<Rightarrow> save_bool h True
     | Some v \<Rightarrow> cat (save_bool h False) (save h v))"

definition load_optional :: "'a loader \<Rightarrow> 'a option loader" where
  "load_optional load h c = seq_st (load_bool h c)
     (\<lambda>nullopt. if nullopt then return_st None
                else seq_st (load h c) (\<lambda>v. return_st (Some v)))"

text \<open>
  A \<open>std::tuple\<close> is its elements in order, and a structure with \<open>XCP_DEFAULT_SERIALIZATION\<close> is
  the tuple of the members it lists: \<open>save_as\<close> reads them off, \<open>load_as\<close> fills the object.
\<close>

definition save_pair :: "'a saver \<Rightarrow> 'b saver \<Rightarrow> ('a \<times> 'b) saver" where
  "save_pair s1 s2 h p = cat (s1 h (fst p)) (s2 h (snd p))"

definition load_pair :: "'a loader \<Rightarrow> 'b loader \<Rightarrow> ('a \<times> 'b) loader" where
  "load_pair l1 l2 h c = seq_st (l1 h c) (\<lambda>a. seq_st (l2 h c) (\<lambda>b. return_st (a, b)))"

definition save_as :: "('r \<Rightarrow> 'a) \<Rightarrow> 'a saver \<Rightarrow> 'r saver" where
  "save_as members save h x = save h (members x)"

definition load_as :: "('a \<Rightarrow> 'r) \<Rightarrow> 'a loader \<Rightarrow> 'r loader" where
  "load_as make load h c = seq_st (load h c) (\<lambda>x. return_st (make x))"

section \<open>Facts on the stream\<close>

lemma cat_Ret_iff [codec_intros]:
  "cat x y = Ret bs \<longleftrightarrow> (\<exists>a b. x = Ret a \<and> y = Ret b \<and> bs = a @ b)"
  by (auto simp: cat_def split: outcome.splits)

lemma cat_Ret [simp]: "cat (Ret a) (Ret b) = Ret (a @ b)"
  by (simp add: cat_def)

lemma cat_Abort [simp]: "cat Abort y = Abort"
  by (simp add: cat_def)

lemma not_out_convert [simp]: "out_convert h = False"
  by (simp add: out_convert_def)

lemma swap_chunks_single [simp]: "length d = n \<Longrightarrow> swap_chunks n d = rev d"
  by (cases "n = 0") (auto simp: swap_chunks_def)

lemma concat_singletons_nth: "concat (map (\<lambda>i. rev (take (Suc 0) (drop i d))) [0..<length d]) = d"
proof -
  have "map (\<lambda>i. rev (take (Suc 0) (drop i d))) [0..<length d] = map (\<lambda>i. [d ! i]) [0..<length d]"
    by (rule map_cong) (auto simp: take_Suc hd_drop_conv_nth)
  moreover have "concat (map (\<lambda>i. [d ! i]) [0..<length d]) = map (\<lambda>i. d ! i) [0..<length d]"
    by (induction "length d" arbitrary: d) (auto simp: concat_map_singleton)
  ultimately show ?thesis by (simp only: map_nth)
qed

lemma swap_chunks_bytes [simp]: "swap_chunks (Suc 0) d = d"
  by (simp add: swap_chunks_def concat_singletons_nth)

lemma loadBinary_append [simp]:
  "n = length d \<Longrightarrow> loadBinary c ds n (d @ r) = (Ret (if c then swap_chunks ds d else d), r)"
  by (simp add: loadBinary_def)

lemma loadBinary_short:
  "length s < n \<Longrightarrow> loadBinary c ds n s = (Throw (Archive_error n (length s)), [])"
  by (simp add: loadBinary_def)

lemma byte_char [simp]: "char_of_byte (byte_of_char c) = c"
proof -
  have "of_char c < (256 :: nat)" by simp
  then show ?thesis
    by (simp add: char_of_byte_def byte_of_char_def)
qed

lemma char_byte [simp]: "byte_of_char (char_of_byte b) = b"
proof -
  have "unat b < 256" using unat_lt_width [of b] by simp
  then show ?thesis
    by (simp add: char_of_byte_def byte_of_char_def)
qed

lemma obj_value_swapped: "h \<noteq> g \<Longrightarrow> obj_value h (rev (obj_repr g n x)) = x mod 256 ^ n"
  by (cases h; cases g) (simp_all add: le_value_le_bytes)

lemma save_uint_eq: "save_uint n h x = Ret (obj_repr h n x)"
  by (simp add: save_uint_def saveBinary_def)

text \<open>An integer is read back whatever the two hosts are.\<close>

lemma load_uint_save:
  "save_uint n h x = Ret bs \<Longrightarrow> load_uint n g (h \<noteq> g) (bs @ r) = (Ret (x mod 256 ^ n), r)"
  by (auto simp: save_uint_eq load_uint_def obj_value_swapped)

section \<open>The codec interface\<close>

text \<open>
  \<open>ok\<close> says which values fit the wire format, \<open>view\<close> what of a value the wire carries, and
  \<open>compat\<close> between which writer and reader the round trip holds: a \<open>portable_codec\<close> works
  between any two hosts, and then in particular between hosts of the same endianness.
\<close>

locale codec =
  fixes compat :: "endian \<Rightarrow> endian \<Rightarrow> bool"
    and save :: "'a saver" and load :: "'a loader"
    and ok :: "'a \<Rightarrow> bool" and view :: "'a \<Rightarrow> 'a"
  assumes save_total: "ok a \<Longrightarrow> \<exists>bs. save h a = Ret bs"
    and load_save: "compat h g \<Longrightarrow> ok a \<Longrightarrow> save h a = Ret bs
      \<Longrightarrow> load g (h \<noteq> g) (bs @ r) = (Ret (view a), r)"
begin

lemma load_elems_save:
  "compat h g \<Longrightarrow> list_all ok vs \<Longrightarrow> save_elems save h vs = Ret bs
    \<Longrightarrow> load_elems load g (h \<noteq> g) (length vs) (bs @ r) = (Ret (map view vs), r)"
proof (induction vs arbitrary: bs)
  case Nil
  then show ?case by simp
next
  case (Cons v vs)
  then obtain a b where "save h v = Ret a" "save_elems save h vs = Ret b" "bs = a @ b"
    by (auto simp: cat_Ret_iff)
  with Cons load_save [of h g v a "b @ r"] show ?case by simp
qed

lemma save_elems_total: "list_all ok vs \<Longrightarrow> \<exists>bs. save_elems save h vs = Ret bs"
  by (induction vs) (auto simp: cat_Ret_iff dest: save_total [where h = h])

lemma vector_codec:
  "codec compat (save_vector save) (load_vector load)
     (\<lambda>vs. length vs < 2 ^ 64 \<and> list_all ok vs) (map view)"
proof
  fix vs h
  assume "length vs < 2 ^ 64 \<and> list_all ok vs"
  then show "\<exists>bs. save_vector save h vs = Ret bs"
    using save_elems_total [of vs h]
    by (auto simp: save_vector_def save_u64_def save_uint_eq)
next
  fix h g vs bs r
  assume c: "compat h g" and ok: "length vs < 2 ^ 64 \<and> list_all ok vs"
    and s: "save_vector save h vs = Ret bs"
  from s obtain a b where a: "save_u64 h (word_of_nat (length vs)) = Ret a"
    and b: "save_elems save h vs = Ret b" and bs: "bs = a @ b"
    by (auto simp: save_vector_def cat_Ret_iff)
  from ok have n: "unat (word_of_nat (length vs) :: u64) = length vs"
    by (simp add: unat_of_nat)
  from a have "load_u64 g (h \<noteq> g) (a @ (b @ r)) = (Ret (word_of_nat (length vs)), b @ r)"
    unfolding load_u64_def save_u64_def by (simp add: load_uint_save unat_mod_width)
  with load_elems_save [OF c _ b, of r] ok n bs
  show "load_vector load g (h \<noteq> g) (bs @ r) = (Ret (map view vs), r)"
    by (simp add: load_vector_def)
qed

lemma optional_codec:
  "codec compat (save_optional save) (load_optional load) (pred_option ok) (map_option view)"
proof
  fix x h
  assume "pred_option ok x"
  then show "\<exists>bs. save_optional save h x = Ret bs"
    using save_total [of _ h]
    by (cases x) (auto simp: save_optional_def save_bool_def save_uint_eq cat_Ret_iff)
next
  fix h g x bs r
  assume c: "compat h g" and ok: "pred_option ok x" and s: "save_optional save h x = Ret bs"
  have flag: "load_bool g (h \<noteq> g) (a @ q) = (Ret b, q)" if "save_bool h b = Ret a" for a b q
    using that unfolding load_bool_def save_bool_def by (simp add: load_uint_save)
  show "load_optional load g (h \<noteq> g) (bs @ r) = (Ret (map_option view x), r)"
  proof (cases x)
    case None
    with s flag [of True bs r] show ?thesis
      by (simp add: save_optional_def load_optional_def)
  next
    case (Some v)
    with s obtain a b where "save_bool h False = Ret a" "save h v = Ret b" "bs = a @ b"
      by (auto simp: save_optional_def cat_Ret_iff)
    with flag [of False a "b @ r"] load_save [OF c, of v b r] Some ok show ?thesis
      by (simp add: load_optional_def seq_st_def)
  qed
qed

end

lemma pair_codec:
  assumes a: "codec R s1 l1 ok1 v1" and b: "codec R s2 l2 ok2 v2"
  shows "codec R (save_pair s1 s2) (load_pair l1 l2) (\<lambda>p. ok1 (fst p) \<and> ok2 (snd p))
    (\<lambda>p. (v1 (fst p), v2 (snd p)))"
proof
  fix p h
  assume "ok1 (fst p) \<and> ok2 (snd p)"
  then show "\<exists>bs. save_pair s1 s2 h p = Ret bs"
    using codec.save_total [OF a, of "fst p" h] codec.save_total [OF b, of "snd p" h]
    by (auto simp: save_pair_def)
next
  fix h g p bs r
  assume c: "R h g" and ok: "ok1 (fst p) \<and> ok2 (snd p)" and s: "save_pair s1 s2 h p = Ret bs"
  from s obtain x y where x: "s1 h (fst p) = Ret x" and y: "s2 h (snd p) = Ret y" and "bs = x @ y"
    by (auto simp: save_pair_def cat_Ret_iff)
  with codec.load_save [OF a c _ x, of "y @ r"] codec.load_save [OF b c _ y, of r] ok
  show "load_pair l1 l2 g (h \<noteq> g) (bs @ r) = (Ret (v1 (fst p), v2 (snd p)), r)"
    by (simp add: load_pair_def seq_st_def)
qed

lemma as_codec:
  assumes a: "codec R s l ok v"
    and ok: "\<And>x. ok' x = ok (members x)" and view: "\<And>x. v' x = make (v (members x))"
  shows "codec R (save_as members s) (load_as make l) ok' v'"
proof
  fix x h
  show "ok' x \<Longrightarrow> \<exists>bs. save_as members s h x = Ret bs"
    using codec.save_total [OF a] by (simp add: save_as_def ok)
next
  fix h g x bs r
  show "R h g \<Longrightarrow> ok' x \<Longrightarrow> save_as members s h x = Ret bs
    \<Longrightarrow> load_as make l g (h \<noteq> g) (bs @ r) = (Ret (v' x), r)"
    using codec.load_save [OF a] by (simp add: load_as_def save_as_def seq_st_def ok view)
qed

locale portable_codec = codec "\<lambda>_ _. True" save load ok view
  for save :: "'a saver" and load :: "'a loader"
    and ok :: "'a \<Rightarrow> bool" and view :: "'a \<Rightarrow> 'a"

sublocale portable_codec \<subseteq> same_host: codec "(=)" save load ok view
proof
  fix a h
  show "ok a \<Longrightarrow> \<exists>bs. save h a = Ret bs"
    by (rule save_total)
next
  fix h g a bs r
  show "h = g \<Longrightarrow> ok a \<Longrightarrow> save h a = Ret bs \<Longrightarrow> load g (h \<noteq> g) (bs @ r) = (Ret (view a), r)"
    by (rule load_save [OF TrueI])
qed

section \<open>The scalars and strings are portable\<close>

interpretation bool_codec: portable_codec save_bool load_bool "\<lambda>_. True" "\<lambda>x. x"
  by unfold_locales
    (simp_all add: save_bool_def load_bool_def save_uint_eq load_uint_save)

interpretation u16_codec: portable_codec save_u16 load_u16 "\<lambda>_. True" "\<lambda>x. x"
  by unfold_locales
    (simp_all add: save_u16_def load_u16_def save_uint_eq load_uint_save unat_mod_width)

interpretation u32_codec: portable_codec save_u32 load_u32 "\<lambda>_. True" "\<lambda>x. x"
  by unfold_locales
    (simp_all add: save_u32_def load_u32_def save_uint_eq load_uint_save unat_mod_width)

interpretation u64_codec: portable_codec save_u64 load_u64 "\<lambda>_. True" "\<lambda>x. x"
  by unfold_locales
    (simp_all add: save_u64_def load_u64_def save_uint_eq load_uint_save unat_mod_width)

interpretation string_codec: portable_codec save_string load_string
  "\<lambda>s. length s < 2 ^ 64" "\<lambda>s. s"
proof
  fix s h
  show "\<exists>bs. save_string h s = Ret bs"
    by (simp add: save_string_def save_u64_def save_uint_eq saveBinary_def)
next
  fix h g s bs r
  assume ok: "length s < (2 :: nat) ^ 64" and sv: "save_string h s = Ret bs"
  from sv obtain a where a: "save_u64 h (word_of_nat (length s)) = Ret a"
    and bs: "bs = a @ map byte_of_char s"
    by (auto simp: save_string_def cat_Ret_iff saveBinary_def)
  from ok have n: "unat (word_of_nat (length s) :: u64) = length s"
    by (simp add: unat_of_nat)
  have "map char_of_byte (map byte_of_char s) = s"
    by (simp add: o_def)
  with u64_codec.load_save [OF _ _ a, of g "map byte_of_char s @ r"] bs n
  show "load_string g (h \<noteq> g) (bs @ r) = (Ret s, r)"
    by (simp add: load_string_def)
qed

lemma archive_flag:
  "output_archive h = Ret bs \<Longrightarrow> input_archive g (bs @ r) = (Ret (h \<noteq> g), r)"
  by (cases h; cases g)
    (auto simp: output_archive_def input_archive_def saveBinary_def is_little_endian_def
      loadBinary_def seq_st_def)

end
