(* ===== verification/User.thy ===== *)
theory User
  imports Cereal
begin

text \<open>
  \<open>infra/user.h\<close> and the Linux branches of \<open>infra/user.cpp\<close>: the user name a client sends with
  its request, how it is printed and serialised, and how the server finds the home directory a
  relative path is resolved against. \<open>getlogin_r\<close>, \<open>getpwnam_r\<close>, \<open>sysconf\<close> and \<open>malloc\<close> are
  parameters, collected in the record \<open>passwd_env\<close>.
\<close>

record user_name_t =
  user_name :: string
  domain_user_name :: string
  user_principal_name :: string
  user_sid :: string

definition empty_user_name :: user_name_t where
  "empty_user_name = \<lparr>user_name = [], domain_user_name = [], user_principal_name = [], user_sid = []\<rparr>"

section \<open>Printing\<close>

text \<open>One field of \<open>to_string\<close>: the text so far, whether a comma is due, the label and the value.\<close>

definition user_field :: "string \<Rightarrow> string \<Rightarrow> string \<times> bool \<Rightarrow> string \<times> bool" where
  "user_field label v acc = (case acc of (result, need_comma) \<Rightarrow>
     if v \<noteq> [] then (result @ (if need_comma then '', '' else []) @ label @ v, True)
     else (result, need_comma))"

definition user_to_string :: "user_name_t \<Rightarrow> string" where
  "user_to_string u =
     fst (user_field ''sid='' (user_sid u)
       (user_field ''user_principal_name='' (user_principal_name u)
         (user_field ''domain_user_name='' (domain_user_name u)
           (user_field ''user_name='' (user_name u) (''('', False))))) @ '')''"

section \<open>Serialisation\<close>

text \<open>
  \<open>XCP_DEFAULT_SERIALIZATION(user_name, domain_user_name, user_sid)\<close>: loading fills a
  default-constructed object, so the principal name stays empty.
\<close>

definition user_members :: "user_name_t \<Rightarrow> string \<times> string \<times> string" where
  "user_members u = (user_name u, domain_user_name u, user_sid u)"

definition user_of_members :: "string \<times> string \<times> string \<Rightarrow> user_name_t" where
  "user_of_members m = (case m of (n, d, s) \<Rightarrow>
     empty_user_name\<lparr>user_name := n, domain_user_name := d, user_sid := s\<rparr>)"

definition save_user_name :: "user_name_t saver" where
  "save_user_name = save_as user_members (save_pair save_string (save_pair save_string save_string))"

definition load_user_name :: "user_name_t loader" where
  "load_user_name = load_as user_of_members (load_pair load_string (load_pair load_string load_string))"

definition user_name_ok :: "user_name_t \<Rightarrow> bool" where
  "user_name_ok u \<longleftrightarrow> length (user_name u) < 2 ^ 64 \<and> length (domain_user_name u) < 2 ^ 64
     \<and> length (user_sid u) < 2 ^ 64"

definition user_name_view :: "user_name_t \<Rightarrow> user_name_t" where
  "user_name_view u = u\<lparr>user_principal_name := []\<rparr>"

interpretation user_codec: portable_codec save_user_name load_user_name user_name_ok user_name_view
  unfolding portable_codec_def save_user_name_def load_user_name_def
  by (rule as_codec [OF pair_codec [OF string_codec.codec_axioms
        pair_codec [OF string_codec.codec_axioms string_codec.codec_axioms]]])
    (simp_all add: user_members_def user_of_members_def user_name_ok_def user_name_view_def
      empty_user_name_def)

section \<open>Home directories on Linux\<close>

text \<open>
  \<open>getpwnam_r name bufsize\<close> gives the error number and the directory of the entry found, if
  any; \<open>getlogin_r\<close> an error number or the login name.
\<close>

record passwd_env =
  sysconf_getpw_size :: u64
  malloc_ok :: "u64 \<Rightarrow> bool"
  getpwnam_r :: "string \<Rightarrow> u64 \<Rightarrow> c_int \<times> string option"
  getlogin_r :: "c_int + string"

definition try_get_home_by_name :: "passwd_env \<Rightarrow> string \<Rightarrow> string option" where
  "try_get_home_by_name env name =
     (let bufsize = (if sysconf_getpw_size env = -1 then 16384 else sysconf_getpw_size env)
      in if \<not> malloc_ok env bufsize then None
         else (case getpwnam_r env name bufsize of
                 (err, None) \<Rightarrow> None
               | (err, Some dir) \<Rightarrow> Some dir))"

text \<open>\<open>get_user_name\<close> leaves the caller's object untouched when it fails.\<close>

definition get_user_name :: "passwd_env \<Rightarrow> user_name_t \<Rightarrow> bool \<times> user_name_t" where
  "get_user_name env name = (case getlogin_r env of
       Inl err \<Rightarrow> (False, name)
     | Inr buffer \<Rightarrow> (True, name\<lparr>user_name := buffer, domain_user_name := [], user_sid := []\<rparr>))"

text \<open>\<open>get_user_home_path\<close>: the empty path when no candidate has a home directory.\<close>

definition get_user_home_path :: "passwd_env \<Rightarrow> user_name_t \<Rightarrow> string" where
  "get_user_home_path env name =
     (let by_name = (\<lambda>n. if n \<noteq> [] then try_get_home_by_name env n else None)
      in case by_name (user_name name) of Some home \<Rightarrow> home
       | None \<Rightarrow> (case by_name (domain_user_name name) of Some home \<Rightarrow> home
       | None \<Rightarrow> (case by_name (user_principal_name name) of Some home \<Rightarrow> home
       | None \<Rightarrow> (case by_name (user_sid name) of Some home \<Rightarrow> home
       | None \<Rightarrow> []))))"

text \<open>The names tried, in order, and the specification: the first of them with an entry.\<close>

definition home_candidates :: "user_name_t \<Rightarrow> string list" where
  "home_candidates u = filter (\<lambda>n. n \<noteq> [])
     [user_name u, domain_user_name u, user_principal_name u, user_sid u]"

fun first_some :: "('a \<Rightarrow> 'b option) \<Rightarrow> 'a list \<Rightarrow> 'b option" where
  "first_some f [] = None"
| "first_some f (x # xs) = (case f x of Some y \<Rightarrow> Some y | None \<Rightarrow> first_some f xs)"

lemma first_some_None_iff: "first_some f xs = None \<longleftrightarrow> (\<forall>x\<in>set xs. f x = None)"
  by (induction xs) (auto split: option.splits)

lemma first_some_Some: "first_some f xs = Some y \<Longrightarrow> \<exists>x\<in>set xs. f x = Some y"
  by (induction xs) (auto split: option.splits)

text \<open>The home directory of a user is that of the first of the names in the request, in the order user name,
  domain user name, user principal name and SID and skipping empty ones, for which the system has an
  entry; without any there is no home directory.\<close>

theorem get_user_home_path_first:
  "get_user_home_path env u =
     (case first_some (try_get_home_by_name env) (home_candidates u) of Some d \<Rightarrow> d | None \<Rightarrow> [])"
  by (simp add: get_user_home_path_def home_candidates_def Let_def split: option.split)

end
