(* ===== verification/Sockaddr.thy ===== *)
theory Sockaddr
  imports Cereal
begin

text \<open>
  \<open>infra::tcp_sockaddr\<close> (\<open>infra/network.h\<close>, \<open>infra/network.cpp\<close>): a socket address in the
  \<open>sockaddr_storage\<close> union, seen through its family. Ports and IPv4 addresses are kept as the
  structure keeps them, in network byte order read as an integer of the host. A zeroed object has
  family 0. \<open>inet_ntop\<close> is a parameter. The constants are those of Linux.
\<close>

definition AF_INET :: u16 where
  "AF_INET = 2"

definition AF_INET6 :: u16 where
  "AF_INET6 = 10"

record sockaddr_in =
  sin_port :: u16
  sin_addr :: u32

record sockaddr_in6 =
  sin6_port :: u16
  sin6_flowinfo :: u32
  sin6_addr :: "byte list"
  sin6_scope_id :: u32

datatype tcp_sockaddr =
    Addr_ipv4 sockaddr_in
  | Addr_ipv6 sockaddr_in6
  | Addr_other u16 \<comment> \<open>the family field of any other contents\<close>

definition zero_sockaddr :: tcp_sockaddr where
  "zero_sockaddr = Addr_other 0"

definition INADDR_ANY :: u32 where
  "INADDR_ANY = 0"

definition in6addr_any :: "byte list" where
  "in6addr_any = replicate 16 0"

fun family :: "tcp_sockaddr \<Rightarrow> u16" where
  "family (Addr_ipv4 a) = AF_INET"
| "family (Addr_ipv6 a) = AF_INET6"
| "family (Addr_other f) = f"

fun set_port :: "endian \<Rightarrow> u16 \<Rightarrow> tcp_sockaddr \<Rightarrow> tcp_sockaddr outcome" where
  "set_port h p (Addr_ipv4 a) = Ret (Addr_ipv4 (a\<lparr>sin_port := htons h p\<rparr>))"
| "set_port h p (Addr_ipv6 a) = Ret (Addr_ipv6 (a\<lparr>sin6_port := htons h p\<rparr>))"
| "set_port h p (Addr_other f) = Abort"

fun sockaddr_port :: "endian \<Rightarrow> tcp_sockaddr \<Rightarrow> u16 outcome" where
  "sockaddr_port h (Addr_ipv4 a) = Ret (ntohs h (sin_port a))"
| "sockaddr_port h (Addr_ipv6 a) = Ret (ntohs h (sin6_port a))"
| "sockaddr_port h (Addr_other f) = Abort"

fun socklen :: "tcp_sockaddr \<Rightarrow> u32 outcome" where
  "socklen (Addr_ipv4 a) = Ret 16"
| "socklen (Addr_ipv6 a) = Ret 28"
| "socklen (Addr_other f) = Abort"

fun is_addr_any :: "tcp_sockaddr \<Rightarrow> bool outcome" where
  "is_addr_any (Addr_ipv4 a) = Ret (sin_addr a = INADDR_ANY)"
| "is_addr_any (Addr_ipv6 a) = Ret (sin6_addr a = in6addr_any)"
| "is_addr_any (Addr_other f) = Abort"

text \<open>\<open>inet_ntop family bytes\<close> prints an address, \<open>None\<close> when it fails.\<close>

fun sockaddr_to_string :: "(u16 \<Rightarrow> byte list \<Rightarrow> string option) \<Rightarrow> endian \<Rightarrow> tcp_sockaddr \<Rightarrow> string outcome" where
  "sockaddr_to_string inet_ntop h (Addr_ipv4 a) =
     (case inet_ntop AF_INET (store32 h (sin_addr a)) of
        None \<Rightarrow> Ret ''FAILED_TO_STRING''
      | Some buffer \<Rightarrow> Ret (buffer @ '':'' @ string_of_nat (unat (ntohs h (sin_port a)))))"
| "sockaddr_to_string inet_ntop h (Addr_ipv6 a) =
     (case inet_ntop AF_INET6 (sin6_addr a) of
        None \<Rightarrow> Ret ''FAILED_TO_STRING''
      | Some buffer \<Rightarrow> Ret (''['' @ buffer @ '']:'' @ string_of_nat (unat (ntohs h (sin6_port a)))))"
| "sockaddr_to_string inet_ntop h (Addr_other f) = Abort"

lemma port_set_port:
  "set_port h p a = Ret b \<Longrightarrow> sockaddr_port h b = Ret p \<and> family b = family a \<and> is_addr_any b = is_addr_any a"
  by (cases a) auto

section \<open>Serialisation\<close>

definition FAMILY_IPV4 :: u32 where
  "FAMILY_IPV4 = 1"

definition FAMILY_IPV6 :: u32 where
  "FAMILY_IPV6 = 2"

fun save_sockaddr :: "endian \<Rightarrow> tcp_sockaddr \<Rightarrow> byte list outcome" where
  "save_sockaddr h (Addr_ipv4 a) = cat (save_u32 h FAMILY_IPV4)
     (cat (save_u16 h (sin_port a)) (save_u32 h (sin_addr a)))"
| "save_sockaddr h (Addr_ipv6 a) = cat (save_u32 h FAMILY_IPV6)
     (cat (save_u16 h (sin6_port a))
     (cat (save_u32 h (sin6_flowinfo a))
     (cat (saveBinary (out_convert h) 16 (sin6_addr a)) (save_u32 h (sin6_scope_id a)))))"
| "save_sockaddr h (Addr_other f) = Abort"

definition load_sockaddr :: "tcp_sockaddr loader" where
  "load_sockaddr h c = seq_st (load_u32 h c) (\<lambda>fam.
     if fam = FAMILY_IPV4 then
       seq_st (load_u16 h c) (\<lambda>p. seq_st (load_u32 h c) (\<lambda>a.
         return_st (Addr_ipv4 \<lparr>sin_port = p, sin_addr = a\<rparr>)))
     else if fam = FAMILY_IPV6 then
       seq_st (load_u16 h c) (\<lambda>p. seq_st (load_u32 h c) (\<lambda>fl.
         seq_st (loadBinary c 16 16) (\<lambda>a. seq_st (load_u32 h c) (\<lambda>sc.
           return_st (Addr_ipv6 \<lparr>sin6_port = p, sin6_flowinfo = fl, sin6_addr = a, sin6_scope_id = sc\<rparr>)))))
     else (\<lambda>s. (Abort, s)))"

fun sockaddr_ok :: "tcp_sockaddr \<Rightarrow> bool" where
  "sockaddr_ok (Addr_ipv4 a) = True"
| "sockaddr_ok (Addr_ipv6 a) = (length (sin6_addr a) = 16)"
| "sockaddr_ok (Addr_other f) = False"

text \<open>
  Between hosts of one endianness an address survives. Between different ones the archive swaps
  the port and the address, which the structure already keeps in network order, so only the
  weaker contract is interpreted.
\<close>

interpretation sockaddr_codec: codec "(=)" save_sockaddr load_sockaddr sockaddr_ok "\<lambda>a. a"
proof
  fix a h
  assume "sockaddr_ok a"
  then show "\<exists>bs. save_sockaddr h a = Ret bs"
    by (cases a) (simp_all add: save_u16_def save_u32_def save_uint_eq saveBinary_def)
next
  fix h g :: endian and a bs r
  assume eq: "h = g" and ok: "sockaddr_ok a" and s: "save_sockaddr h a = Ret bs"
  have 16: "load_u16 g False (x @ q) = (Ret w, q)" if "save_u16 g w = Ret x" for w x q
    using u16_codec.load_save [OF _ _ that, of g q] by simp
  have 32: "load_u32 g False (x @ q) = (Ret w, q)" if "save_u32 g w = Ret x" for w x q
    using u32_codec.load_save [OF _ _ that, of g q] by simp
  have "load_sockaddr g False (bs @ r) = (Ret a, r)"
  proof (cases a)
    case (Addr_ipv4 v)
    with s eq obtain b c d where "save_u32 g FAMILY_IPV4 = Ret b" "save_u16 g (sin_port v) = Ret c"
      "save_u32 g (sin_addr v) = Ret d" "bs = b @ c @ d"
      by (auto simp: cat_Ret_iff)
    with Addr_ipv4 show ?thesis
      by (simp add: load_sockaddr_def 16 32)
  next
    case (Addr_ipv6 v)
    with s eq obtain b c d e where "save_u32 g FAMILY_IPV6 = Ret b" "save_u16 g (sin6_port v) = Ret c"
      "save_u32 g (sin6_flowinfo v) = Ret d" "save_u32 g (sin6_scope_id v) = Ret e"
      "bs = b @ c @ d @ sin6_addr v @ e"
      by (auto simp: cat_Ret_iff saveBinary_def)
    with Addr_ipv6 ok show ?thesis
      by (simp add: load_sockaddr_def 16 32 FAMILY_IPV4_def FAMILY_IPV6_def)
  next
    case (Addr_other f)
    with ok show ?thesis by simp
  qed
  with eq show "load_sockaddr g (h \<noteq> g) (bs @ r) = (Ret a, r)" by simp
qed

section \<open>Addresses between hosts of different byte order\<close>

text \<open>An address does not survive the way between hosts of different byte order: the port a little-endian host
  put into an IPv4 address is read with its bytes swapped on a big-endian one, because the
  serialisation swaps the network-order field as if it were an integer of the host.\<close>

theorem sockaddr_port_swapped:
  assumes "set_port LittleEndian p (Addr_ipv4 a) = Ret b" and "save_sockaddr LittleEndian b = Ret bs"
  shows "\<exists>c. load_sockaddr BigEndian True (bs @ rest) = (Ret c, rest)
    \<and> sockaddr_port LittleEndian b = Ret p \<and> sockaddr_port BigEndian c = Ret (htons LittleEndian p)"
proof -
  have b: "b = Addr_ipv4 (a\<lparr>sin_port := htons LittleEndian p\<rparr>)" using assms(1) by simp
  have 16: "load_u16 BigEndian True (x @ q) = (Ret w, q)" if "save_u16 LittleEndian w = Ret x" for w x q
    using u16_codec.load_save [OF _ _ that, of BigEndian q] by simp
  have 32: "load_u32 BigEndian True (x @ q) = (Ret w, q)" if "save_u32 LittleEndian w = Ret x" for w x q
    using u32_codec.load_save [OF _ _ that, of BigEndian q] by simp
  from assms(2) b obtain u v w where "save_u32 LittleEndian FAMILY_IPV4 = Ret u"
    "save_u16 LittleEndian (htons LittleEndian p) = Ret v" "save_u32 LittleEndian (sin_addr a) = Ret w" "bs = u @ v @ w"
    by (auto simp: cat_Ret_iff)
  then have "load_sockaddr BigEndian True (bs @ rest)
      = (Ret (Addr_ipv4 \<lparr>sin_port = htons LittleEndian p, sin_addr = sin_addr a\<rparr>), rest)"
    by (simp add: load_sockaddr_def 16 32)
  moreover have "sockaddr_port LittleEndian b = Ret p" using port_set_port [OF assms(1)] by simp
  moreover have "ntohs BigEndian w = w" for w by (simp add: htons_def)
  ultimately show ?thesis by simp
qed

theorem sockaddr_port_swapped_witness:
  "\<exists>b bs c. set_port LittleEndian 62581 (Addr_ipv4 \<lparr>sin_port = 0, sin_addr = 0\<rparr>) = Ret b
    \<and> load_sockaddr BigEndian True (bs @ []) = (Ret c, [])
    \<and> sockaddr_port LittleEndian b = Ret 62581 \<and> sockaddr_port BigEndian c = Ret (htons LittleEndian 62581)"
proof -
  let ?b = "Addr_ipv4 \<lparr>sin_port = htons LittleEndian 62581, sin_addr = 0\<rparr>"
  obtain bs where bs: "save_sockaddr LittleEndian ?b = Ret bs"
    using sockaddr_codec.save_total [of ?b LittleEndian] by auto
  have "set_port LittleEndian 62581 (Addr_ipv4 \<lparr>sin_port = 0, sin_addr = 0\<rparr>) = Ret ?b" by simp
  from this sockaddr_port_swapped [OF this bs, of "[]"] show ?thesis by blast
qed

end
