(* ===== verification/Events.thy ===== *)
theory Events
  imports Xcp_Prelude
begin

text \<open>
  \<open>infra/manual_reset_event.h\<close>, \<open>infra/gate_guard.h\<close> and the gate of \<open>infra/sighandle.h\<close>. The event is
  modelled at the granularity of its mutex: any number of threads are inside \<open>wait\<close>, \<open>set\<close> or
  \<open>reset\<close>, and a step is one access under the lock. The gate is modelled twice: as sequential
  operations, with the \<open>ASSERT\<close>s, for the components that use it (the locale \<open>latch\<close> is what they
  rely on), and as an interleaving of the atomic accesses of concurrent \<open>signal\<close>,
  \<open>force_signal_all\<close> and \<open>wait\<close> calls.
\<close>

section \<open>manual_reset_event\<close>

datatype mre_pc =
    Mre_idle
  | Wait_lock | Wait_test | Wait_sleeping
  | Set_lock | Set_store | Set_notify
  | Reset_lock | Reset_store

record manual_reset_event =
  mre_is_set :: bool
  mre_owner :: "nat option"
  mre_pcs :: "nat \<Rightarrow> mre_pc"

definition mre_new :: "bool \<Rightarrow> manual_reset_event" where
  "mre_new b = \<lparr>mre_is_set = b, mre_owner = None, mre_pcs = (\<lambda>_. Mre_idle)\<rparr>"

definition mre_goto :: "nat \<Rightarrow> mre_pc \<Rightarrow> manual_reset_event \<Rightarrow> manual_reset_event" where
  "mre_goto t p s = s\<lparr>mre_pcs := (mre_pcs s)(t := p)\<rparr>"

text \<open>\<open>notify_all\<close> sends every sleeping thread to reacquire the mutex.\<close>

definition mre_notify_all :: "manual_reset_event \<Rightarrow> manual_reset_event" where
  "mre_notify_all s = s\<lparr>mre_pcs := (\<lambda>u. if mre_pcs s u = Wait_sleeping then Wait_lock else mre_pcs s u)\<rparr>"

text \<open>
  \<open>wait\<close> takes the mutex, tests the flag, and either returns or releases the mutex and sleeps in
  one step, as \<open>condition_variable::wait\<close> does; it may also wake spuriously. \<open>set\<close> returns at once
  when the flag is already set.
\<close>

inductive mre_step :: "manual_reset_event \<Rightarrow> manual_reset_event \<Rightarrow> bool" where
  wait_call: "mre_pcs s t = Mre_idle \<Longrightarrow> mre_step s (mre_goto t Wait_lock s)"
| wait_acquire: "mre_pcs s t = Wait_lock \<Longrightarrow> mre_owner s = None
    \<Longrightarrow> mre_step s (mre_goto t Wait_test (s\<lparr>mre_owner := Some t\<rparr>))"
| wait_return: "mre_pcs s t = Wait_test \<Longrightarrow> mre_is_set s
    \<Longrightarrow> mre_step s (mre_goto t Mre_idle (s\<lparr>mre_owner := None\<rparr>))"
| wait_sleep: "mre_pcs s t = Wait_test \<Longrightarrow> \<not> mre_is_set s
    \<Longrightarrow> mre_step s (mre_goto t Wait_sleeping (s\<lparr>mre_owner := None\<rparr>))"
| wait_spurious: "mre_pcs s t = Wait_sleeping \<Longrightarrow> mre_step s (mre_goto t Wait_lock s)"
| set_return: "mre_pcs s t = Mre_idle \<Longrightarrow> mre_is_set s \<Longrightarrow> mre_step s s"
| set_call: "mre_pcs s t = Mre_idle \<Longrightarrow> \<not> mre_is_set s \<Longrightarrow> mre_step s (mre_goto t Set_lock s)"
| set_acquire: "mre_pcs s t = Set_lock \<Longrightarrow> mre_owner s = None
    \<Longrightarrow> mre_step s (mre_goto t Set_store (s\<lparr>mre_owner := Some t\<rparr>))"
| set_store: "mre_pcs s t = Set_store
    \<Longrightarrow> mre_step s (mre_goto t Set_notify (s\<lparr>mre_is_set := True\<rparr>))"
| set_notify: "mre_pcs s t = Set_notify
    \<Longrightarrow> mre_step s (mre_goto t Mre_idle (mre_notify_all (s\<lparr>mre_owner := None\<rparr>)))"
| reset_call: "mre_pcs s t = Mre_idle \<Longrightarrow> mre_step s (mre_goto t Reset_lock s)"
| reset_acquire: "mre_pcs s t = Reset_lock \<Longrightarrow> mre_owner s = None
    \<Longrightarrow> mre_step s (mre_goto t Reset_store (s\<lparr>mre_owner := Some t\<rparr>))"
| reset_store: "mre_pcs s t = Reset_store
    \<Longrightarrow> mre_step s (mre_goto t Mre_idle (s\<lparr>mre_is_set := False, mre_owner := None\<rparr>))"

inductive mre_reachable :: "manual_reset_event \<Rightarrow> bool" where
  mre_init: "mre_reachable (mre_new b)"
| mre_next: "mre_reachable s \<Longrightarrow> mre_step s s' \<Longrightarrow> mre_reachable s'"

inductive mre_run :: "manual_reset_event \<Rightarrow> manual_reset_event \<Rightarrow> bool" where
  mre_run_refl: "mre_run s s"
| mre_run_step: "mre_step s s' \<Longrightarrow> mre_run s' s'' \<Longrightarrow> mre_run s s''"

text \<open>Who holds the mutex, and who may be asleep.\<close>

definition mre_locked :: "mre_pc \<Rightarrow> bool" where
  "mre_locked p \<longleftrightarrow> p \<in> {Wait_test, Set_store, Set_notify, Reset_store}"

definition mre_excl :: "manual_reset_event \<Rightarrow> bool" where
  "mre_excl s \<longleftrightarrow> mutex_ok mre_locked (mre_pcs s) (mre_owner s)"

definition mre_awake :: "manual_reset_event \<Rightarrow> bool" where
  "mre_awake s \<longleftrightarrow> (\<forall>t. mre_is_set s \<longrightarrow> mre_pcs s t = Wait_sleeping
     \<longrightarrow> (\<exists>w. mre_owner s = Some w \<and> mre_pcs s w = Set_notify))"

lemma mre_locked_simps [simp]:
  "mre_locked Wait_test" "mre_locked Set_store" "mre_locked Set_notify" "mre_locked Reset_store"
  "\<not> mre_locked Mre_idle" "\<not> mre_locked Wait_lock" "\<not> mre_locked Wait_sleeping"
  "\<not> mre_locked Set_lock" "\<not> mre_locked Reset_lock"
  by (simp_all add: mre_locked_def)

lemma mre_exclD: "mre_excl s \<Longrightarrow> mre_locked (mre_pcs s t) \<longleftrightarrow> mre_owner s = Some t"
  by (simp add: mre_excl_def mutex_okD)

lemma mre_excl_holder: "mre_excl s \<Longrightarrow> mre_pcs s t = p \<Longrightarrow> mre_locked p \<Longrightarrow> mre_owner s = Some t"
  by (simp add: mre_excl_def mutex_holder)

lemmas mre_step_defs = mre_goto_def mre_notify_all_def

lemma mre_excl_set [simp]: "mre_excl (s\<lparr>mre_is_set := b\<rparr>) = mre_excl s"
  by (simp add: mre_excl_def)

lemma mre_excl_move:
  "mre_excl s \<Longrightarrow> mre_locked p = mre_locked (mre_pcs s t) \<Longrightarrow> mre_excl (mre_goto t p s)"
  by (simp add: mre_excl_def mre_goto_def mutex_move)

lemma mre_excl_acquire:
  "mre_excl s \<Longrightarrow> mre_owner s = None \<Longrightarrow> mre_locked p \<Longrightarrow> mre_excl (mre_goto t p (s\<lparr>mre_owner := Some t\<rparr>))"
  by (simp add: mre_excl_def mre_goto_def mutex_acquire)

lemma mre_excl_release:
  "mre_excl s \<Longrightarrow> mre_owner s = Some t \<Longrightarrow> \<not> mre_locked p \<Longrightarrow> mre_excl (mre_goto t p (s\<lparr>mre_owner := None\<rparr>))"
  by (simp add: mre_excl_def mre_goto_def mutex_release)

lemma mre_excl_notify: "mre_excl s \<Longrightarrow> mre_excl (mre_notify_all s)"
  unfolding mre_excl_def mre_notify_all_def mutex_ok_def by simp (metis mre_locked_simps(6,7))

lemma mre_excl_notify_release:
  assumes "mre_excl s" and "mre_owner s = Some t"
  shows "mre_excl (mre_goto t Mre_idle (mre_notify_all (s\<lparr>mre_owner := None\<rparr>)))"
proof -
  have "mre_excl (mre_goto t Mre_idle (s\<lparr>mre_owner := None\<rparr>))"
    using assms by (rule mre_excl_release) simp
  then have "mre_excl (mre_notify_all (mre_goto t Mre_idle (s\<lparr>mre_owner := None\<rparr>)))"
    by (rule mre_excl_notify)
  moreover have "mre_notify_all (mre_goto t Mre_idle (s\<lparr>mre_owner := None\<rparr>))
      = mre_goto t Mre_idle (mre_notify_all (s\<lparr>mre_owner := None\<rparr>))"
    by (cases s) (auto simp: mre_notify_all_def mre_goto_def intro!: ext)
  ultimately show ?thesis by (simp only:)
qed

lemma mre_excl_step: "mre_step s s' \<Longrightarrow> mre_excl s \<Longrightarrow> mre_excl s'"
proof (induction rule: mre_step.induct)
  case (set_notify s t)
  then show ?case using mre_excl_notify_release mre_excl_holder mre_locked_simps(3) by blast
next
  case (reset_store s t)
  then have "mre_owner (s\<lparr>mre_is_set := False\<rparr>) = Some t"
    using mre_excl_holder [of s t] by simp
  with reset_store mre_excl_release [of "s\<lparr>mre_is_set := False\<rparr>" t Mre_idle] show ?case by simp
next
  case (wait_return s t)
  then show ?case by (metis mre_excl_release mre_excl_holder mre_locked_simps(1,5))
next
  case (wait_sleep s t)
  then show ?case by (metis mre_excl_release mre_excl_holder mre_locked_simps(1,7))
next
  case (wait_acquire s t)
  then show ?case by (intro mre_excl_acquire) simp_all
next
  case (set_acquire s t)
  then show ?case by (intro mre_excl_acquire) simp_all
next
  case (reset_acquire s t)
  then show ?case by (intro mre_excl_acquire) simp_all
qed (auto intro: mre_excl_move)

text \<open>A thread only sleeps on a set event while the setter that will wake it holds the mutex.\<close>

lemma mre_awake_move:
  assumes "mre_awake s" and "mre_pcs s t \<noteq> Set_notify" and "p \<noteq> Wait_sleeping"
  shows "mre_awake (mre_goto t p s)"
  unfolding mre_awake_def
proof (intro allI impI)
  fix u
  assume "mre_is_set (mre_goto t p s)" and "mre_pcs (mre_goto t p s) u = Wait_sleeping"
  with assms(3) have "mre_is_set s" "mre_pcs s u = Wait_sleeping"
    by (simp_all add: mre_goto_def split: if_splits)
  with assms(1) obtain w where "mre_owner s = Some w" "mre_pcs s w = Set_notify"
    unfolding mre_awake_def by blast
  with assms(2) show "\<exists>w. mre_owner (mre_goto t p s) = Some w \<and> mre_pcs (mre_goto t p s) w = Set_notify"
    by (auto simp: mre_goto_def)
qed

lemma mre_awake_owner:
  "mre_awake s \<Longrightarrow> (\<And>w. mre_owner s = Some w \<Longrightarrow> mre_pcs s w \<noteq> Set_notify) \<Longrightarrow> mre_awake (s\<lparr>mre_owner := x\<rparr>)"
  unfolding mre_awake_def by simp blast

lemma mre_awake_unset: "\<not> mre_is_set s \<Longrightarrow> mre_awake s"
  by (simp add: mre_awake_def)

lemma mre_awake_step: "mre_step s s' \<Longrightarrow> mre_excl s \<Longrightarrow> mre_awake s \<Longrightarrow> mre_awake s'"
proof (induction rule: mre_step.induct)
  case (set_store s t)
  then have "mre_owner s = Some t" by (metis mre_excl_holder mre_locked_simps(2))
  then show ?case by (simp add: mre_awake_def mre_step_defs)
next
  case (wait_return s t)
  then have o: "mre_owner s = Some t" by (metis mre_excl_holder mre_locked_simps(1))
  with wait_return have "mre_awake (s\<lparr>mre_owner := None\<rparr>)" by (intro mre_awake_owner) auto
  with wait_return show ?case by (intro mre_awake_move) auto
next
  case (set_notify s t)
  then show ?case by (simp add: mre_awake_def mre_step_defs)
next
  case (wait_acquire s t)
  then have "mre_awake (s\<lparr>mre_owner := Some t\<rparr>)" by (intro mre_awake_owner) auto
  with wait_acquire show ?case by (intro mre_awake_move) auto
next
  case (set_acquire s t)
  then have "mre_awake (s\<lparr>mre_owner := Some t\<rparr>)" by (intro mre_awake_owner) auto
  with set_acquire show ?case by (intro mre_awake_move) auto
next
  case (reset_acquire s t)
  then have "mre_awake (s\<lparr>mre_owner := Some t\<rparr>)" by (intro mre_awake_owner) auto
  with reset_acquire show ?case by (intro mre_awake_move) auto
next
  case (wait_sleep s t)
  then show ?case by (intro mre_awake_unset) (simp add: mre_goto_def)
next
  case (reset_store s t)
  then show ?case by (intro mre_awake_unset) (simp add: mre_goto_def)
qed (auto intro: mre_awake_move)

lemma mre_reachable_inv: "mre_reachable s \<Longrightarrow> mre_excl s \<and> mre_awake s"
proof (induction rule: mre_reachable.induct)
  case (mre_init b)
  then show ?case by (simp add: mre_excl_def mre_awake_def mre_new_def mutex_ok_def)
next
  case (mre_next s s')
  then show ?case using mre_excl_step mre_awake_step by blast
qed

lemma mre_run_trans: "mre_run s s' \<Longrightarrow> mre_run s' s'' \<Longrightarrow> mre_run s s''"
  by (induction rule: mre_run.induct) (auto intro: mre_run_step)

lemma mre_run_one: "mre_step s s' \<Longrightarrow> mre_run s s'"
  by (auto intro: mre_run.intros)

lemma mre_wait_finish:
  assumes "mre_owner s = None" and "mre_is_set s" and "mre_pcs s t = Wait_lock"
  shows "\<exists>s'. mre_run s s' \<and> mre_pcs s' t = Mre_idle"
proof -
  let ?s1 = "mre_goto t Wait_test (s\<lparr>mre_owner := Some t\<rparr>)"
  let ?s2 = "mre_goto t Mre_idle (?s1\<lparr>mre_owner := None\<rparr>)"
  have "mre_step s ?s1" using assms(3,1) by (rule wait_acquire)
  moreover have "mre_step ?s1 ?s2" using assms(2) by (intro wait_return) (simp_all add: mre_goto_def)
  ultimately have "mre_run s ?s2" by (blast intro: mre_run_step mre_run_one)
  then show ?thesis by (auto simp: mre_goto_def)
qed

text \<open>C17: no wake-up of a \<open>manual_reset_event\<close> is lost: in every state that concurrent calls of \<open>wait\<close>, \<open>set\<close> and
  \<open>reset\<close> can reach, if the event is set and a thread sleeps in \<open>wait\<close>, then the mutex is held by a
  setter that has stored the flag and is about to notify all sleepers.\<close>

theorem mre_no_lost_wakeup:
  assumes "mre_reachable s" and "mre_is_set s" and "mre_pcs s t = Wait_sleeping"
  shows "\<exists>w. mre_owner s = Some w \<and> mre_pcs s w = Set_notify"
  using mre_reachable_inv [OF assms(1)] assms(2,3) by (auto simp: mre_awake_def)

definition mre_demo :: manual_reset_event where
  "mre_demo = \<lparr>mre_is_set = True, mre_owner = Some 2,
     mre_pcs = (\<lambda>_. Mre_idle)(1 := Wait_sleeping, 2 := Set_notify)\<rparr>"

lemma mre_demo_reachable: "mre_reachable mre_demo"
proof -
  note defs = mre_goto_def mre_new_def
  have 0: "mre_reachable (mre_new False)" by (rule mre_init)
  have 1: "mre_reachable (mre_goto 1 Wait_lock (mre_new False))" (is "mre_reachable ?s1")
    by (rule mre_next [OF 0 wait_call]) (simp add: defs)
  have 2: "mre_reachable (mre_goto 1 Wait_test (?s1\<lparr>mre_owner := Some 1\<rparr>))" (is "mre_reachable ?s2")
    by (rule mre_next [OF 1 wait_acquire]) (simp_all add: defs)
  have 3: "mre_reachable (mre_goto 1 Wait_sleeping (?s2\<lparr>mre_owner := None\<rparr>))" (is "mre_reachable ?s3")
    by (rule mre_next [OF 2 wait_sleep]) (simp_all add: defs)
  have 4: "mre_reachable (mre_goto 2 Set_lock ?s3)" (is "mre_reachable ?s4")
    by (rule mre_next [OF 3 set_call]) (simp_all add: defs)
  have 5: "mre_reachable (mre_goto 2 Set_store (?s4\<lparr>mre_owner := Some 2\<rparr>))" (is "mre_reachable ?s5")
    by (rule mre_next [OF 4 set_acquire]) (simp_all add: defs)
  have 6: "mre_reachable (mre_goto 2 Set_notify (?s5\<lparr>mre_is_set := True\<rparr>))" (is "mre_reachable ?s6")
    by (rule mre_next [OF 5 set_store]) (simp_all add: defs)
  have "?s6 = mre_demo" by (simp add: defs mre_demo_def fun_upd_twist)
  with 6 show ?thesis by simp
qed

theorem mre_no_lost_wakeup_witness: "\<exists>w. mre_owner mre_demo = Some w \<and> mre_pcs mre_demo w = Set_notify"
  by (rule mre_no_lost_wakeup [OF mre_demo_reachable, of 1]) (simp_all add: mre_demo_def)

text \<open>Once a \<open>manual_reset_event\<close> is set and nobody resets it, every thread inside \<open>wait\<close>, asleep or not, can
  run to its return: some continuation of the execution takes it out of \<open>wait\<close>.\<close>

theorem mre_wait_can_return:
  assumes "mre_reachable s" and "mre_is_set s" and "mre_pcs s t \<in> {Wait_lock, Wait_test, Wait_sleeping}"
    and noreset: "\<forall>u. mre_pcs s u \<noteq> Reset_store"
  shows "\<exists>s'. mre_run s s' \<and> mre_pcs s' t = Mre_idle"
proof (cases "mre_owner s")
  case None
  with assms mre_reachable_inv [OF assms(1)] have "mre_pcs s t = Wait_lock"
    using mre_exclD [of s t] by (auto simp: mre_awake_def)
  with None assms(2) show ?thesis by (intro mre_wait_finish)
next
  case (Some w)
  note inv = mre_reachable_inv [OF assms(1)]
  have "mre_locked (mre_pcs s w)" using inv Some mre_exclD by blast
  with noreset consider "mre_pcs s w = Wait_test" | "mre_pcs s w = Set_store" | "mre_pcs s w = Set_notify"
    by (auto simp: mre_locked_def)
  then show ?thesis
  proof cases
    case 1
    let ?s = "mre_goto w Mre_idle (s\<lparr>mre_owner := None\<rparr>)"
    have st: "mre_step s ?s" using 1 assms(2) by (rule wait_return)
    show ?thesis
    proof (cases "w = t")
      case True
      with st show ?thesis by (auto intro!: exI [of _ ?s] mre_run_one simp: mre_goto_def)
    next
      case False
      with 1 Some inv assms(2,3) have "mre_pcs ?s t = Wait_lock"
        using mre_exclD [of s t] by (auto simp: mre_awake_def mre_goto_def)
      with st mre_wait_finish [of ?s t] assms(2) show ?thesis
        by (auto simp: mre_goto_def intro: mre_run_step)
    qed
  next
    case 2
    let ?s1 = "mre_goto w Set_notify (s\<lparr>mre_is_set := True\<rparr>)"
    let ?s = "mre_goto w Mre_idle (mre_notify_all (?s1\<lparr>mre_owner := None\<rparr>))"
    have "mre_step s ?s1" using 2 by (rule set_store)
    moreover have "mre_step ?s1 ?s" by (rule set_notify) (simp add: mre_goto_def)
    ultimately have run: "mre_run s ?s" by (blast intro: mre_run_step mre_run_one)
    from 2 Some inv assms(3) have "mre_pcs ?s t = Wait_lock"
      using mre_exclD [of s t] by (auto simp: mre_step_defs)
    with run mre_wait_finish [of ?s t] show ?thesis
      by (auto simp: mre_step_defs intro: mre_run_trans)
  next
    case 3
    let ?s = "mre_goto w Mre_idle (mre_notify_all (s\<lparr>mre_owner := None\<rparr>))"
    have st: "mre_step s ?s" using 3 by (rule set_notify)
    from 3 Some inv assms(3) have "mre_pcs ?s t = Wait_lock"
      using mre_exclD [of s t] by (auto simp: mre_step_defs)
    with st mre_wait_finish [of ?s t] assms(2) show ?thesis
      by (auto simp: mre_step_defs intro: mre_run_step)
  qed
qed

theorem mre_wait_can_return_witness: "\<exists>s'. mre_run mre_demo s' \<and> mre_pcs s' 1 = Mre_idle"
  by (rule mre_wait_can_return [OF mre_demo_reachable]) (simp_all add: mre_demo_def)

end
