(* ===== verification/Rundown.thy ===== *)
theory Rundown
  imports Xcp_Prelude
begin

text \<open>
  \<open>infra/rundown_protection.h\<close>: the lock that protects the list of channel threads of a client
  (and of channels on the client's side) until it is run down for disposal. A step is one access
  under the \<open>_serial\<close> mutex or one acquisition or release of the shared mutex. The protected list
  is part of the state: a holder of a unique lock may add to it, the rundown clears it.
\<close>

datatype rd_kind = Rd_shared | Rd_unique | Rd_rundown

datatype rd_pc =
    Rd_idle
  | Want_serial rd_kind
  | Have_serial rd_kind
  | Want_mutex rd_kind \<comment> \<open>still inside the serial section\<close>
  | Holding rd_kind

record rundown_protection =
  rd_serial :: "nat option"
  rd_required :: bool
  rd_pcs :: "nat \<Rightarrow> rd_pc"
  rd_items :: "nat list" \<comment> \<open>the protected list\<close>
  rd_done :: bool \<comment> \<open>some rundown holder has released the lock\<close>

definition rd_new :: rundown_protection where
  "rd_new = \<lparr>rd_serial = None, rd_required = False, rd_pcs = (\<lambda>_. Rd_idle), rd_items = [], rd_done = False\<rparr>"

definition required_rundown :: "rundown_protection \<Rightarrow> bool" where
  "required_rundown s = rd_required s"

definition rd_mutex_free :: "rd_kind \<Rightarrow> rundown_protection \<Rightarrow> bool" where
  "rd_mutex_free k s \<longleftrightarrow> (\<forall>u. rd_pcs s u \<noteq> Holding Rd_unique \<and> rd_pcs s u \<noteq> Holding Rd_rundown)
     \<and> (k = Rd_shared \<or> (\<forall>u. rd_pcs s u \<noteq> Holding Rd_shared))"

definition rd_goto :: "nat \<Rightarrow> rd_pc \<Rightarrow> rundown_protection \<Rightarrow> rundown_protection" where
  "rd_goto t p s = s\<lparr>rd_pcs := (rd_pcs s)(t := p)\<rparr>"

text \<open>
  A refused \<open>acquire_shared\<close> or \<open>acquire_unique\<close> returns a lock that owns nothing; the caller is
  idle again. The mutex is acquired before the serial section is left.
\<close>

inductive rd_step :: "rundown_protection \<Rightarrow> rundown_protection \<Rightarrow> bool" where
  rd_call: "rd_pcs s t = Rd_idle \<Longrightarrow> rd_step s (rd_goto t (Want_serial k) s)"
| rd_lock_serial: "rd_pcs s t = Want_serial k \<Longrightarrow> rd_serial s = None
    \<Longrightarrow> rd_step s (rd_goto t (Have_serial k) (s\<lparr>rd_serial := Some t\<rparr>))"
| rd_refuse: "rd_pcs s t = Have_serial k \<Longrightarrow> k \<noteq> Rd_rundown \<Longrightarrow> rd_required s
    \<Longrightarrow> rd_step s (rd_goto t Rd_idle (s\<lparr>rd_serial := None\<rparr>))"
| rd_accept: "rd_pcs s t = Have_serial k \<Longrightarrow> k \<noteq> Rd_rundown \<Longrightarrow> \<not> rd_required s
    \<Longrightarrow> rd_step s (rd_goto t (Want_mutex k) s)"
| rd_require: "rd_pcs s t = Have_serial Rd_rundown
    \<Longrightarrow> rd_step s (rd_goto t (Want_mutex Rd_rundown) (s\<lparr>rd_required := True\<rparr>))"
| rd_lock_mutex: "rd_pcs s t = Want_mutex k \<Longrightarrow> rd_mutex_free k s
    \<Longrightarrow> rd_step s (rd_goto t (Holding k) (s\<lparr>rd_serial := None\<rparr>))"
| rd_add: "rd_pcs s t = Holding Rd_unique \<Longrightarrow> rd_step s (s\<lparr>rd_items := rd_items s @ [x]\<rparr>)"
| rd_clear: "rd_pcs s t = Holding Rd_rundown
    \<Longrightarrow> rd_step s (rd_goto t Rd_idle (s\<lparr>rd_items := [], rd_done := True\<rparr>))"
| rd_unlock: "rd_pcs s t = Holding k \<Longrightarrow> k \<noteq> Rd_rundown \<Longrightarrow> rd_step s (rd_goto t Rd_idle s)"

inductive rd_reachable :: "rundown_protection \<Rightarrow> bool" where
  rd_first: "rd_reachable rd_new"
| rd_next: "rd_reachable s \<Longrightarrow> rd_step s s' \<Longrightarrow> rd_reachable s'"

definition rd_in_serial :: "rd_pc \<Rightarrow> bool" where
  "rd_in_serial p \<longleftrightarrow> (\<exists>k. p = Have_serial k \<or> p = Want_mutex k)"

definition rd_excl :: "rundown_protection \<Rightarrow> bool" where
  "rd_excl s \<longleftrightarrow> mutex_ok rd_in_serial (rd_pcs s) (rd_serial s)"

text \<open>A protected acquisition that passed its test excludes the rundown until it is released.\<close>

definition rd_prot :: "rundown_protection \<Rightarrow> bool" where
  "rd_prot s \<longleftrightarrow> (\<forall>t k. rd_pcs s t = Want_mutex k \<longrightarrow> k \<noteq> Rd_rundown \<longrightarrow> \<not> rd_required s)
     \<and> (\<forall>t. rd_pcs s t = Holding Rd_rundown \<or> rd_pcs s t = Want_mutex Rd_rundown \<longrightarrow> rd_required s)
     \<and> (\<forall>t u k. rd_pcs s t = Holding Rd_rundown \<longrightarrow> rd_pcs s u = Holding k \<longrightarrow> u = t)
     \<and> (\<forall>t u k. rd_pcs s t = Holding Rd_unique \<longrightarrow> rd_pcs s u = Holding k \<longrightarrow> u = t)
     \<and> (rd_done s \<longrightarrow> rd_required s \<and> rd_items s = []
          \<and> (\<forall>t. rd_pcs s t \<noteq> Holding Rd_unique \<and> rd_pcs s t \<noteq> Holding Rd_shared))"

lemma rd_in_serial_simps [simp]:
  "rd_in_serial (Have_serial k)" "rd_in_serial (Want_mutex k)"
  "\<not> rd_in_serial Rd_idle" "\<not> rd_in_serial (Want_serial k)" "\<not> rd_in_serial (Holding k)"
  by (simp_all add: rd_in_serial_def)

lemma rd_excl_holder: "rd_excl s \<Longrightarrow> rd_pcs s t = p \<Longrightarrow> rd_in_serial p \<Longrightarrow> rd_serial s = Some t"
  by (simp add: rd_excl_def mutex_holder)

lemma rd_excl_one:
  "rd_excl s \<Longrightarrow> rd_in_serial (rd_pcs s t) \<Longrightarrow> rd_in_serial (rd_pcs s u) \<Longrightarrow> u = t"
  by (simp add: rd_excl_def mutex_okD)

lemma rd_excl_step: "rd_step s s' \<Longrightarrow> rd_excl s \<Longrightarrow> rd_excl s'"
proof (induction rule: rd_step.induct)
  case (rd_refuse s t k)
  then have "rd_serial s = Some t" using rd_excl_holder rd_in_serial_simps(1) by blast
  with rd_refuse show ?case by (simp add: rd_excl_def rd_goto_def mutex_release)
next
  case (rd_lock_mutex s t k)
  then have "rd_serial s = Some t" using rd_excl_holder rd_in_serial_simps(2) by blast
  with rd_lock_mutex show ?case by (simp add: rd_excl_def rd_goto_def mutex_release)
qed (simp_all add: rd_excl_def rd_goto_def mutex_acquire mutex_move)

lemma rd_prot_step:
  assumes "rd_step s s'" and "rd_excl s" and "rd_prot s"
  shows "rd_prot s'"
  using assms
proof (induction rule: rd_step.induct)
  case (rd_require s t)
  then have "\<And>u k. rd_pcs s u = Want_mutex k \<Longrightarrow> u = t"
    using rd_excl_one [of s t] by (metis rd_in_serial_simps(1,2))
  with rd_require show ?case unfolding rd_prot_def rd_goto_def by auto
next
  case (rd_lock_mutex s t k)
  then have "rd_pcs s u \<noteq> Holding j" if "k \<noteq> Rd_shared" for u j
    using that unfolding rd_mutex_free_def by (cases j) auto
  with rd_lock_mutex show ?case
    unfolding rd_prot_def rd_goto_def rd_mutex_free_def by (cases k) auto
next
  case (rd_accept s t k)
  then show ?case unfolding rd_prot_def rd_goto_def by auto
next
  case (rd_add s t x)
  then show ?case unfolding rd_prot_def by auto
next
  case (rd_clear s t)
  then show ?case unfolding rd_prot_def rd_goto_def by auto
next
  case (rd_unlock s t k)
  then show ?case unfolding rd_prot_def rd_goto_def by auto
qed (auto simp: rd_prot_def rd_goto_def)

lemma rd_reachable_inv: "rd_reachable s \<Longrightarrow> rd_excl s \<and> rd_prot s"
proof (induction rule: rd_reachable.induct)
  case rd_first
  then show ?case by (simp add: rd_excl_def rd_prot_def rd_new_def mutex_ok_def)
next
  case (rd_next s s')
  then show ?case using rd_excl_step rd_prot_step by blast
qed

lemma rd_holder_unique:
  assumes "rd_reachable s" and "rd_pcs s t = Holding Rd_unique \<or> rd_pcs s t = Holding Rd_rundown"
    and "rd_pcs s u = Holding k"
  shows "u = t"
  using rd_reachable_inv [OF assms(1)] assms(2,3) unfolding rd_prot_def by blast

text \<open>C18: the rundown is final: once a holder of the rundown lock has cleared the protected list and
  released it, whatever calls of \<open>acquire_shared\<close>, \<open>acquire_unique\<close> and \<open>acquire_rundown\<close> are
  interleaved with it or come later, the list is empty and no thread holds or waits for a protected
  lock.\<close>

theorem rundown_final:
  assumes "rd_reachable s" and "rd_done s"
  shows "required_rundown s \<and> rd_items s = []
    \<and> (\<forall>u k. k \<noteq> Rd_rundown \<longrightarrow> rd_pcs s u \<noteq> Holding k \<and> rd_pcs s u \<noteq> Want_mutex k)"
proof -
  from rd_reachable_inv [OF assms(1)] assms(2) have "rd_required s" "rd_items s = []"
    and h: "\<And>u. rd_pcs s u \<noteq> Holding Rd_unique \<and> rd_pcs s u \<noteq> Holding Rd_shared"
    and w: "\<And>u k. rd_pcs s u = Want_mutex k \<Longrightarrow> k = Rd_rundown"
    unfolding rd_prot_def by blast+
  moreover have "rd_pcs s u \<noteq> Holding k" if "k \<noteq> Rd_rundown" for u k
    using that h by (cases k) auto
  ultimately show ?thesis by (auto simp: required_rundown_def)
qed

text \<open>A run in which one item is added, then the list is run down.\<close>

definition rd_demo :: rundown_protection where
  "rd_demo = rd_new\<lparr>rd_required := True, rd_done := True\<rparr>"

lemma rd_demo_reachable: "rd_reachable rd_demo"
proof -
  note defs = rd_goto_def rd_new_def
  have 0: "rd_reachable rd_new" by (rule rd_first)
  have 1: "rd_reachable (rd_goto 1 (Want_serial Rd_unique) rd_new)" (is "rd_reachable ?s1")
    by (rule rd_next [OF 0 rd_call]) (simp add: defs)
  have 2: "rd_reachable (rd_goto 1 (Have_serial Rd_unique) (?s1\<lparr>rd_serial := Some 1\<rparr>))" (is "rd_reachable ?s2")
    by (rule rd_next [OF 1 rd_lock_serial]) (simp_all add: defs)
  have 3: "rd_reachable (rd_goto 1 (Want_mutex Rd_unique) ?s2)" (is "rd_reachable ?s3")
    by (rule rd_next [OF 2 rd_accept]) (simp_all add: defs)
  have 4: "rd_reachable (rd_goto 1 (Holding Rd_unique) (?s3\<lparr>rd_serial := None\<rparr>))" (is "rd_reachable ?s4")
    by (rule rd_next [OF 3 rd_lock_mutex]) (simp_all add: defs rd_mutex_free_def)
  have 5: "rd_reachable (?s4\<lparr>rd_items := rd_items ?s4 @ [42]\<rparr>)" (is "rd_reachable ?s5")
    by (rule rd_next [OF 4 rd_add]) (simp add: defs)
  have 6: "rd_reachable (rd_goto 1 Rd_idle ?s5)" (is "rd_reachable ?s6")
    by (rule rd_next [OF 5 rd_unlock [of _ 1 Rd_unique]]) (simp_all add: defs)
  have 7: "rd_reachable (rd_goto 2 (Want_serial Rd_rundown) ?s6)" (is "rd_reachable ?s7")
    by (rule rd_next [OF 6 rd_call]) (simp add: defs)
  have 8: "rd_reachable (rd_goto 2 (Have_serial Rd_rundown) (?s7\<lparr>rd_serial := Some 2\<rparr>))" (is "rd_reachable ?s8")
    by (rule rd_next [OF 7 rd_lock_serial]) (simp_all add: defs)
  have 9: "rd_reachable (rd_goto 2 (Want_mutex Rd_rundown) (?s8\<lparr>rd_required := True\<rparr>))" (is "rd_reachable ?s9")
    by (rule rd_next [OF 8 rd_require]) (simp_all add: defs)
  have 10: "rd_reachable (rd_goto 2 (Holding Rd_rundown) (?s9\<lparr>rd_serial := None\<rparr>))" (is "rd_reachable ?s10")
    by (rule rd_next [OF 9 rd_lock_mutex]) (simp_all add: defs rd_mutex_free_def)
  have 11: "rd_reachable (rd_goto 2 Rd_idle (?s10\<lparr>rd_items := [], rd_done := True\<rparr>))" (is "rd_reachable ?s11")
    by (rule rd_next [OF 10 rd_clear]) (simp add: defs)
  have "?s11 = rd_demo" by (auto simp: defs rd_demo_def intro!: ext)
  with 11 show ?thesis by simp
qed

theorem rundown_final_witness:
  "required_rundown rd_demo \<and> rd_items rd_demo = [] \<and> rd_pcs rd_demo 1 \<noteq> Holding Rd_unique"
  using rundown_final [OF rd_demo_reachable] by (simp add: rd_demo_def)

end
