(* ===== verification/Disposable.thy ===== *)
theory Disposable
  imports Xcp_Prelude
begin

text \<open>
  \<open>infra/disposable.h\<close> and \<open>infra/sweeper.h\<close>. Any number of threads call \<open>dispose()\<close> and
  \<open>async_dispose(wait)\<close> on one object; \<open>async_dispose\<close> runs \<open>dispose_impl\<close> on a thread of its own.
  A step is one atomic access to \<open>_status\<close>, the start or end of \<open>dispose_impl\<close>, or a join.
\<close>

definition STATUS_NORMAL :: int where
  "STATUS_NORMAL = 0"

definition STATUS_DISPOSING :: int where
  "STATUS_DISPOSING = 1"

definition STATUS_DISPOSED :: int where
  "STATUS_DISPOSED = 2"

datatype dispose_pc =
    Caller_idle
  | Running_impl \<comment> \<open>\<open>dispose\<close> inside \<open>dispose_impl\<close>\<close>
  | Impl_returned \<comment> \<open>about to store \<open>STATUS_DISPOSED\<close>\<close>
  | Polling \<comment> \<open>\<open>wait_for_dispose_done\<close>\<close>
  | Joining \<comment> \<open>\<open>async_dispose\<close> waiting for its thread\<close>
  | Returned_done \<comment> \<open>returned from a call that waits\<close>
  | Returned_early \<comment> \<open>returned from \<open>async_dispose(false)\<close>\<close>
  | Assert_failed

datatype worker = No_worker | Worker_impl | Worker_store | Worker_exited

record disposable =
  dis_status :: int
  dis_pcs :: "nat \<Rightarrow> dispose_pc"
  dis_worker :: worker
  dis_impl_runs :: nat \<comment> \<open>how often \<open>dispose_impl\<close> has been entered\<close>

definition dis_new :: disposable where
  "dis_new = \<lparr>dis_status = STATUS_NORMAL, dis_pcs = (\<lambda>_. Caller_idle), dis_worker = No_worker, dis_impl_runs = 0\<rparr>"

definition is_dispose_required :: "disposable \<Rightarrow> bool" where
  "is_dispose_required s \<longleftrightarrow> dis_status s \<noteq> STATUS_NORMAL"

definition dis_goto :: "nat \<Rightarrow> dispose_pc \<Rightarrow> disposable \<Rightarrow> disposable" where
  "dis_goto t p s = s\<lparr>dis_pcs := (dis_pcs s)(t := p)\<rparr>"

text \<open>The first access of \<open>dispose()\<close>: the compare-exchange and the test of the status it read.\<close>

definition dispose_enter :: "nat \<Rightarrow> disposable \<Rightarrow> disposable" where
  "dispose_enter t s =
     (if dis_status s = STATUS_NORMAL
      then dis_goto t Running_impl (s\<lparr>dis_status := STATUS_DISPOSING, dis_impl_runs := Suc (dis_impl_runs s)\<rparr>)
      else if dis_status s = STATUS_DISPOSED then dis_goto t Returned_done s
      else dis_goto t Polling s)"

definition async_dispose_enter :: "bool \<Rightarrow> nat \<Rightarrow> disposable \<Rightarrow> disposable" where
  "async_dispose_enter wait_for_done t s =
     (if dis_status s = STATUS_NORMAL
      then dis_goto t (if wait_for_done then Joining else Returned_early)
             (s\<lparr>dis_status := STATUS_DISPOSING, dis_worker := Worker_impl, dis_impl_runs := Suc (dis_impl_runs s)\<rparr>)
      else if dis_status s = STATUS_DISPOSED then dis_goto t Returned_done s
      else if dis_status s \<noteq> STATUS_DISPOSING then dis_goto t Assert_failed s
      else dis_goto t (if wait_for_done then Polling else Returned_early) s)"

inductive dis_step :: "disposable \<Rightarrow> disposable \<Rightarrow> bool" where
  dispose_call: "dis_pcs s t = Caller_idle \<Longrightarrow> dis_step s (dispose_enter t s)"
| async_call: "dis_pcs s t = Caller_idle \<Longrightarrow> dis_step s (async_dispose_enter w t s)"
| impl_return: "dis_pcs s t = Running_impl \<Longrightarrow> dis_step s (dis_goto t Impl_returned s)"
| impl_store: "dis_pcs s t = Impl_returned
    \<Longrightarrow> dis_step s (dis_goto t Returned_done (s\<lparr>dis_status := STATUS_DISPOSED\<rparr>))"
| worker_return: "dis_worker s = Worker_impl \<Longrightarrow> dis_step s (s\<lparr>dis_worker := Worker_store\<rparr>)"
| worker_store: "dis_worker s = Worker_store
    \<Longrightarrow> dis_step s (s\<lparr>dis_status := STATUS_DISPOSED, dis_worker := Worker_exited\<rparr>)"
| join: "dis_pcs s t = Joining \<Longrightarrow> dis_worker s = Worker_exited \<Longrightarrow> dis_step s (dis_goto t Returned_done s)"
| poll: "dis_pcs s t = Polling \<Longrightarrow> dis_status s \<noteq> STATUS_DISPOSING
    \<Longrightarrow> dis_step s (dis_goto t (if dis_status s = STATUS_DISPOSED then Returned_done else Assert_failed) s)"

inductive dis_reachable :: "disposable \<Rightarrow> bool" where
  dis_first: "dis_reachable dis_new"
| dis_next: "dis_reachable s \<Longrightarrow> dis_step s s' \<Longrightarrow> dis_reachable s'"

text \<open>Who is disposing, and the invariant: exactly one is while the status says so.\<close>

definition dis_busy :: "disposable \<Rightarrow> nat option set" where
  "dis_busy s = {Some t |t. dis_pcs s t = Running_impl \<or> dis_pcs s t = Impl_returned}
     \<union> (if dis_worker s = Worker_impl \<or> dis_worker s = Worker_store then {None} else {})"

definition dis_inv :: "disposable \<Rightarrow> bool" where
  "dis_inv s \<longleftrightarrow> dis_status s \<in> {STATUS_NORMAL, STATUS_DISPOSING, STATUS_DISPOSED}
     \<and> dis_impl_runs s = (if dis_status s = STATUS_NORMAL then 0 else 1)
     \<and> (if dis_status s = STATUS_DISPOSING then \<exists>b. dis_busy s = {b} else dis_busy s = {})
     \<and> (dis_worker s = Worker_exited \<longrightarrow> dis_status s = STATUS_DISPOSED)
     \<and> (\<forall>t. dis_pcs s t \<noteq> Assert_failed)
     \<and> (\<forall>t. dis_pcs s t = Returned_done \<longrightarrow> dis_status s = STATUS_DISPOSED)
     \<and> (\<forall>t. dis_pcs s t \<in> {Polling, Joining, Returned_early} \<longrightarrow> dis_status s \<noteq> STATUS_NORMAL)"

lemmas status_defs = STATUS_NORMAL_def STATUS_DISPOSING_def STATUS_DISPOSED_def

definition dis_active :: "dispose_pc \<Rightarrow> bool" where
  "dis_active p \<longleftrightarrow> p = Running_impl \<or> p = Impl_returned"

lemma dis_active_simps [simp]:
  "dis_active Running_impl" "dis_active Impl_returned" "\<not> dis_active Caller_idle" "\<not> dis_active Polling"
  "\<not> dis_active Joining" "\<not> dis_active Returned_done" "\<not> dis_active Returned_early"
  by (simp_all add: dis_active_def)

lemma dis_busy_goto:
  "dis_busy (dis_goto t p s) = (if dis_active p then insert (Some t) (dis_busy s) else dis_busy s - {Some t})"
  by (auto simp: dis_busy_def dis_goto_def dis_active_def)

lemma dis_busy_upd [simp]:
  "dis_busy (s\<lparr>dis_status := x\<rparr>) = dis_busy s" "dis_busy (s\<lparr>dis_impl_runs := n\<rparr>) = dis_busy s"
  by (simp_all add: dis_busy_def)

lemma dis_busy_worker:
  "dis_busy (s\<lparr>dis_worker := w\<rparr>)
    = (if w = Worker_impl \<or> w = Worker_store then insert None (dis_busy s) else dis_busy s - {None})"
  by (auto simp: dis_busy_def)

lemma dis_busy_mem: "Some t \<in> dis_busy s \<longleftrightarrow> dis_active (dis_pcs s t)"
  "None \<in> dis_busy s \<longleftrightarrow> dis_worker s = Worker_impl \<or> dis_worker s = Worker_store"
  by (auto simp: dis_busy_def dis_active_def)

lemma dis_inv_enter:
  assumes "dis_inv s" and "dis_pcs s t = Caller_idle"
  shows "dis_inv (dispose_enter t s)"
proof -
  have na: "Some t \<notin> dis_busy s" using assms(2) by (simp add: dis_busy_mem)
  consider "dis_status s = STATUS_NORMAL" | "dis_status s = STATUS_DISPOSED" | "dis_status s = STATUS_DISPOSING"
    using assms(1) by (auto simp: dis_inv_def)
  then show ?thesis
  proof cases
    case 1
    with assms(1) have "dis_busy (dispose_enter t s) = {Some t}"
      by (simp add: dispose_enter_def dis_busy_goto dis_inv_def status_defs)
    with 1 assms show ?thesis
      by (auto simp: dis_inv_def dispose_enter_def dis_goto_def status_defs)
  next
    case 2
    with na have "dis_busy (dispose_enter t s) = dis_busy s"
      by (simp add: dispose_enter_def dis_busy_goto status_defs)
    with 2 assms show ?thesis
      by (auto simp: dis_inv_def dispose_enter_def dis_goto_def status_defs)
  next
    case 3
    with na have "dis_busy (dispose_enter t s) = dis_busy s"
      by (simp add: dispose_enter_def dis_busy_goto status_defs)
    with 3 assms show ?thesis
      by (auto simp: dis_inv_def dispose_enter_def dis_goto_def status_defs)
  qed
qed

lemma dis_inv_async_enter:
  assumes "dis_inv s" and "dis_pcs s t = Caller_idle"
  shows "dis_inv (async_dispose_enter w t s)"
proof -
  have na: "Some t \<notin> dis_busy s" using assms(2) by (simp add: dis_busy_mem)
  consider "dis_status s = STATUS_NORMAL" | "dis_status s = STATUS_DISPOSED" | "dis_status s = STATUS_DISPOSING"
    using assms(1) by (auto simp: dis_inv_def)
  then show ?thesis
  proof cases
    case 1
    with assms(1) have "dis_busy (async_dispose_enter w t s) = {None}"
      by (simp add: async_dispose_enter_def dis_busy_goto dis_busy_worker dis_inv_def status_defs)
    with 1 assms show ?thesis
      by (auto simp: dis_inv_def async_dispose_enter_def dis_goto_def status_defs)
  next
    case 2
    with na have "dis_busy (async_dispose_enter w t s) = dis_busy s"
      by (simp add: async_dispose_enter_def dis_busy_goto status_defs)
    with 2 assms show ?thesis
      by (auto simp: dis_inv_def async_dispose_enter_def dis_goto_def status_defs)
  next
    case 3
    with na have "dis_busy (async_dispose_enter w t s) = dis_busy s"
      by (simp add: async_dispose_enter_def dis_busy_goto status_defs)
    with 3 assms show ?thesis
      by (auto simp: dis_inv_def async_dispose_enter_def dis_goto_def status_defs)
  qed
qed

lemma dis_busy_disposing: "dis_inv s \<Longrightarrow> b \<in> dis_busy s \<Longrightarrow> dis_status s = STATUS_DISPOSING \<and> dis_busy s = {b}"
  by (auto simp: dis_inv_def split: if_splits)

lemma dis_inv_move:
  assumes "dis_inv s" and "dis_active p = dis_active (dis_pcs s t)" and "p \<noteq> Assert_failed"
    and "p = Returned_done \<Longrightarrow> dis_status s = STATUS_DISPOSED"
    and "p \<in> {Polling, Joining, Returned_early} \<Longrightarrow> dis_status s \<noteq> STATUS_NORMAL"
  shows "dis_inv (dis_goto t p s)"
proof -
  have "dis_busy (dis_goto t p s) = dis_busy s"
    using assms(2) by (auto simp: dis_busy_goto dis_busy_mem)
  with assms show ?thesis by (auto simp: dis_inv_def dis_goto_def)
qed

lemma dis_inv_step: "dis_step s s' \<Longrightarrow> dis_inv s \<Longrightarrow> dis_inv s'"
proof (induction rule: dis_step.induct)
  case (dispose_call s t)
  then show ?case by (simp add: dis_inv_enter)
next
  case (async_call s t w)
  then show ?case by (simp add: dis_inv_async_enter)
next
  case (impl_return s t)
  then show ?case by (intro dis_inv_move) simp_all
next
  case (impl_store s t)
  then have "dis_status s = STATUS_DISPOSING \<and> dis_busy s = {Some t}"
    by (intro dis_busy_disposing) (simp_all add: dis_busy_mem)
  then have "dis_busy (dis_goto t Returned_done (s\<lparr>dis_status := STATUS_DISPOSED\<rparr>)) = {}"
    by (simp add: dis_busy_goto)
  with impl_store \<open>dis_status s = _ \<and> _\<close> show ?case
    by (auto simp: dis_inv_def dis_goto_def status_defs)
next
  case (worker_return s)
  then have "dis_status s = STATUS_DISPOSING \<and> dis_busy s = {None}"
    by (intro dis_busy_disposing) (simp_all add: dis_busy_mem)
  with worker_return show ?case by (auto simp: dis_inv_def dis_busy_worker)
next
  case (worker_store s)
  then have "dis_status s = STATUS_DISPOSING \<and> dis_busy s = {None}"
    by (intro dis_busy_disposing) (simp_all add: dis_busy_mem)
  with worker_store show ?case by (auto simp: dis_inv_def dis_busy_worker status_defs)
next
  case (join s t)
  then show ?case by (intro dis_inv_move) (auto simp: dis_inv_def)
next
  case (poll s t)
  then have "dis_status s = STATUS_DISPOSED" by (auto simp: dis_inv_def)
  with poll show ?case by (auto intro!: dis_inv_move)
qed

lemma dis_reachable_inv: "dis_reachable s \<Longrightarrow> dis_inv s"
proof (induction rule: dis_reachable.induct)
  case dis_first
  then show ?case by (simp add: dis_inv_def dis_new_def dis_busy_def status_defs)
next
  case (dis_next s s')
  then show ?case using dis_inv_step by blast
qed

text \<open>C19: under any interleaving of \<open>dispose\<close> and \<open>async_dispose\<close> calls, \<open>dispose_impl\<close> is entered at
  most once, no \<open>ASSERT\<close> of the class fails, and a call that promises to wait only returns after
  \<open>dispose_impl\<close> has run and the status is disposed, which is what the destructor asserts.\<close>

theorem dispose_once:
  assumes "dis_reachable s"
  shows "dis_impl_runs s \<le> 1 \<and> dis_pcs s t \<noteq> Assert_failed
    \<and> (dis_pcs s t = Returned_done \<longrightarrow> dis_status s = STATUS_DISPOSED \<and> dis_impl_runs s = 1 \<and> dis_busy s = {})"
  using dis_reachable_inv [OF assms] unfolding dis_inv_def by (auto simp: status_defs)

text \<open>The destructor of the base class; those of its classes call \<open>async_dispose(true)\<close> or \<open>dispose\<close> first.\<close>

definition destroy_disposable :: "disposable \<Rightarrow> unit outcome \<times> disposable" where
  "destroy_disposable s = assert_st (dis_status s = STATUS_DISPOSED) s"

lemma destroyed_after_dispose:
  assumes "dis_reachable s" and "dis_pcs s t = Returned_done"
  shows "destroy_disposable s = (Ret (), s)"
proof -
  have "dis_status s = STATUS_DISPOSED" using dis_reachable_inv [OF assms(1)] assms(2) unfolding dis_inv_def by blast
  then show ?thesis by (simp add: destroy_disposable_def)
qed

lemma destroyed_undisposed: "destroy_disposable dis_new = (Abort, dis_new)"
  by (simp add: destroy_disposable_def dis_new_def status_defs)

text \<open>Thread 1 disposes while thread 2 asks for an asynchronous disposal and waits for it.\<close>

definition dis_demo :: disposable where
  "dis_demo = \<lparr>dis_status = STATUS_DISPOSED, dis_pcs = (\<lambda>_. Caller_idle)(1 := Returned_done, 2 := Returned_done),
     dis_worker = No_worker, dis_impl_runs = 1\<rparr>"

lemma dis_demo_reachable: "dis_reachable dis_demo"
proof -
  note defs = dis_goto_def dis_new_def status_defs dispose_enter_def async_dispose_enter_def
  have 0: "dis_reachable dis_new" by (rule dis_first)
  have 1: "dis_reachable (dispose_enter 1 dis_new)" (is "dis_reachable ?s1")
    by (rule dis_next [OF 0 dispose_call]) (simp add: defs)
  have 2: "dis_reachable (async_dispose_enter True 2 ?s1)" (is "dis_reachable ?s2")
    by (rule dis_next [OF 1 async_call]) (simp add: defs)
  have 3: "dis_reachable (dis_goto 1 Impl_returned ?s2)" (is "dis_reachable ?s3")
    by (rule dis_next [OF 2 impl_return]) (simp add: defs)
  have 4: "dis_reachable (dis_goto 1 Returned_done (?s3\<lparr>dis_status := STATUS_DISPOSED\<rparr>))" (is "dis_reachable ?s4")
    by (rule dis_next [OF 3 impl_store]) (simp add: defs)
  have 5: "dis_reachable (dis_goto 2 (if dis_status ?s4 = STATUS_DISPOSED then Returned_done else Assert_failed) ?s4)"
    (is "dis_reachable ?s5")
    by (rule dis_next [OF 4 poll]) (simp_all add: defs)
  have "?s5 = dis_demo" by (simp add: defs dis_demo_def)
  with 5 show ?thesis by simp
qed

theorem dispose_once_witness: "dis_pcs dis_demo 2 = Returned_done \<and> dis_impl_runs dis_demo = 1"
  using dispose_once [OF dis_demo_reachable, of 2] by (simp add: dis_demo_def)

section \<open>Sweepers\<close>

text \<open>
  A \<open>sweeper\<close> runs its function at the end of its scope unless it has been suppressed. The scope
  gives its value, whether \<open>suppress_sweep\<close> was called, and the state it left; a return, and an
  exception as well, runs the destructor.
\<close>

definition sweep_scope :: "('s \<Rightarrow> 's) \<Rightarrow> ('s \<Rightarrow> ('a \<times> bool) outcome \<times> 's) \<Rightarrow> 's \<Rightarrow> 'a outcome \<times> 's" where
  "sweep_scope sweep body s = (case body s of
       (Ret (a, suppressed), s') \<Rightarrow> (Ret a, if suppressed then s' else sweep s')
     | (Throw e, s') \<Rightarrow> (Throw e, sweep s')
     | (Abort, s') \<Rightarrow> (Abort, s')
     | (Undefined, s') \<Rightarrow> (Undefined, s'))"

end
