(* ===== verification/Socket.thy ===== *)
theory Socket
  imports Sockaddr
begin

text \<open>
  \<open>infra::os_socket_t\<close> (\<open>infra/network.h\<close>, Linux branches of \<open>infra/network.cpp\<close>) as a connected
  stream socket. Its state is what a sequential caller can observe of the connection: whether the
  descriptor is still open, the bytes the peer delivers before its end of stream, the bytes written
  so far, and how many more bytes the connection accepts before it breaks. The system calls
  \<open>recv\<close> (with \<open>MSG_WAITALL\<close>), \<open>send\<close>, \<open>writev\<close> and \<open>sendfile64\<close> act on that state as documented:
  \<open>recv\<close> waits for all bytes and returns fewer only at the end of the stream; a write may be
  partial; on a closed descriptor every call returns -1.
\<close>

record os_socket_t =
  sock_open :: bool
  inbox :: "byte list"
  outbox :: "byte list"
  send_room :: nat

section \<open>System calls\<close>

definition sys_recv :: "nat \<Rightarrow> os_socket_t \<Rightarrow> int \<times> byte list \<times> os_socket_t" where
  "sys_recv n s = (if sock_open s
     then (int (min n (length (inbox s))), take n (inbox s), s\<lparr>inbox := drop n (inbox s)\<rparr>)
     else (-1, [], s))"

definition sys_write :: "byte list \<Rightarrow> os_socket_t \<Rightarrow> int \<times> os_socket_t" where
  "sys_write bs s = (if \<not> sock_open s \<or> (send_room s = 0 \<and> bs \<noteq> []) then (-1, s)
     else (int (min (length bs) (send_room s)),
           s\<lparr>outbox := outbox s @ take (send_room s) bs,
             send_room := send_room s - length bs\<rparr>))"

text \<open>\<open>sendfile64\<close> copies from the file's current contents, as many bytes as it still has.\<close>

definition sys_sendfile :: "byte list option \<Rightarrow> u64 \<Rightarrow> u32 \<Rightarrow> os_socket_t \<Rightarrow> int \<times> os_socket_t" where
  "sys_sendfile contents offset n s = (case contents of
       None \<Rightarrow> (-1, s)
     | Some data \<Rightarrow> sys_write (take (unat n) (drop (unat offset) data)) s)"

section \<open>The operations of os_socket_t\<close>

text \<open>\<open>recv\<close> compares the result as an \<open>int\<close>; the bytes read are in the buffer even when it fails.\<close>

definition socket_recv :: "u32 \<Rightarrow> os_socket_t \<Rightarrow> bool \<times> byte list \<times> os_socket_t" where
  "socket_recv n s = (case sys_recv (unat n) s of (cnt, buf, s') \<Rightarrow>
     let ret = sint (word_of_int cnt :: c_int)
     in (\<not> (ret < 0 \<or> ret \<noteq> sint (n :: c_int)), buf, s'))"

definition internal_sendv :: "byte list list \<Rightarrow> u64 \<Rightarrow> os_socket_t \<Rightarrow> bool \<times> os_socket_t" where
  "internal_sendv vec expected_written s = (case sys_write (concat vec) s of (cnt, s') \<Rightarrow>
     (\<not> ((word_of_int cnt :: u64) \<noteq> expected_written), s'))"

definition socket_sendv :: "byte list list \<Rightarrow> os_socket_t \<Rightarrow> bool \<times> os_socket_t" where
  "socket_sendv vec s = internal_sendv vec (word_of_nat (sum_list (map length vec))) s"

definition socket_send :: "byte list \<Rightarrow> os_socket_t \<Rightarrow> bool \<times> os_socket_t" where
  "socket_send bs s = socket_sendv [bs] s"

definition socket_send_file ::
  "byte list option \<Rightarrow> u64 \<Rightarrow> u32 \<Rightarrow> byte list option \<Rightarrow> os_socket_t \<Rightarrow> bool \<times> os_socket_t" where
  "socket_send_file contents offset n header s =
     (case (case header of
              None \<Rightarrow> (True, s)
            | Some hdr \<Rightarrow> (case sys_write hdr s of (cnt, s') \<Rightarrow> (\<not> (cnt < 0 \<or> nat cnt \<noteq> length hdr), s')))
      of (False, s') \<Rightarrow> (False, s')
       | (True, s') \<Rightarrow> (case sys_sendfile contents offset n s' of (cnt, s'') \<Rightarrow>
           (\<not> (cnt < 0 \<or> cnt \<noteq> int (unat n)), s'')))"

text \<open>\<open>dispose_impl\<close> shuts the connection down and closes the descriptor.\<close>

definition non_thread_safe_close :: "os_socket_t \<Rightarrow> os_socket_t" where
  "non_thread_safe_close s = s\<lparr>sock_open := False\<rparr>"

section \<open>What a caller may rely on\<close>

text \<open>
  The contract of a stream, used by the message layer and by the transfer channels: a send
  appends everything or fails, a receive takes exactly what was asked for or fails.
\<close>

locale stream =
  fixes send :: "byte list \<Rightarrow> 's \<Rightarrow> bool \<times> 's"
    and recv :: "u32 \<Rightarrow> 's \<Rightarrow> bool \<times> byte list \<times> 's"
    and sent :: "'s \<Rightarrow> byte list" and pending :: "'s \<Rightarrow> byte list"
  assumes send_all: "send bs s = (True, s') \<Longrightarrow> length bs < 2 ^ 63
      \<Longrightarrow> sent s' = sent s @ bs \<and> pending s' = pending s"
    and recv_all: "recv n s = (True, bs, s')
      \<Longrightarrow> pending s = bs @ pending s' \<and> length bs = unat n \<and> sent s' = sent s"
    and recv_short: "length (pending s) < unat n \<Longrightarrow> \<exists>bs s'. recv n s = (False, bs, s')"
begin

lemma recv_deterministic_prefix:
  "recv n s = (True, bs, s') \<Longrightarrow> bs = take (unat n) (pending s) \<and> pending s' = drop (unat n) (pending s)"
  using recv_all [of n s bs s'] by simp

lemma recv_two:
  assumes "recv n s = (True, a, s')" and "recv m s' = (True, b, s'')"
  shows "pending s = a @ b @ pending s''"
  using recv_all [OF assms(1)] recv_all [OF assms(2)] by simp

end

lemma sys_write_all:
  "sys_write bs s = (cnt, s') \<Longrightarrow> cnt = int (length bs)
    \<Longrightarrow> outbox s' = outbox s @ bs \<and> inbox s' = inbox s \<and> sock_open s' = sock_open s
      \<and> send_room s' = send_room s - length bs"
  by (auto simp: sys_write_def split: if_splits)

lemma sys_write_count: "sys_write bs s = (cnt, s') \<Longrightarrow> -1 \<le> cnt \<and> cnt \<le> int (length bs)"
  by (auto simp: sys_write_def split: if_splits)

lemma sys_write_enough:
  "sock_open s \<Longrightarrow> length bs \<le> send_room s
    \<Longrightarrow> sys_write bs s = (int (length bs),
      s\<lparr>outbox := outbox s @ bs, send_room := send_room s - length bs\<rparr>)"
  by (cases bs) (auto simp: sys_write_def)

lemma socket_sendv_all:
  assumes "socket_sendv vec s = (True, s')" and small: "sum_list (map length vec) < 2 ^ 63"
  shows "outbox s' = outbox s @ concat vec \<and> inbox s' = inbox s \<and> sock_open s' = sock_open s"
proof -
  obtain cnt where w: "sys_write (concat vec) s = (cnt, s')"
    and e: "(word_of_int cnt :: u64) = word_of_nat (sum_list (map length vec))"
    using assms(1) by (auto simp: socket_sendv_def internal_sendv_def split: prod.splits)
  let ?n = "length (concat vec)"
  have n: "?n = sum_list (map length vec)" by (simp add: length_concat)
  have "(word_of_int cnt :: u64) = word_of_int (int ?n)"
    using e n by simp
  then have "cnt mod 2 ^ 64 = int ?n mod 2 ^ 64"
    by (simp only: word_of_int_eq_mod) simp
  moreover have "-1 \<le> cnt" "cnt \<le> int ?n" "int ?n < 2 ^ 63"
    using sys_write_count [OF w] small n by simp_all
  ultimately have "cnt = int ?n" by (cases "cnt = -1") simp_all
  with sys_write_all [OF w] show ?thesis by simp
qed

lemma socket_sendv_enough:
  assumes "sock_open s" and "length (concat vec) \<le> send_room s"
  shows "socket_sendv vec s = (True,
    s\<lparr>outbox := outbox s @ concat vec, send_room := send_room s - length (concat vec)\<rparr>)"
  using assms by (simp add: socket_sendv_def internal_sendv_def sys_write_enough length_concat)

lemma socket_recv_enough:
  assumes "sock_open s" and "unat n \<le> length (inbox s)" and "unat n < 2 ^ 31"
  shows "socket_recv n s = (True, take (unat n) (inbox s), s\<lparr>inbox := drop (unat n) (inbox s)\<rparr>)"
proof -
  have "(word_of_int (int (unat n)) :: c_int) = n" by simp
  moreover have "0 \<le> sint n"
    using assms(3) by (simp only: sint_small)
  ultimately show ?thesis
    using assms(1,2) by (simp add: socket_recv_def sys_recv_def min_def)
qed

lemma socket_recv_True:
  assumes "socket_recv n s = (True, bs, s')"
  shows "sock_open s \<and> inbox s = bs @ inbox s' \<and> length bs = unat n \<and> outbox s' = outbox s
    \<and> send_room s' = send_room s \<and> sock_open s'"
proof -
  obtain cnt where r: "sys_recv (unat n) s = (cnt, bs, s')"
    and nn: "0 \<le> sint (word_of_int cnt :: c_int)" and eq: "sint (word_of_int cnt :: c_int) = sint n"
    using assms by (auto simp: socket_recv_def Let_def split: prod.splits)
  have op: "sock_open s" using r nn by (auto simp: sys_recv_def split: if_splits)
  then have cnt: "cnt = int (min (unat n) (length (inbox s)))"
    using r by (simp add: sys_recv_def)
  have "(word_of_int cnt :: c_int) = n" using eq by (simp only: signed_word_eqI)
  then have "(word_of_nat (min (unat n) (length (inbox s))) :: c_int) = n"
    using cnt by simp
  moreover have "min (unat n) (length (inbox s)) < 2 ^ 32"
    using unat_lt_width [of n] by simp
  ultimately have "min (unat n) (length (inbox s)) = unat n"
    using unat_word_of_nat_small [where 'a = 32, of "min (unat n) (length (inbox s))"] by simp
  with r op show ?thesis by (auto simp: sys_recv_def)
qed

lemma socket_recv_short:
  "length (inbox s) < unat n \<Longrightarrow> \<exists>bs s'. socket_recv n s = (False, bs, s')"
  using socket_recv_True by (cases "socket_recv n s") (fastforce)

text \<open>The model's socket keeps the contract.\<close>

interpretation sock: stream socket_send socket_recv outbox inbox
proof
  fix bs s s'
  show "socket_send bs s = (True, s') \<Longrightarrow> length bs < 2 ^ 63
    \<Longrightarrow> outbox s' = outbox s @ bs \<and> inbox s' = inbox s"
    using socket_sendv_all [of "[bs]" s s'] by (simp add: socket_send_def)
next
  fix n s bs s'
  show "socket_recv n s = (True, bs, s')
    \<Longrightarrow> inbox s = bs @ inbox s' \<and> length bs = unat n \<and> outbox s' = outbox s"
    using socket_recv_True [of n s bs s'] by simp
next
  fix s :: os_socket_t and n
  show "length (inbox s) < unat n \<Longrightarrow> \<exists>bs s'. socket_recv n s = (False, bs, s')"
    by (rule socket_recv_short)
qed

section \<open>Failed sends\<close>

text \<open>A send that fails has written a proper prefix.\<close>

lemma sys_write_short:
  assumes "sys_write bs s = (cnt, s')" and "cnt \<noteq> int (length bs)" and "bs \<noteq> []"
  shows "\<exists>p r. outbox s' = outbox s @ p \<and> p @ r = bs \<and> r \<noteq> []"
proof (cases "\<not> sock_open s \<or> (send_room s = 0 \<and> bs \<noteq> [])")
  case True
  with assms have "s' = s" by (auto simp: sys_write_def split: if_splits)
  with assms(3) show ?thesis by auto
next
  case False
  with assms have s': "outbox s' = outbox s @ take (send_room s) bs" and "send_room s < length bs"
    by (auto simp: sys_write_def min_def split: if_splits)
  then show ?thesis by (intro exI [of _ "take (send_room s) bs"] exI [of _ "drop (send_room s) bs"]) simp
qed

lemma socket_send_False:
  assumes "socket_send bs s = (False, s')" and "bs \<noteq> []"
  shows "\<exists>p r. outbox s' = outbox s @ p \<and> p @ r = bs \<and> r \<noteq> []"
proof -
  obtain cnt where w: "sys_write bs s = (cnt, s')"
    and "(word_of_int cnt :: u64) \<noteq> word_of_nat (length bs)"
    using assms(1) by (auto simp: socket_send_def socket_sendv_def internal_sendv_def split: prod.splits)
  then have "cnt \<noteq> int (length bs)" by auto
  with w show ?thesis using assms(2) by (rule sys_write_short)
qed

text \<open>\<open>send_file\<close> of a range inside the file: everything, or a proper prefix.\<close>

lemma socket_send_file_range:
  assumes "socket_send_file (Some data) offset n (Some hdr) s = (ok, s')"
    and range: "unat offset + unat n \<le> length data" and "hdr \<noteq> []" and "0 < unat n"
  shows "if ok then outbox s' = outbox s @ hdr @ take (unat n) (drop (unat offset) data)
    else \<exists>p r. outbox s' = outbox s @ p \<and> p @ r = hdr @ take (unat n) (drop (unat offset) data) \<and> r \<noteq> []"
proof -
  let ?body = "take (unat n) (drop (unat offset) data)"
  have len: "length ?body = unat n" using range by simp
  obtain c1 s1 where 1: "sys_write hdr s = (c1, s1)" by force
  obtain c2 s2 where 2: "sys_write ?body s1 = (c2, s2)" by force
  show ?thesis
  proof (cases "c1 = int (length hdr)")
    case False
    then have "c1 < 0 \<or> nat c1 \<noteq> length hdr" by auto
    with assms(1) 1 have ok: "\<not> ok" "s' = s1" by (auto simp: socket_send_file_def)
    from sys_write_short [OF 1 False assms(3)] obtain p r where "outbox s1 = outbox s @ p" "p @ r = hdr" "r \<noteq> []" by blast
    with ok show ?thesis by (auto intro!: exI [of _ p] exI [of _ "r @ ?body"])
  next
    case True
    with assms(1) 1 2 have ok: "ok \<longleftrightarrow> c2 = int (unat n)" "s' = s2"
      by (auto simp: socket_send_file_def sys_sendfile_def)
    from sys_write_all [OF 1 True] have o1: "outbox s1 = outbox s @ hdr" by simp
    show ?thesis
    proof (cases "c2 = int (unat n)")
      case True
      with sys_write_all [OF 2] len have "outbox s2 = outbox s1 @ ?body" by (simp only:)
      with ok True o1 show ?thesis by simp
    next
      case False
      with len have "c2 \<noteq> int (length ?body)" by (simp only:) simp
      moreover have "?body \<noteq> []" using len assms(4) by (metis length_0_conv less_numeral_extra(3))
      ultimately obtain p r where "outbox s2 = outbox s1 @ p" "p @ r = ?body" "r \<noteq> []"
        using sys_write_short [OF 2] by blast
      with ok False o1 show ?thesis by (auto intro!: exI [of _ "hdr @ p"] exI [of _ r])
    qed
  qed
qed

lemma sys_write_grows: "sys_write bs s = (cnt, s') \<Longrightarrow> length (outbox s) \<le> length (outbox s')"
  by (auto simp: sys_write_def split: if_splits)

lemma socket_send_grows: "socket_send bs s = (ok, s') \<Longrightarrow> length (outbox s) \<le> length (outbox s')"
  by (auto simp: socket_send_def socket_sendv_def internal_sendv_def split: prod.splits dest: sys_write_grows)

lemma socket_send_file_grows:
  "socket_send_file contents offset n hdr s = (ok, s') \<Longrightarrow> length (outbox s) \<le> length (outbox s')"
  unfolding socket_send_file_def sys_sendfile_def
  by (auto split: prod.splits option.splits bool.splits if_splits dest!: sys_write_grows)

lemma socket_recv_length: "socket_recv n s = (ok, bs, s') \<Longrightarrow> length bs \<le> unat n"
  by (auto simp: socket_recv_def sys_recv_def Let_def split: if_splits)

end
