(* ===== verification/Handshake.thy ===== *)
theory Handshake
  imports Socket
begin

text \<open>
  The greeting on every connection and the version negotiation on the portal: the headers built
  by \<open>client_channel_state::fn_thread_work\<close> and \<open>client_portal_state::init\<close> (\<open>client.cpp\<close>), the
  receiving side in \<open>server_portal_state::fn_thread_unified_accepted_socket\<close>, the negotiation at
  the start of \<open>client_instance::fn_portal\<close> (\<open>server.cpp\<close>) and its answer in
  \<open>client_portal_state::fn_thread_work\<close>. The identity of \<open>network.h\<close> travels as its object
  representation.
\<close>

section \<open>Protocol constants\<close>

definition GREETING_MAGIC_1 :: u32 where
  "GREETING_MAGIC_1 = 0x31c1b3f6"

definition GREETING_MAGIC_2 :: u32 where
  "GREETING_MAGIC_2 = 0xe5fd020e"

definition ROLE_PORTAL :: u32 where
  "ROLE_PORTAL = 0x8739e779"

definition ROLE_CHANNEL :: u32 where
  "ROLE_CHANNEL = 0x7fbc389b"

definition VERSION_INVALID :: u16 where
  "VERSION_INVALID = 0"

definition VERSION_V1 :: u16 where
  "VERSION_V1 = 1"

section \<open>Identities\<close>

record identity_t =
  id_timestamp :: u64
  id_random1 :: u32
  id_random2 :: u32

definition identity_eq :: "identity_t \<Rightarrow> identity_t \<Rightarrow> bool" where
  "identity_eq a b \<longleftrightarrow> id_timestamp a = id_timestamp b \<and> id_random1 a = id_random1 b
     \<and> id_random2 a = id_random2 b"

definition identity_hash :: "identity_t \<Rightarrow> u64" where
  "identity_hash x = id_timestamp x XOR (ucast (id_random1 x) XOR ucast (id_random2 x))"

definition store_identity :: "endian \<Rightarrow> identity_t \<Rightarrow> byte list" where
  "store_identity h i = store64 h (id_timestamp i) @ store32 h (id_random1 i) @ store32 h (id_random2 i)"

definition load_identity :: "endian \<Rightarrow> byte list \<Rightarrow> identity_t" where
  "load_identity h bs = \<lparr>id_timestamp = load64 h (take 8 bs), id_random1 = load32 h (take 4 (drop 8 bs)),
     id_random2 = load32 h (take 4 (drop 12 bs))\<rparr>"

section \<open>The headers a client sends\<close>

definition greeting_header :: "endian \<Rightarrow> u32 \<Rightarrow> identity_t \<Rightarrow> byte list \<Rightarrow> byte list" where
  "greeting_header h role ident buf =
     poke 12 (store_identity h ident)
       (poke 8 (store32 h (htonl h role))
         (poke 4 (store32 h (htonl h GREETING_MAGIC_2))
           (poke 0 (store32 h (htonl h GREETING_MAGIC_1)) buf)))"

text \<open>\<open>buf\<close> is the uninitialised contents of the local array.\<close>

definition channel_header :: "endian \<Rightarrow> identity_t \<Rightarrow> byte list \<Rightarrow> byte list" where
  "channel_header h ident buf = greeting_header h ROLE_CHANNEL ident buf"

definition portal_header :: "endian \<Rightarrow> identity_t \<Rightarrow> byte list \<Rightarrow> byte list" where
  "portal_header h ident buf =
     poke 30 (store16 h (htons h VERSION_V1))
       (poke 28 (store16 h (htons h VERSION_V1))
         (greeting_header h ROLE_PORTAL ident buf))"

section \<open>The server's side of the greeting\<close>

datatype greeting =
    Greeting_recv_failed
  | Greeting_bad_magic u32 u32
  | Greeting_portal_refused
  | Greeting_channel_refused
  | Greeting_unknown_role u32
  | Greeting_identity_failed
  | Greeting_portal identity_t
  | Greeting_channel identity_t

definition recv_greeting :: "endian \<Rightarrow> bool \<Rightarrow> bool \<Rightarrow> os_socket_t \<Rightarrow> greeting \<times> os_socket_t" where
  "recv_greeting g allow_role_portal allow_role_channel s = (case socket_recv 12 s of
       (False, _, s1) \<Rightarrow> (Greeting_recv_failed, s1)
     | (True, buffer, s1) \<Rightarrow>
         let magic1 = ntohl g (load32 g (take 4 buffer));
             magic2 = ntohl g (load32 g (take 4 (drop 4 buffer)));
             role = ntohl g (load32 g (take 4 (drop 8 buffer)))
         in if magic1 \<noteq> GREETING_MAGIC_1 \<or> magic2 \<noteq> GREETING_MAGIC_2
            then (Greeting_bad_magic magic1 magic2, s1)
            else if role = ROLE_PORTAL \<and> \<not> allow_role_portal then (Greeting_portal_refused, s1)
            else if role = ROLE_CHANNEL \<and> \<not> allow_role_channel then (Greeting_channel_refused, s1)
            else if role \<noteq> ROLE_PORTAL \<and> role \<noteq> ROLE_CHANNEL then (Greeting_unknown_role role, s1)
            else (case socket_recv 16 s1 of
                (False, _, s2) \<Rightarrow> (Greeting_identity_failed, s2)
              | (True, ident, s2) \<Rightarrow>
                  (if role = ROLE_PORTAL then Greeting_portal (load_identity g ident)
                   else Greeting_channel (load_identity g ident), s2)))"

section \<open>Version negotiation\<close>

datatype negotiation =
    Negotiation_recv_failed
  | Negotiation_bad_range u16 u16
  | Negotiation_send_failed u16
  | Negotiation_refused
  | Negotiated u16

definition SERVER_MIN_PROTOCOL_VERSION :: u16 where
  "SERVER_MIN_PROTOCOL_VERSION = VERSION_V1"

definition SERVER_MAX_PROTOCOL_VERSION :: u16 where
  "SERVER_MAX_PROTOCOL_VERSION = VERSION_V1"

definition choose_version :: "u16 \<Rightarrow> u16 \<Rightarrow> u16" where
  "choose_version min_ver max_ver =
     (if min_ver > SERVER_MAX_PROTOCOL_VERSION then VERSION_INVALID
      else if max_ver < SERVER_MIN_PROTOCOL_VERSION then VERSION_INVALID
      else min SERVER_MAX_PROTOCOL_VERSION max_ver)"

definition server_negotiate :: "endian \<Rightarrow> os_socket_t \<Rightarrow> negotiation \<times> os_socket_t" where
  "server_negotiate g s = (case socket_recv 4 s of
       (False, _, s1) \<Rightarrow> (Negotiation_recv_failed, s1)
     | (True, buffer, s1) \<Rightarrow>
         let min_ver = ntohs g (load16 g (take 2 buffer));
             max_ver = ntohs g (load16 g (take 2 (drop 2 buffer)))
         in if min_ver > max_ver then (Negotiation_bad_range min_ver max_ver, s1)
            else let v = choose_version min_ver max_ver in
              (case socket_send (store16 g (htons g v)) s1 of
                 (False, s2) \<Rightarrow> (Negotiation_send_failed v, s2)
               | (True, s2) \<Rightarrow> if v = VERSION_INVALID then (Negotiation_refused, s2)
                   else (Negotiated v, s2)))"

text \<open>The client's side: \<open>None\<close> ends the thread, a version other than V1 fails the \<open>ASSERT\<close>.\<close>

definition client_negotiated :: "endian \<Rightarrow> os_socket_t \<Rightarrow> u16 option outcome \<times> os_socket_t" where
  "client_negotiated h s = (case socket_recv 2 s of
       (False, _, s1) \<Rightarrow> (Ret None, s1)
     | (True, ver_be, s1) \<Rightarrow>
         let protocol_version = ntohs h (load16 h ver_be)
         in if protocol_version = VERSION_INVALID then (Ret None, s1)
            else if protocol_version = VERSION_V1 then (Ret (Some protocol_version), s1)
            else (Abort, s1))"

section \<open>Lemmas\<close>

lemma identity_eq_iff [simp]: "identity_eq a b \<longleftrightarrow> a = b"
  by (cases a; cases b) (simp add: identity_eq_def)

lemma length_store_identity [simp]: "length (store_identity h i) = 16"
  by (simp add: store_identity_def)

lemma load_store_identity [simp]: "load_identity h (store_identity h i) = i"
  by (simp add: load_identity_def store_identity_def)

lemma store64_load64: "length bs = 8 \<Longrightarrow> store64 h (load64 h bs) = bs"
  using obj_value_bound [of h bs]
  by (simp add: store64_def load64_def unat_of_nat obj_repr_obj_value)

lemma store_load_identity:
  assumes "length bs = 16"
  shows "store_identity h (load_identity h bs) = bs"
proof -
  have "take 4 (drop 8 bs) @ drop 12 bs = drop 8 bs"
    using append_take_drop_id [of 4 "drop 8 bs"] by simp
  then have "take 8 bs @ take 4 (drop 8 bs) @ take 4 (drop 12 bs) = bs"
    using assms append_take_drop_id [of 8 bs] by simp
  moreover have "length (take 8 bs) = 8" "length (take 4 (drop 8 bs)) = 4"
    "length (take 4 (drop 12 bs)) = 4"
    using assms by simp_all
  ultimately show ?thesis
    by (simp only: store_identity_def load_identity_def identity_t.simps store64_load64 store32_load32)
qed

text \<open>A server keeps the identities of different clients apart whatever the clients' hosts are.\<close>

lemma load_identity_inj:
  assumes "length a = 16" and "length b = 16"
  shows "load_identity g a = load_identity g b \<longleftrightarrow> a = b"
  using store_load_identity [OF assms(1), of g] store_load_identity [OF assms(2), of g] by metis

definition greeting_bytes :: "u32 \<Rightarrow> byte list \<Rightarrow> byte list" where
  "greeting_bytes role ident = rev (le_bytes 4 (unat GREETING_MAGIC_1))
     @ rev (le_bytes 4 (unat GREETING_MAGIC_2)) @ rev (le_bytes 4 (unat role)) @ ident"

lemma poke_greeting:
  assumes "length a = 4" "length b = 4" "length c = 4" "length d = 16"
  shows "poke 12 d (poke 8 c (poke 4 b (poke 0 a buf))) = a @ b @ c @ d @ drop 28 buf"
  using assms by (simp add: poke_def)

lemma poke_versions:
  assumes "length a = 28" "length b = 2" "length c = 2"
  shows "poke 30 c (poke 28 b (a @ buf)) = a @ b @ c @ drop 4 buf"
  using assms by (simp add: poke_def)

lemma greeting_header_bytes:
  "greeting_header h role ident buf
    = greeting_bytes role (store_identity h ident) @ drop 28 buf"
  unfolding greeting_header_def store32_htonl
  by (subst poke_greeting) (simp_all add: greeting_bytes_def)

lemma portal_header_bytes:
  assumes "length buf = 32"
  shows "portal_header h ident buf = greeting_bytes ROLE_PORTAL (store_identity h ident) @ [0, 1, 0, 1]"
proof -
  have len: "length (greeting_bytes ROLE_PORTAL (store_identity h ident)) = 28"
    by (simp add: greeting_bytes_def)
  have v: "rev (le_bytes 2 (unat VERSION_V1)) = [0, 1]"
    by (simp add: VERSION_V1_def numeral_2_eq_2)
  show ?thesis
    unfolding portal_header_def greeting_header_bytes store16_htons v
    using assms by (subst poke_versions) (simp_all add: len)
qed

lemma recv_greeting_bytes:
  assumes s: "sock_open s" "inbox s = greeting_bytes role ident @ rest" and len: "length ident = 16"
  shows "recv_greeting g p c s =
    (if role = ROLE_PORTAL then
       if p then (Greeting_portal (load_identity g ident), s\<lparr>inbox := rest\<rparr>)
       else (Greeting_portal_refused, s\<lparr>inbox := ident @ rest\<rparr>)
     else if role = ROLE_CHANNEL then
       if c then (Greeting_channel (load_identity g ident), s\<lparr>inbox := rest\<rparr>)
       else (Greeting_channel_refused, s\<lparr>inbox := ident @ rest\<rparr>)
     else (Greeting_unknown_role role, s\<lparr>inbox := ident @ rest\<rparr>))"
proof -
  let ?a = "rev (le_bytes 4 (unat GREETING_MAGIC_1))"
  let ?b = "rev (le_bytes 4 (unat GREETING_MAGIC_2))"
  let ?c = "rev (le_bytes 4 (unat role))"
  have 1: "socket_recv 12 s = (True, ?a @ ?b @ ?c, s\<lparr>inbox := ident @ rest\<rparr>)"
    using socket_recv_enough [of s 12] s by (simp add: greeting_bytes_def)
  have 2: "socket_recv 16 (s\<lparr>inbox := ident @ rest\<rparr>) = (True, ident, s\<lparr>inbox := rest\<rparr>)"
    using socket_recv_enough [of "s\<lparr>inbox := ident @ rest\<rparr>" 16] s len by simp
  have b: "ntohl g (load32 g (take 4 (?a @ ?b @ ?c))) = GREETING_MAGIC_1"
    "ntohl g (load32 g (take 4 (drop 4 (?a @ ?b @ ?c)))) = GREETING_MAGIC_2"
    "ntohl g (load32 g (take 4 (drop 8 (?a @ ?b @ ?c)))) = role"
    by (simp_all add: htonl_load32)
  have ne: "ROLE_PORTAL \<noteq> ROLE_CHANNEL" by (simp add: ROLE_PORTAL_def ROLE_CHANNEL_def)
  show ?thesis
    unfolding recv_greeting_def 1 using ne by (simp only: prod.case bool.case Let_def b 2) auto
qed

text \<open>Only the two greeting magics, in that order, get a connection past its first twelve bytes.\<close>

lemma recv_greeting_magic:
  assumes "recv_greeting g p c s = (r, s')"
    and "r = Greeting_portal i \<or> r = Greeting_channel i"
  obtains role ident where "inbox s = greeting_bytes role ident @ inbox s'" "length ident = 16"
    "i = load_identity g ident"
    "r = Greeting_portal i \<longrightarrow> role = ROLE_PORTAL \<and> p"
    "r = Greeting_channel i \<longrightarrow> role = ROLE_CHANNEL \<and> c"
proof -
  from assms obtain buf s1 where 1: "socket_recv 12 s = (True, buf, s1)"
    by (auto simp: recv_greeting_def split: prod.splits bool.splits)
  let ?w = "\<lambda>n. ntohl g (load32 g (take 4 (drop n buf)))"
  from 1 assms obtain ident where 2: "socket_recv 16 s1 = (True, ident, s')"
    and m: "?w 0 = GREETING_MAGIC_1" "?w 4 = GREETING_MAGIC_2"
    and i: "i = load_identity g ident"
    and rp: "r = Greeting_portal i \<longrightarrow> ?w 8 = ROLE_PORTAL \<and> p"
    and rc: "r = Greeting_channel i \<longrightarrow> ?w 8 = ROLE_CHANNEL \<and> c"
    by (auto simp: recv_greeting_def Let_def split: prod.splits bool.splits if_splits)
  from sock.recv_all [OF 1] have len: "length buf = 12" by simp
  have w: "rev (le_bytes 4 (unat (?w n))) = take 4 (drop n buf)" if "n + 4 \<le> 12" for n
  proof -
    have "length (take 4 (drop n buf)) = 4" using that len by simp
    then have "store32 g (htonl g (?w n)) = take 4 (drop n buf)"
      by (simp only: ntohl_htonl store32_load32)
    then show ?thesis by (simp only: store32_htonl)
  qed
  have "take 4 (drop 0 buf) @ take 4 (drop 4 buf) @ take 4 (drop 8 buf) = buf"
    using len append_take_drop_id [of 4 buf] append_take_drop_id [of 4 "drop 4 buf"] by simp
  then have "greeting_bytes (?w 8) ident = buf @ ident"
    using w [of 0] w [of 4] w [of 8] m by (simp only: greeting_bytes_def) simp
  then have "inbox s = greeting_bytes (?w 8) ident @ inbox s'"
    using sock.recv_two [OF 1 2] by simp
  moreover have "length ident = 16" using sock.recv_all [OF 2] by simp
  ultimately show thesis using i rp rc by (rule that)
qed

lemma recv_greeting_bad_magic:
  assumes "sock_open s" and "12 \<le> length (inbox s)"
    and "take 8 (inbox s) \<noteq> rev (le_bytes 4 (unat GREETING_MAGIC_1)) @ rev (le_bytes 4 (unat GREETING_MAGIC_2))"
  shows "\<exists>a b. recv_greeting g p c s = (Greeting_bad_magic a b, s\<lparr>inbox := drop 12 (inbox s)\<rparr>)"
proof -
  let ?buf = "take 12 (inbox s)"
  let ?m1 = "ntohl g (load32 g (take 4 ?buf))" and ?m2 = "ntohl g (load32 g (take 4 (drop 4 ?buf)))"
  have 1: "socket_recv 12 s = (True, ?buf, s\<lparr>inbox := drop 12 (inbox s)\<rparr>)"
    using socket_recv_enough [of s 12] assms(1,2) by simp
  have l: "length (take 4 ?buf) = 4" "length (take 4 (drop 4 ?buf)) = 4" using assms(2) by simp_all
  have "rev (le_bytes 4 (unat ?m1)) = take 4 ?buf" "rev (le_bytes 4 (unat ?m2)) = take 4 (drop 4 ?buf)"
    using l by (simp_all only: store32_htonl [symmetric, of _ g] ntohl_htonl store32_load32)
  moreover have "take 4 ?buf @ take 4 (drop 4 ?buf) = take 8 (inbox s)"
    using take_add [of 4 4 "inbox s"] by (simp add: drop_take)
  ultimately have "?m1 \<noteq> GREETING_MAGIC_1 \<or> ?m2 \<noteq> GREETING_MAGIC_2"
    using assms(3) by metis
  then show ?thesis
    unfolding recv_greeting_def 1 by (simp only: prod.case bool.case Let_def) simp
qed

text \<open>The negotiated version lies in both ranges; none is chosen only when they are disjoint.\<close>

lemma choose_version_spec:
  assumes "min_ver \<le> max_ver"
  shows "choose_version min_ver max_ver =
    (if min_ver \<le> VERSION_V1 \<and> VERSION_V1 \<le> max_ver then VERSION_V1 else VERSION_INVALID)"
  using assms by (auto simp: choose_version_def SERVER_MIN_PROTOCOL_VERSION_def
      SERVER_MAX_PROTOCOL_VERSION_def min_def not_less not_le)

lemma server_negotiate_bytes:
  assumes s: "sock_open s" "inbox s = rev (le_bytes 2 (unat lo)) @ rev (le_bytes 2 (unat hi)) @ rest"
    and room: "2 \<le> send_room s" and le: "lo \<le> hi"
  shows "server_negotiate g s =
    (if choose_version lo hi = VERSION_INVALID then Negotiation_refused
     else Negotiated (choose_version lo hi),
     s\<lparr>inbox := rest, outbox := outbox s @ rev (le_bytes 2 (unat (choose_version lo hi))),
       send_room := send_room s - 2\<rparr>)"
proof -
  let ?a = "rev (le_bytes 2 (unat lo))" and ?b = "rev (le_bytes 2 (unat hi))"
  have 1: "socket_recv 4 s = (True, ?a @ ?b, s\<lparr>inbox := rest\<rparr>)"
    using socket_recv_enough [of s 4] s by simp
  have b: "ntohs g (load16 g (take 2 (?a @ ?b))) = lo"
    "ntohs g (load16 g (take 2 (drop 2 (?a @ ?b)))) = hi"
    by (simp_all add: htons_load16)
  have 2: "socket_send (store16 g (htons g v)) (s\<lparr>inbox := rest\<rparr>) = (True,
    s\<lparr>inbox := rest, outbox := outbox s @ rev (le_bytes 2 (unat v)), send_room := send_room s - 2\<rparr>)" for v
    using socket_sendv_enough [of "s\<lparr>inbox := rest\<rparr>" "[store16 g (htons g v)]"] s room
    by (simp add: socket_send_def store16_htons)
  show ?thesis
    unfolding server_negotiate_def 1 using le
    by (simp only: prod.case bool.case Let_def b 2) simp
qed

lemma client_negotiated_bytes:
  assumes "sock_open s" and "inbox s = rev (le_bytes 2 (unat v)) @ rest"
  shows "client_negotiated h s =
    (if v = VERSION_INVALID then Ret None else if v = VERSION_V1 then Ret (Some v) else Abort,
     s\<lparr>inbox := rest\<rparr>)"
proof -
  have 1: "socket_recv 2 s = (True, rev (le_bytes 2 (unat v)), s\<lparr>inbox := rest\<rparr>)"
    using socket_recv_enough [of s 2] assms by simp
  show ?thesis
    unfolding client_negotiated_def 1 by (simp only: prod.case bool.case Let_def htons_load16) simp
qed

section \<open>Greeting and negotiation together\<close>

text \<open>C11: a client's portal connection is accepted and negotiates version 1 on hosts of any byte order: the server
  recognises the header as a portal, knows the client by the very bytes of its identity, chooses
  version 1, consumes exactly the header, and the client reads that version from the answer.\<close>

theorem portal_greeting_negotiates:
  assumes "length buf = 32" and "sock_open s" and "inbox s = portal_header h ident buf @ rest" and "2 \<le> send_room s"
    and "sock_open c"
  shows "\<exists>i s1 s2 answer. recv_greeting g True allow_channel s = (Greeting_portal i, s1)
    \<and> store_identity g i = store_identity h ident
    \<and> server_negotiate g s1 = (Negotiated VERSION_V1, s2)
    \<and> inbox s2 = rest \<and> outbox s2 = outbox s @ answer
    \<and> client_negotiated h (c\<lparr>inbox := answer @ later\<rparr>) = (Ret (Some VERSION_V1), c\<lparr>inbox := later\<rparr>)"
proof -
  let ?v = "rev (le_bytes 2 (unat VERSION_V1))"
  have v: "?v = [0, 1]" by (simp add: VERSION_V1_def numeral_2_eq_2)
  have "inbox s = greeting_bytes ROLE_PORTAL (store_identity h ident) @ ?v @ ?v @ rest"
    using assms(3) portal_header_bytes [OF assms(1)] v by simp
  from recv_greeting_bytes [OF assms(2) this]
  have 1: "recv_greeting g True allow_channel s
      = (Greeting_portal (load_identity g (store_identity h ident)), s\<lparr>inbox := ?v @ ?v @ rest\<rparr>)" by simp
  have ch: "choose_version VERSION_V1 VERSION_V1 = VERSION_V1" "VERSION_V1 \<noteq> VERSION_INVALID"
    by (simp_all add: choose_version_spec VERSION_V1_def VERSION_INVALID_def)
  let ?s2 = "s\<lparr>inbox := rest, outbox := outbox s @ ?v, send_room := send_room s - 2\<rparr>"
  have 2: "server_negotiate g (s\<lparr>inbox := ?v @ ?v @ rest\<rparr>) = (Negotiated VERSION_V1, ?s2)"
    using server_negotiate_bytes [of "s\<lparr>inbox := ?v @ ?v @ rest\<rparr>" VERSION_V1 VERSION_V1 rest g] assms(2,4) ch by simp
  have 3: "client_negotiated h (c\<lparr>inbox := ?v @ later\<rparr>) = (Ret (Some VERSION_V1), c\<lparr>inbox := later\<rparr>)"
    using client_negotiated_bytes [of "c\<lparr>inbox := ?v @ later\<rparr>" VERSION_V1 later h] assms(5) ch(2) by simp
  have id: "store_identity g (load_identity g (store_identity h ident)) = store_identity h ident"
    by (rule store_load_identity) simp
  show ?thesis by (intro exI conjI) (rule 1, rule id, rule 2, simp, simp, rule 3)
qed

definition example_sock :: "byte list \<Rightarrow> os_socket_t" where
  "example_sock bs = \<lparr>sock_open = True, inbox = bs, outbox = [], send_room = 64\<rparr>"

definition example_identity :: identity_t where
  "example_identity = \<lparr>id_timestamp = 1580000000, id_random1 = 7, id_random2 = 9\<rparr>"

theorem portal_greeting_negotiates_witness:
  "\<exists>i s1 s2 answer.
     recv_greeting BigEndian True False (example_sock (portal_header LittleEndian example_identity (replicate 32 0) @ [5]))
       = (Greeting_portal i, s1)
    \<and> store_identity BigEndian i = store_identity LittleEndian example_identity
    \<and> server_negotiate BigEndian s1 = (Negotiated VERSION_V1, s2)
    \<and> inbox s2 = [5] \<and> outbox s2 = outbox (example_sock (portal_header LittleEndian example_identity (replicate 32 0) @ [5])) @ answer
    \<and> client_negotiated LittleEndian ((example_sock [])\<lparr>inbox := answer @ [6]\<rparr>)
        = (Ret (Some VERSION_V1), (example_sock [])\<lparr>inbox := [6]\<rparr>)"
  by (rule portal_greeting_negotiates) (simp_all add: example_sock_def)

text \<open>C12: a channel finds its portal: when one client greets with its portal header and a client on a host of the same
  byte order with its channel header, the server sees the same identity on both connections exactly
  when the two identities are equal, which is how a channel is attached to its client instance.\<close>

theorem channel_joins_its_portal:
  assumes "length buf = 32" and "length buf' = 28"
    and "sock_open s" and "inbox s = portal_header h a buf @ rest"
    and "sock_open s'" and "inbox s' = channel_header h b buf' @ rest'"
  shows "\<exists>i j s1 s1'. recv_greeting g True p s = (Greeting_portal i, s1)
    \<and> recv_greeting g q True s' = (Greeting_channel j, s1')
    \<and> inbox s1' = rest' \<and> (identity_eq i j \<longleftrightarrow> a = b)"
proof -
  have p: "inbox s = greeting_bytes ROLE_PORTAL (store_identity h a) @ [0, 1, 0, 1] @ rest"
    using assms(4) portal_header_bytes [OF assms(1)] by simp
  have c: "inbox s' = greeting_bytes ROLE_CHANNEL (store_identity h b) @ rest'"
    using assms(2,6) by (simp add: channel_header_def greeting_header_bytes)
  have ne: "ROLE_CHANNEL \<noteq> ROLE_PORTAL" by (simp add: ROLE_PORTAL_def ROLE_CHANNEL_def)
  have inj: "load_identity g (store_identity h a) = load_identity g (store_identity h b) \<longleftrightarrow> a = b"
    by (metis length_store_identity load_identity_inj load_store_identity)
  from recv_greeting_bytes [OF assms(3) p, of g True p] recv_greeting_bytes [OF assms(5) c, of g q True] ne inj
  show ?thesis by simp
qed

theorem channel_joins_its_portal_witness:
  "\<exists>i j s1 s1'. recv_greeting LittleEndian True True (example_sock (portal_header BigEndian example_identity (replicate 32 0) @ []))
      = (Greeting_portal i, s1)
    \<and> recv_greeting LittleEndian False True (example_sock (channel_header BigEndian example_identity (replicate 28 0) @ [8]))
      = (Greeting_channel j, s1')
    \<and> inbox s1' = [8] \<and> (identity_eq i j \<longleftrightarrow> example_identity = example_identity)"
  by (rule channel_joins_its_portal [where buf = "replicate 32 0" and rest = "[]" and buf' = "replicate 28 0"])
    (simp_all add: example_sock_def)

text \<open>C13: nothing else gets in: whatever bytes a peer sends, the server takes a connection for a portal or a channel
  only if the stream began with the two magics, that very role and sixteen bytes of identity, the
  role was allowed on this listener, and exactly these bytes have been consumed.\<close>

theorem only_greetings_accepted:
  assumes "recv_greeting g p c s = (r, s')" and "r = Greeting_portal i \<or> r = Greeting_channel i"
  shows "\<exists>ident. length ident = 16 \<and> i = load_identity g ident
    \<and> (r = Greeting_portal i \<and> p \<and> inbox s = greeting_bytes ROLE_PORTAL ident @ inbox s'
       \<or> r = Greeting_channel i \<and> c \<and> inbox s = greeting_bytes ROLE_CHANNEL ident @ inbox s')"
proof -
  obtain role ident where "inbox s = greeting_bytes role ident @ inbox s'" "length ident = 16"
    "i = load_identity g ident" "r = Greeting_portal i \<longrightarrow> role = ROLE_PORTAL \<and> p"
    "r = Greeting_channel i \<longrightarrow> role = ROLE_CHANNEL \<and> c"
    by (rule recv_greeting_magic [OF assms])
  with assms(2) show ?thesis by (intro exI [of _ ident]) auto
qed

lemma example_channel_greeting:
  "recv_greeting LittleEndian False True (example_sock (greeting_bytes ROLE_CHANNEL (store_identity LittleEndian example_identity) @ [1]))
    = (Greeting_channel example_identity, example_sock [1])"
proof -
  let ?id = "store_identity LittleEndian example_identity"
  have ne: "ROLE_CHANNEL \<noteq> ROLE_PORTAL" by (simp add: ROLE_PORTAL_def ROLE_CHANNEL_def)
  have s: "sock_open (example_sock (greeting_bytes ROLE_CHANNEL ?id @ [1]))"
    "inbox (example_sock (greeting_bytes ROLE_CHANNEL ?id @ [1])) = greeting_bytes ROLE_CHANNEL ?id @ [1]"
    "(example_sock (greeting_bytes ROLE_CHANNEL ?id @ [1]))\<lparr>inbox := [1]\<rparr> = example_sock [1]"
    by (simp_all add: example_sock_def)
  have "length ?id = 16" by (rule length_store_identity)
  from recv_greeting_bytes [OF s(1,2) this, of LittleEndian False True] show ?thesis
    by (simp only: ne s(3) if_False if_True simp_thms load_store_identity)
qed

theorem only_greetings_accepted_witness:
  "\<exists>ident. length ident = 16 \<and> example_identity = load_identity LittleEndian ident
    \<and> greeting_bytes ROLE_CHANNEL (store_identity LittleEndian example_identity) @ [1] = greeting_bytes ROLE_CHANNEL ident @ [1]"
  using only_greetings_accepted [OF example_channel_greeting disjI2 [OF refl]]
  by (simp only: example_sock_def os_socket_t.simps greeting.simps simp_thms)

text \<open>C14: the version is chosen correctly: from a client's range of versions, version 1 is chosen exactly when the
  range contains it, and otherwise the client is told that there is none.\<close>

theorem version_in_both_ranges:
  assumes "sock_open s" and "inbox s = rev (le_bytes 2 (unat lo)) @ rev (le_bytes 2 (unat hi)) @ rest"
    and "2 \<le> send_room s"
  shows "fst (server_negotiate g s) =
    (if hi < lo then Negotiation_bad_range lo hi
     else if lo \<le> VERSION_V1 \<and> VERSION_V1 \<le> hi then Negotiated VERSION_V1 else Negotiation_refused)"
proof (cases "hi < lo")
  case True
  have 1: "socket_recv 4 s = (True, rev (le_bytes 2 (unat lo)) @ rev (le_bytes 2 (unat hi)), s\<lparr>inbox := rest\<rparr>)"
    using socket_recv_enough [of s 4] assms(1,2) by simp
  have b: "ntohs g (load16 g (take 2 (rev (le_bytes 2 (unat lo)) @ rev (le_bytes 2 (unat hi))))) = lo"
    "ntohs g (load16 g (take 2 (drop 2 (rev (le_bytes 2 (unat lo)) @ rev (le_bytes 2 (unat hi)))))) = hi"
    by (simp_all add: htons_load16)
  show ?thesis unfolding server_negotiate_def 1 using True by (simp only: prod.case bool.case Let_def b) simp
next
  case False
  then have le: "lo \<le> hi" by simp
  have "VERSION_V1 \<noteq> VERSION_INVALID" by (simp add: VERSION_V1_def VERSION_INVALID_def)
  with server_negotiate_bytes [OF assms le, of g] False choose_version_spec [OF le] show ?thesis by simp
qed

theorem version_in_both_ranges_witness:
  "fst (server_negotiate LittleEndian (example_sock (rev (le_bytes 2 (unat (0 :: u16))) @ rev (le_bytes 2 (unat (3 :: u16))) @ [])))
    = Negotiated VERSION_V1"
  using version_in_both_ranges [of "example_sock (rev (le_bytes 2 (unat (0 :: u16))) @ rev (le_bytes 2 (unat (3 :: u16))) @ [])" 0 3 "[]" LittleEndian]
  by (simp add: example_sock_def VERSION_V1_def)

end
