(* ===== verification/Messages.thy ===== *)
theory Messages
  imports Socket User
begin

text \<open>
  \<open>message.h\<close>: the structures the two programs exchange on the portal connection, their
  serialisation, and the framed \<open>message_send\<close> and \<open>message_recv\<close>. A frame is the message type
  and the length of the archive, both in network order, then the archive. The structures'
  members are serialised in the order of their \<open>XCP_DEFAULT_SERIALIZATION\<close>; each one has a codec
  built from the codecs of its members, and a frame's round trip is proved once for any codec.
\<close>

section \<open>The structures\<close>

record basic_file_info =
  file_path :: string
  file_size :: u64
  file_perm :: u32

record basic_directory_info =
  dir_path :: string
  dir_perm :: u32

record basic_transfer_info =
  source_is_directory :: bool
  dirs_info :: "basic_directory_info list"
  files_info :: "basic_file_info list"

datatype message_type = SERVER_INFORMATION | CLIENT_TRANSFER_REQUEST
  | SERVER_TRANSFER_RESPONSE | TRANSFER_DESTINATION_FINISHED

fun message_type_value :: "message_type \<Rightarrow> u32" where
  "message_type_value SERVER_INFORMATION = 0"
| "message_type_value CLIENT_TRANSFER_REQUEST = 1"
| "message_type_value SERVER_TRANSFER_RESPONSE = 2"
| "message_type_value TRANSFER_DESTINATION_FINISHED = 3"

record message_server_information =
  server_channels :: "(tcp_sockaddr \<times> u64) list"

record message_client_transfer_request =
  is_from_server_to_client :: bool
  server_path :: string
  transfer_block_size :: u64
  is_recursive :: u64
  req_user :: user_name_t
  req_transfer_info :: "basic_transfer_info option"

record message_server_transfer_response =
  resp_error_code :: c_int
  resp_error_message :: string
  resp_transfer_info :: "basic_transfer_info option"

record message_transfer_destination_finished =
  fin_error_code :: c_int
  fin_error_message :: string

section \<open>Serialisation\<close>

definition save_file_info :: "basic_file_info saver" where
  "save_file_info = save_as (\<lambda>f. (file_path f, file_size f, file_perm f))
     (save_pair save_string (save_pair save_u64 save_u32))"

definition load_file_info :: "basic_file_info loader" where
  "load_file_info = load_as (\<lambda>m. \<lparr>file_path = fst m, file_size = fst (snd m), file_perm = snd (snd m)\<rparr>)
     (load_pair load_string (load_pair load_u64 load_u32))"

definition save_directory_info :: "basic_directory_info saver" where
  "save_directory_info = save_as (\<lambda>d. (dir_path d, dir_perm d)) (save_pair save_string save_u32)"

definition load_directory_info :: "basic_directory_info loader" where
  "load_directory_info = load_as (\<lambda>m. \<lparr>dir_path = fst m, dir_perm = snd m\<rparr>)
     (load_pair load_string load_u32)"

definition save_transfer_info :: "basic_transfer_info saver" where
  "save_transfer_info = save_as (\<lambda>t. (source_is_directory t, dirs_info t, files_info t))
     (save_pair save_bool (save_pair (save_vector save_directory_info) (save_vector save_file_info)))"

definition load_transfer_info :: "basic_transfer_info loader" where
  "load_transfer_info = load_as (\<lambda>m. \<lparr>source_is_directory = fst m, dirs_info = fst (snd m),
       files_info = snd (snd m)\<rparr>)
     (load_pair load_bool (load_pair (load_vector load_directory_info) (load_vector load_file_info)))"

definition save_server_information :: "message_server_information saver" where
  "save_server_information = save_as server_channels (save_vector (save_pair save_sockaddr save_u64))"

definition load_server_information :: "message_server_information loader" where
  "load_server_information = load_as (\<lambda>m. \<lparr>server_channels = m\<rparr>)
     (load_vector (load_pair load_sockaddr load_u64))"

definition save_request :: "message_client_transfer_request saver" where
  "save_request = save_as
     (\<lambda>q. (is_from_server_to_client q, server_path q, transfer_block_size q, is_recursive q,
          req_user q, req_transfer_info q))
     (save_pair save_bool (save_pair save_string (save_pair save_u64 (save_pair save_u64
       (save_pair save_user_name (save_optional save_transfer_info))))))"

definition load_request :: "message_client_transfer_request loader" where
  "load_request = load_as
     (\<lambda>(d, p, b, r, u, t). \<lparr>is_from_server_to_client = d, server_path = p, transfer_block_size = b,
        is_recursive = r, req_user = u, req_transfer_info = t\<rparr>)
     (load_pair load_bool (load_pair load_string (load_pair load_u64 (load_pair load_u64
       (load_pair load_user_name (load_optional load_transfer_info))))))"

definition save_response :: "message_server_transfer_response saver" where
  "save_response = save_as (\<lambda>r. (resp_error_code r, resp_error_message r, resp_transfer_info r))
     (save_pair save_u32 (save_pair save_string (save_optional save_transfer_info)))"

definition load_response :: "message_server_transfer_response loader" where
  "load_response = load_as (\<lambda>(c, m, t). \<lparr>resp_error_code = c, resp_error_message = m,
       resp_transfer_info = t\<rparr>)
     (load_pair load_u32 (load_pair load_string (load_optional load_transfer_info)))"

definition save_finished :: "message_transfer_destination_finished saver" where
  "save_finished = save_as (\<lambda>r. (fin_error_code r, fin_error_message r)) (save_pair save_u32 save_string)"

definition load_finished :: "message_transfer_destination_finished loader" where
  "load_finished = load_as (\<lambda>m. \<lparr>fin_error_code = fst m, fin_error_message = snd m\<rparr>)
     (load_pair load_u32 load_string)"

section \<open>Sending and receiving a message\<close>

definition INT32_MAX :: nat where
  "INT32_MAX = 2147483647"

definition archive_of :: "'m saver \<Rightarrow> endian \<Rightarrow> 'm \<Rightarrow> byte list outcome" where
  "archive_of save h msg = cat (output_archive h) (save h msg)"

text \<open>
  \<open>message_send\<close>: an exception while serialising terminates the process; too large an archive
  is refused before anything is sent.
\<close>

definition message_send ::
  "message_type \<Rightarrow> 'm saver \<Rightarrow> endian \<Rightarrow> 'm \<Rightarrow> os_socket_t \<Rightarrow> bool outcome \<times> os_socket_t" where
  "message_send mt save h msg s = (case archive_of save h msg of
       Ret binary \<Rightarrow>
         if length binary > INT32_MAX then (Ret False, s)
         else
           let binary_size = (word_of_nat (length binary) :: u32);
               buffer = store32 h (htonl h (message_type_value mt)) @ store32 h (htonl h binary_size)
           in (case socket_sendv [buffer, binary] s of (ok, s') \<Rightarrow> (Ret ok, s'))
     | Throw e \<Rightarrow> (Abort, s)
     | Abort \<Rightarrow> (Abort, s)
     | Undefined \<Rightarrow> (Undefined, s))"

text \<open>\<open>message_recv\<close>: \<open>None\<close> is the result false; an exception while loading terminates the process.\<close>

definition message_recv ::
  "message_type \<Rightarrow> 'm loader \<Rightarrow> endian \<Rightarrow> os_socket_t \<Rightarrow> 'm option outcome \<times> os_socket_t" where
  "message_recv mt load g s = (case socket_recv 8 s of
       (False, _, s1) \<Rightarrow> (Ret None, s1)
     | (True, buffer, s1) \<Rightarrow>
         let type = ntohl g (load32 g (take 4 buffer));
             binary_size = ntohl g (load32 g (take 4 (drop 4 buffer)))
         in if type \<noteq> message_type_value mt then (Ret None, s1)
            else (case socket_recv binary_size s1 of
                (False, _, s2) \<Rightarrow> (Ret None, s2)
              | (True, binary, s2) \<Rightarrow>
                  (case fst (seq_st (input_archive g) (\<lambda>convert. load g convert) binary) of
                     Ret msg \<Rightarrow> (Ret (Some msg), s2)
                   | Throw e \<Rightarrow> (Abort, s2)
                   | Abort \<Rightarrow> (Abort, s2)
                   | Undefined \<Rightarrow> (Undefined, s2))))"

text \<open>What is on the wire: the frame of an archive, the same on every host.\<close>

definition message_frame :: "message_type \<Rightarrow> byte list \<Rightarrow> byte list" where
  "message_frame mt binary = rev (le_bytes 4 (unat (message_type_value mt)))
     @ rev (le_bytes 4 (length binary)) @ binary"

lemma length_message_frame [simp]: "length (message_frame mt binary) = 8 + length binary"
  by (simp add: message_frame_def)

lemma message_type_value_inj: "message_type_value a = message_type_value b \<longleftrightarrow> a = b"
  by (cases a; cases b) simp_all

lemma message_send_frame:
  assumes "message_send mt save h msg s = (Ret True, s')"
  obtains binary where "archive_of save h msg = Ret binary" "length binary \<le> INT32_MAX"
    "outbox s' = outbox s @ message_frame mt binary" "inbox s' = inbox s" "sock_open s' = sock_open s"
proof -
  from assms obtain binary where b: "archive_of save h msg = Ret binary"
    and small: "length binary \<le> INT32_MAX"
    and snd: "socket_sendv [store32 h (htonl h (message_type_value mt))
        @ store32 h (htonl h (word_of_nat (length binary) :: u32)), binary] s = (True, s')"
    by (auto simp: message_send_def Let_def split: outcome.splits if_splits prod.splits)
  have n: "unat (word_of_nat (length binary) :: u32) = length binary"
    using small by (intro unat_word_of_nat_small) (simp add: INT32_MAX_def)
  have "outbox s' = outbox s @ message_frame mt binary \<and> inbox s' = inbox s \<and> sock_open s' = sock_open s"
    using socket_sendv_all [OF snd] small n
    by (simp add: message_frame_def store32_htonl INT32_MAX_def)
  with b small show thesis by (intro that) simp_all
qed

lemma message_send_enough:
  assumes "archive_of save h msg = Ret binary" and "length binary \<le> INT32_MAX"
    and "sock_open s" and "8 + length binary \<le> send_room s"
  shows "\<exists>s'. message_send mt save h msg s = (Ret True, s')"
  using assms by (simp add: message_send_def Let_def socket_sendv_enough)

lemma message_recv_frame:
  assumes "sock_open s" and "inbox s = message_frame mt binary @ rest"
    and small: "length binary \<le> INT32_MAX"
  shows "message_recv mt load g s =
    (case fst (seq_st (input_archive g) (\<lambda>convert. load g convert) binary) of
       Ret msg \<Rightarrow> Ret (Some msg) | Throw e \<Rightarrow> Abort | Abort \<Rightarrow> Abort | Undefined \<Rightarrow> Undefined,
     s\<lparr>inbox := rest\<rparr>)"
proof -
  let ?hd = "rev (le_bytes 4 (unat (message_type_value mt))) @ rev (le_bytes 4 (length binary))"
  have n: "unat (word_of_nat (length binary) :: u32) = length binary"
    using small by (intro unat_word_of_nat_small) (simp add: INT32_MAX_def)
  have 1: "socket_recv 8 s = (True, ?hd, s\<lparr>inbox := binary @ rest\<rparr>)"
    using socket_recv_enough [of s 8] assms(1,2) by (simp add: message_frame_def)
  have ty: "ntohl g (load32 g (take 4 ?hd)) = message_type_value mt"
    by (simp add: htonl_load32)
  have sz: "ntohl g (load32 g (take 4 (drop 4 ?hd))) = word_of_nat (length binary)"
    using htonl_load32 [of g "word_of_nat (length binary)"] by (simp add: n)
  have 2: "socket_recv (word_of_nat (length binary)) (s\<lparr>inbox := binary @ rest\<rparr>)
    = (True, binary, s\<lparr>inbox := rest\<rparr>)"
    using socket_recv_enough [of "s\<lparr>inbox := binary @ rest\<rparr>" "word_of_nat (length binary)"] assms(1) small
    by (simp add: n INT32_MAX_def)
  show ?thesis
    unfolding message_recv_def 1 by (simp only: prod.case bool.case Let_def ty sz 2) (simp split: outcome.split)
qed

text \<open>
  A type mismatch is noticed after the eight bytes of the header, so the body stays in the
  stream; a connection that ends inside the frame makes the receiver fail.
\<close>

lemma message_recv_wrong_type:
  assumes "sock_open s" and "inbox s = message_frame mt binary @ rest" and "mt' \<noteq> mt"
  shows "message_recv mt' load g s = (Ret None, s\<lparr>inbox := binary @ rest\<rparr>)"
proof -
  let ?hd = "rev (le_bytes 4 (unat (message_type_value mt))) @ rev (le_bytes 4 (length binary))"
  have 1: "socket_recv 8 s = (True, ?hd, s\<lparr>inbox := binary @ rest\<rparr>)"
    using socket_recv_enough [of s 8] assms(1,2) by (simp add: message_frame_def)
  have ty: "ntohl g (load32 g (take 4 ?hd)) = message_type_value mt"
    by (simp add: htonl_load32)
  show ?thesis
    unfolding message_recv_def 1
    using assms(3) by (simp only: prod.case bool.case Let_def ty message_type_value_inj) simp
qed

lemma message_recv_short:
  assumes "length (inbox s) < 8"
  shows "\<exists>s'. message_recv mt load g s = (Ret None, s')"
proof -
  have "length (inbox s) < unat (8 :: u32)" using assms by simp
  then obtain bs s' where "socket_recv 8 s = (False, bs, s')"
    using sock.recv_short by metis
  then show ?thesis by (simp add: message_recv_def)
qed

text \<open>
  Whatever the peer sends, a message is only accepted when a whole frame of the expected type
  came first in the stream, and exactly that frame is consumed.
\<close>

lemma message_recv_Some:
  assumes "message_recv mt load g s = (Ret (Some m), s')"
  obtains hd binary where "inbox s = hd @ binary @ inbox s'" "length hd = 8"
    "ntohl g (load32 g (take 4 hd)) = message_type_value mt"
    "length binary = unat (ntohl g (load32 g (drop 4 hd)))"
    "fst (seq_st (input_archive g) (\<lambda>convert. load g convert) binary) = Ret m"
    "outbox s' = outbox s"
proof -
  from assms obtain hd s1 where 1: "socket_recv 8 s = (True, hd, s1)"
    by (auto simp: message_recv_def split: prod.splits bool.splits)
  with assms obtain binary where ty: "ntohl g (load32 g (take 4 hd)) = message_type_value mt"
    and 2: "socket_recv (ntohl g (load32 g (take 4 (drop 4 hd)))) s1 = (True, binary, s')"
    and l: "fst (seq_st (input_archive g) (\<lambda>convert. load g convert) binary) = Ret m"
    by (auto simp: message_recv_def Let_def split: prod.splits bool.splits if_splits outcome.splits)
  from sock.recv_all [OF 1] have len: "length hd = 8" by simp
  then have "take 4 (drop 4 hd) = drop 4 hd" by simp
  with sock.recv_two [OF 1 2] sock.recv_all [OF 1] sock.recv_all [OF 2] len ty l
  show thesis by (intro that) simp_all
qed

section \<open>The round trip of a frame\<close>

context codec
begin

lemma archive_round_trip:
  assumes "compat h g" and "ok m" and "archive_of save h m = Ret bs"
  shows "fst (seq_st (input_archive g) (\<lambda>convert. load g convert) bs) = Ret (view m)"
proof -
  from assms(3) obtain a b where a: "output_archive h = Ret a" and b: "save h m = Ret b" and "bs = a @ b"
    by (auto simp: archive_of_def cat_Ret_iff)
  with archive_flag [OF a, of g b] load_save [OF assms(1,2) b, of "[]"] show ?thesis
    by (simp add: seq_st_def)
qed

lemma message_round_trip:
  assumes "compat h g" and "ok m" and snd: "message_send mt save h m s = (Ret True, s')"
    and rcv: "sock_open r" "outbox s @ inbox r = outbox s' @ rest"
  shows "message_recv mt load g r = (Ret (Some (view m)), r\<lparr>inbox := rest\<rparr>)"
proof -
  obtain binary where b: "archive_of save h m = Ret binary" "length binary \<le> INT32_MAX"
    and "outbox s' = outbox s @ message_frame mt binary"
    by (rule message_send_frame [OF snd]) blast
  with rcv have "inbox r = message_frame mt binary @ rest" by simp
  from message_recv_frame [OF rcv(1) this b(2), of load g] archive_round_trip [OF assms(1,2) b(1)]
  show ?thesis by simp
qed

end

section \<open>The codecs of the messages\<close>

definition file_info_ok :: "basic_file_info \<Rightarrow> bool" where
  "file_info_ok f \<longleftrightarrow> length (file_path f) < 2 ^ 64"

definition directory_info_ok :: "basic_directory_info \<Rightarrow> bool" where
  "directory_info_ok d \<longleftrightarrow> length (dir_path d) < 2 ^ 64"

definition transfer_info_ok :: "basic_transfer_info \<Rightarrow> bool" where
  "transfer_info_ok t \<longleftrightarrow> (length (dirs_info t) < 2 ^ 64 \<and> list_all directory_info_ok (dirs_info t))
     \<and> (length (files_info t) < 2 ^ 64 \<and> list_all file_info_ok (files_info t))"

definition server_information_ok :: "message_server_information \<Rightarrow> bool" where
  "server_information_ok m \<longleftrightarrow> length (server_channels m) < 2 ^ 64
     \<and> list_all (\<lambda>p. sockaddr_ok (fst p) \<and> True) (server_channels m)"

definition request_ok :: "message_client_transfer_request \<Rightarrow> bool" where
  "request_ok q \<longleftrightarrow> length (server_path q) < 2 ^ 64 \<and> user_name_ok (req_user q)
     \<and> pred_option transfer_info_ok (req_transfer_info q)"

definition response_ok :: "message_server_transfer_response \<Rightarrow> bool" where
  "response_ok r \<longleftrightarrow> length (resp_error_message r) < 2 ^ 64
     \<and> pred_option transfer_info_ok (resp_transfer_info r)"

definition finished_ok :: "message_transfer_destination_finished \<Rightarrow> bool" where
  "finished_ok r \<longleftrightarrow> length (fin_error_message r) < 2 ^ 64"

interpretation file_info_codec: portable_codec save_file_info load_file_info file_info_ok "\<lambda>f. f"
  unfolding portable_codec_def save_file_info_def load_file_info_def
  by (rule as_codec [OF pair_codec [OF string_codec.codec_axioms
        pair_codec [OF u64_codec.codec_axioms u32_codec.codec_axioms]]])
    (simp_all add: file_info_ok_def)

interpretation directory_info_codec: portable_codec save_directory_info load_directory_info
  directory_info_ok "\<lambda>d. d"
  unfolding portable_codec_def save_directory_info_def load_directory_info_def
  by (rule as_codec [OF pair_codec [OF string_codec.codec_axioms u32_codec.codec_axioms]])
    (simp_all add: directory_info_ok_def)

interpretation transfer_info_codec: portable_codec save_transfer_info load_transfer_info
  transfer_info_ok "\<lambda>t. t"
  unfolding portable_codec_def save_transfer_info_def load_transfer_info_def
  by (rule as_codec [OF pair_codec [OF bool_codec.codec_axioms
        pair_codec [OF directory_info_codec.vector_codec file_info_codec.vector_codec]]])
    (simp_all add: transfer_info_ok_def)

interpretation server_information_codec: codec "(=)" save_server_information load_server_information
  server_information_ok "\<lambda>m. m"
  unfolding save_server_information_def load_server_information_def
  by (rule as_codec [OF codec.vector_codec [OF pair_codec [OF sockaddr_codec.codec_axioms
        u64_codec.same_host.codec_axioms]]])
    (simp_all add: server_information_ok_def)

definition request_view :: "message_client_transfer_request \<Rightarrow> message_client_transfer_request" where
  "request_view q = q\<lparr>req_user := (req_user q)\<lparr>user_principal_name := []\<rparr>\<rparr>"

interpretation request_codec: portable_codec save_request load_request request_ok request_view
  unfolding portable_codec_def save_request_def load_request_def
  by (rule as_codec [OF pair_codec [OF bool_codec.codec_axioms pair_codec [OF string_codec.codec_axioms
        pair_codec [OF u64_codec.codec_axioms pair_codec [OF u64_codec.codec_axioms
        pair_codec [OF user_codec.codec_axioms transfer_info_codec.optional_codec]]]]]])
    (simp_all add: request_ok_def request_view_def user_name_view_def option.map_ident)

interpretation response_codec: portable_codec save_response load_response response_ok "\<lambda>r. r"
  unfolding portable_codec_def save_response_def load_response_def
  by (rule as_codec [OF pair_codec [OF u32_codec.codec_axioms pair_codec [OF string_codec.codec_axioms
        transfer_info_codec.optional_codec]]])
    (simp_all add: response_ok_def option.map_ident)

interpretation finished_codec: portable_codec save_finished load_finished finished_ok "\<lambda>r. r"
  unfolding portable_codec_def save_finished_def load_finished_def
  by (rule as_codec [OF pair_codec [OF u32_codec.codec_axioms string_codec.codec_axioms]])
    (simp_all add: finished_ok_def)

section \<open>Delivery\<close>

text \<open>C15: a transfer request arrives: what \<open>message_send\<close> put on the stream, \<open>message_recv\<close> on a host of any byte
  order turns back into the request, leaving whatever follows it, except that the user principal
  name, which \<open>user_name_t\<close> does not serialise, arrives empty.\<close>

theorem request_delivered:
  assumes "message_send CLIENT_TRANSFER_REQUEST save_request h q s = (Ret True, s')" and "request_ok q"
    and "sock_open r" and "outbox s @ inbox r = outbox s' @ rest"
  shows "message_recv CLIENT_TRANSFER_REQUEST load_request g r
    = (Ret (Some (q\<lparr>req_user := (req_user q)\<lparr>user_principal_name := []\<rparr>\<rparr>)), r\<lparr>inbox := rest\<rparr>)"
  using request_codec.message_round_trip [OF _ assms(2,1,3,4), of g] by (simp add: request_view_def)

definition example_request :: message_client_transfer_request where
  "example_request = \<lparr>is_from_server_to_client = True, server_path = ''/a'', transfer_block_size = 0, is_recursive = 1,
     req_user = \<lparr>user_name = ''u'', domain_user_name = [], user_principal_name = ''u@d'', user_sid = []\<rparr>,
     req_transfer_info = None\<rparr>"

definition wire_sock :: "byte list \<Rightarrow> os_socket_t" where
  "wire_sock bs = \<lparr>sock_open = True, inbox = bs, outbox = [], send_room = 4096\<rparr>"

lemma example_request_sent:
  "\<exists>s'. message_send CLIENT_TRANSFER_REQUEST save_request LittleEndian example_request (wire_sock []) = (Ret True, s')"
proof -
  have "\<exists>b. archive_of save_request LittleEndian example_request = Ret b \<and> length b = 54"
    by (simp add: example_request_def archive_of_def output_archive_def saveBinary_def out_convert_def cat_def
        save_request_def save_as_def save_pair_def save_bool_def save_u32_def save_u64_def save_string_def save_uint_def
        save_user_name_def user_members_def save_optional_def)
  then show ?thesis using message_send_enough [where s = "wire_sock []"] by (fastforce simp: wire_sock_def INT32_MAX_def)
qed

theorem request_delivered_witness:
  "\<exists>bs. message_recv CLIENT_TRANSFER_REQUEST load_request BigEndian (wire_sock bs)
    = (Ret (Some (example_request\<lparr>req_user := (req_user example_request)\<lparr>user_principal_name := []\<rparr>\<rparr>)), wire_sock [])"
proof -
  obtain s' where snd: "message_send CLIENT_TRANSFER_REQUEST save_request LittleEndian example_request (wire_sock [])
    = (Ret True, s')" using example_request_sent by blast
  have "request_ok example_request" by (simp add: example_request_def request_ok_def user_name_ok_def)
  from request_delivered [OF snd this, of "wire_sock (outbox s')" "[]" BigEndian]
  have "message_recv CLIENT_TRANSFER_REQUEST load_request BigEndian (wire_sock (outbox s'))
    = (Ret (Some (example_request\<lparr>req_user := (req_user example_request)\<lparr>user_principal_name := []\<rparr>\<rparr>)), wire_sock [])"
    by (simp add: wire_sock_def)
  then show ?thesis by blast
qed

text \<open>A server's response, its error text and the description of the files it will send included, arrives
  unchanged on a host of any byte order.\<close>

theorem response_delivered:
  assumes "message_send SERVER_TRANSFER_RESPONSE save_response h m s = (Ret True, s')" and "response_ok m"
    and "sock_open r" and "outbox s @ inbox r = outbox s' @ rest"
  shows "message_recv SERVER_TRANSFER_RESPONSE load_response g r = (Ret (Some m), r\<lparr>inbox := rest\<rparr>)"
  using response_codec.message_round_trip [OF _ assms(2,1,3,4), of g] by simp

definition example_response :: message_server_transfer_response where
  "example_response = \<lparr>resp_error_code = 2, resp_error_message = ''no'', resp_transfer_info = None\<rparr>"

theorem response_delivered_witness:
  "\<exists>bs. message_recv SERVER_TRANSFER_RESPONSE load_response BigEndian (wire_sock bs) = (Ret (Some example_response), wire_sock [])"
proof -
  have "\<exists>b. archive_of save_response LittleEndian example_response = Ret b \<and> length b = 16"
    by (simp add: example_response_def archive_of_def output_archive_def saveBinary_def out_convert_def cat_def
        save_response_def save_as_def save_pair_def save_bool_def save_u32_def save_u64_def save_string_def save_uint_def
        save_optional_def)
  then obtain s' where snd: "message_send SERVER_TRANSFER_RESPONSE save_response LittleEndian example_response (wire_sock [])
    = (Ret True, s')" using message_send_enough [where s = "wire_sock []"] by (fastforce simp: wire_sock_def INT32_MAX_def)
  have "response_ok example_response" by (simp add: example_response_def response_ok_def)
  from response_delivered [OF snd this, of "wire_sock (outbox s')" "[]" BigEndian]
  have "message_recv SERVER_TRANSFER_RESPONSE load_response BigEndian (wire_sock (outbox s'))
    = (Ret (Some example_response), wire_sock [])" by (simp add: wire_sock_def)
  then show ?thesis by blast
qed

text \<open>A message is accepted only as a whole: whatever is in the stream, when \<open>message_recv\<close> returns a request, the
  stream began with a frame whose header names the request type and the length of the archive that
  follows, the request was loaded from exactly that archive, and nothing after it was consumed.\<close>

theorem request_accepted_whole:
  assumes "message_recv CLIENT_TRANSFER_REQUEST load_request g s = (Ret (Some q), s')"
  shows "\<exists>hd binary. inbox s = hd @ binary @ inbox s' \<and> length hd = 8
    \<and> ntohl g (load32 g (take 4 hd)) = message_type_value CLIENT_TRANSFER_REQUEST
    \<and> length binary = unat (ntohl g (load32 g (drop 4 hd)))
    \<and> fst (seq_st (input_archive g) (\<lambda>convert. load_request g convert) binary) = Ret q"
proof -
  obtain hd binary where "inbox s = hd @ binary @ inbox s'" "length hd = 8"
    "ntohl g (load32 g (take 4 hd)) = message_type_value CLIENT_TRANSFER_REQUEST"
    "length binary = unat (ntohl g (load32 g (drop 4 hd)))"
    "fst (seq_st (input_archive g) (\<lambda>convert. load_request g convert) binary) = Ret q"
    by (rule message_recv_Some [OF assms])
  then show ?thesis by blast
qed

theorem request_accepted_whole_witness:
  "\<exists>bs q hd binary. bs = hd @ binary \<and> length hd = 8
    \<and> ntohl BigEndian (load32 BigEndian (take 4 hd)) = message_type_value CLIENT_TRANSFER_REQUEST
    \<and> length binary = unat (ntohl BigEndian (load32 BigEndian (drop 4 hd)))
    \<and> fst (seq_st (input_archive BigEndian) (\<lambda>convert. load_request BigEndian convert) binary) = Ret q"
proof -
  obtain s' where snd: "message_send CLIENT_TRANSFER_REQUEST save_request LittleEndian example_request (wire_sock [])
    = (Ret True, s')" using example_request_sent by blast
  have "request_ok example_request" by (simp add: example_request_def request_ok_def user_name_ok_def)
  from request_codec.message_round_trip [OF _ this snd, of "wire_sock (outbox s')" "[]" BigEndian]
  have "message_recv CLIENT_TRANSFER_REQUEST load_request BigEndian (wire_sock (outbox s'))
    = (Ret (Some (request_view example_request)), wire_sock [])" by (simp add: wire_sock_def)
  from request_accepted_whole [OF this] show ?thesis unfolding wire_sock_def os_socket_t.simps append_Nil2 by blast
qed

text \<open>A message of another type is refused: the receiver returns without a message after the eight bytes of the
  frame's header, and the body stays in the stream.\<close>

theorem wrong_type_refused:
  assumes "sock_open s" and "inbox s = message_frame SERVER_TRANSFER_RESPONSE binary @ rest"
  shows "message_recv CLIENT_TRANSFER_REQUEST load_request g s = (Ret None, s\<lparr>inbox := binary @ rest\<rparr>)"
  by (rule message_recv_wrong_type [OF assms]) simp

theorem wrong_type_refused_witness:
  "message_recv CLIENT_TRANSFER_REQUEST load_request BigEndian (wire_sock (message_frame SERVER_TRANSFER_RESPONSE [1, 2] @ [3]))
    = (Ret None, (wire_sock (message_frame SERVER_TRANSFER_RESPONSE [1, 2] @ [3]))\<lparr>inbox := [1, 2] @ [3]\<rparr>)"
  by (rule wrong_type_refused) (simp_all add: wire_sock_def)

text \<open>A malformed body takes the receiving process down: a request frame whose archive is empty makes
  \<open>message_recv\<close> abort (the exception of the archive ends in \<open>PANIC_TERMINATE\<close>), in whichever process
  reads it; no peer is only disconnected.\<close>

theorem malformed_request_aborts:
  assumes "sock_open s" and "inbox s = message_frame CLIENT_TRANSFER_REQUEST [] @ rest"
  shows "message_recv CLIENT_TRANSFER_REQUEST load_request g s = (Abort, s\<lparr>inbox := rest\<rparr>)"
proof -
  have "fst (seq_st (input_archive g) (\<lambda>convert. load_request g convert) []) = Throw (Archive_error 1 0)"
    by (simp add: input_archive_def loadBinary_def seq_st_def)
  with message_recv_frame [OF assms, of load_request g] show ?thesis by simp
qed

theorem malformed_request_aborts_witness:
  "message_recv CLIENT_TRANSFER_REQUEST load_request LittleEndian (wire_sock (message_frame CLIENT_TRANSFER_REQUEST [] @ []))
    = (Abort, (wire_sock (message_frame CLIENT_TRANSFER_REQUEST [] @ []))\<lparr>inbox := []\<rparr>)"
  by (rule malformed_request_aborts) (simp_all add: wire_sock_def)

end
