(* ===== verification/Gate.thy ===== *)
theory Gate
  imports Events
begin

text \<open>
  \<open>infra/gate_guard.h\<close> and the exit gate of \<open>infra/sighandle.h\<close>. The sequential operations carry
  the source's \<open>ASSERT\<close>s; the event is a flag here, by the analysis of \<open>Events\<close>. The locale
  \<open>latch\<close> is the contract the server, the client and \<open>sighandle\<close> use. The second part interleaves
  the atomic accesses of concurrent calls.
\<close>

record gate_guard =
  mre :: bool
  curr_signal_count :: u64
  at_least_signal :: u64

definition INVALID_SIGNAL_COUNT :: u64 where
  "INVALID_SIGNAL_COUNT = -1"

definition gate_new :: gate_guard where
  "gate_new = \<lparr>mre = False, curr_signal_count = 0, at_least_signal = INVALID_SIGNAL_COUNT\<rparr>"

definition gate_initialized :: "gate_guard \<Rightarrow> bool" where
  "gate_initialized g \<longleftrightarrow> at_least_signal g \<noteq> INVALID_SIGNAL_COUNT"

definition gate_init :: "u64 \<Rightarrow> gate_guard \<Rightarrow> unit outcome \<times> gate_guard" where
  "gate_init n = seq_st (\<lambda>g. assert_st (curr_signal_count g = 0) g)
     (\<lambda>_. seq_st (\<lambda>g. assert_st (at_least_signal g = INVALID_SIGNAL_COUNT) g)
     (\<lambda>_. seq_st (assert_st (n \<noteq> INVALID_SIGNAL_COUNT))
     (\<lambda>_. seq_st (assert_st (n > 0))
     (\<lambda>_ g. (Ret (), g\<lparr>at_least_signal := n\<rparr>)))))"

definition gate_signal :: "gate_guard \<Rightarrow> unit outcome \<times> gate_guard" where
  "gate_signal = seq_st (\<lambda>g. assert_st (gate_initialized g) g)
     (\<lambda>_ g. let g' = g\<lparr>curr_signal_count := curr_signal_count g + 1\<rparr>
            in (Ret (), if curr_signal_count g' = at_least_signal g' then g'\<lparr>mre := True\<rparr> else g'))"

definition gate_force_signal_all :: "gate_guard \<Rightarrow> unit outcome \<times> gate_guard" where
  "gate_force_signal_all = seq_st (\<lambda>g. assert_st (gate_initialized g) g)
     (\<lambda>_ g. (Ret (), g\<lparr>curr_signal_count := at_least_signal g, mre := True\<rparr>))"

text \<open>\<open>wait\<close> returns when the event is set, and blocks (\<open>None\<close>) when it is not.\<close>

definition gate_wait :: "gate_guard \<Rightarrow> unit option outcome" where
  "gate_wait g = (if gate_initialized g then Ret (if mre g then Some () else None) else Abort)"

definition gate_can_pass :: "gate_guard \<Rightarrow> bool outcome" where
  "gate_can_pass g = (if gate_initialized g then Ret (curr_signal_count g \<ge> at_least_signal g) else Abort)"

section \<open>The contract of a latch\<close>

text \<open>
  \<open>needed\<close> is how many more signals open the latch; \<open>passed\<close> that waiting does not block.
\<close>

locale latch =
  fixes valid :: "'s \<Rightarrow> bool" and signal :: "'s \<Rightarrow> unit outcome \<times> 's"
    and force :: "'s \<Rightarrow> unit outcome \<times> 's" and wait :: "'s \<Rightarrow> unit option outcome"
    and needed :: "'s \<Rightarrow> nat"
  assumes signal_step: "valid s \<Longrightarrow> \<exists>s'. signal s = (Ret (), s') \<and> valid s' \<and> needed s' = needed s - 1"
    and force_step: "valid s \<Longrightarrow> \<exists>s'. force s = (Ret (), s') \<and> valid s' \<and> needed s' = 0"
    and wait_needed: "valid s \<Longrightarrow> wait s = Ret (if needed s = 0 then Some () else None)"
begin

fun signals :: "nat \<Rightarrow> 's \<Rightarrow> unit outcome \<times> 's" where
  "signals 0 s = (Ret (), s)"
| "signals (Suc k) s = seq_st signal (\<lambda>_. signals k) s"

lemma signals_needed:
  "valid s \<Longrightarrow> \<exists>s'. signals k s = (Ret (), s') \<and> valid s' \<and> needed s' = needed s - k"
proof (induction k arbitrary: s)
  case 0
  then show ?case by simp
next
  case (Suc k)
  from signal_step [OF Suc.prems] obtain s1 where 1: "signal s = (Ret (), s1)" "valid s1"
    "needed s1 = needed s - 1" by blast
  from Suc.IH [OF 1(2)] 1 show ?case by auto
qed

lemma signals_open: "valid s \<Longrightarrow> needed s \<le> k \<Longrightarrow> \<exists>s'. signals k s = (Ret (), s') \<and> wait s' = Ret (Some ())"
  using signals_needed [of s k] wait_needed by fastforce

lemma signals_closed: "valid s \<Longrightarrow> k < needed s \<Longrightarrow> \<exists>s'. signals k s = (Ret (), s') \<and> wait s' = Ret None"
  using signals_needed [of s k] wait_needed by fastforce

text \<open>An open latch stays open whatever happens to it.\<close>

lemma open_stable:
  assumes "valid s" and "wait s = Ret (Some ())"
  shows "\<exists>s'. signal s = (Ret (), s') \<and> valid s' \<and> wait s' = Ret (Some ())"
    and "\<exists>s'. force s = (Ret (), s') \<and> valid s' \<and> wait s' = Ret (Some ())"
proof -
  from assms have "needed s = 0" using wait_needed [OF assms(1)] by (simp split: if_splits)
  then show "\<exists>s'. signal s = (Ret (), s') \<and> valid s' \<and> wait s' = Ret (Some ())"
    using signal_step [OF assms(1)] wait_needed by fastforce
  show "\<exists>s'. force s = (Ret (), s') \<and> valid s' \<and> wait s' = Ret (Some ())"
    using force_step [OF assms(1)] wait_needed by fastforce
qed

end

definition gate_valid :: "gate_guard \<Rightarrow> bool" where
  "gate_valid g \<longleftrightarrow> gate_initialized g \<and> at_least_signal g > 0
     \<and> (\<not> mre g \<longrightarrow> curr_signal_count g < at_least_signal g)"

definition gate_needed :: "gate_guard \<Rightarrow> nat" where
  "gate_needed g = (if mre g then 0 else unat (at_least_signal g) - unat (curr_signal_count g))"

lemma gate_signal_valid:
  assumes "gate_valid g"
  shows "\<exists>g'. gate_signal g = (Ret (), g') \<and> gate_valid g' \<and> gate_needed g' = gate_needed g - 1"
proof -
  let ?c = "curr_signal_count g" and ?n = "at_least_signal g"
  have 1: "unat (?c + 1) = unat ?c + 1" if "?c < ?n"
    using that unat_lt_width [of ?n] by (simp add: unat_word_ariths word_less_nat_alt)
  have 2: "unat ?c + 1 < unat ?n" if "?c < ?n" "?c + 1 \<noteq> ?n"
    using that 1 by (metis Suc_eq_plus1 Suc_leI le_neq_implies_less word_less_nat_alt word_unat_eq_iff)
  show ?thesis
  proof (cases "mre g")
    case True
    with assms show ?thesis
      by (auto simp: gate_signal_def gate_valid_def gate_needed_def gate_initialized_def Let_def)
  next
    case False
    with assms have lt: "?c < ?n" by (simp add: gate_valid_def)
    show ?thesis
    proof (cases "?c + 1 = ?n")
      case True
      with 1 [OF lt] have "unat ?n = unat ?c + 1" by metis
      with True False assms show ?thesis
        by (simp add: gate_signal_def gate_valid_def gate_needed_def gate_initialized_def Let_def)
    next
      case neq: False
      with 1 [OF lt] 2 [OF lt] False assms show ?thesis
        by (simp add: gate_signal_def gate_valid_def gate_needed_def gate_initialized_def Let_def
            word_less_nat_alt)
    qed
  qed
qed

interpretation gate: latch gate_valid gate_signal gate_force_signal_all gate_wait gate_needed
proof
  fix g
  show "gate_valid g \<Longrightarrow> \<exists>g'. gate_signal g = (Ret (), g') \<and> gate_valid g' \<and> gate_needed g' = gate_needed g - 1"
    by (rule gate_signal_valid)
  show "gate_valid g \<Longrightarrow> \<exists>g'. gate_force_signal_all g = (Ret (), g') \<and> gate_valid g' \<and> gate_needed g' = 0"
    by (simp add: gate_force_signal_all_def gate_valid_def gate_needed_def gate_initialized_def)
  show "gate_valid g \<Longrightarrow> gate_wait g = Ret (if gate_needed g = 0 then Some () else None)"
    by (auto simp: gate_wait_def gate_valid_def gate_needed_def word_less_nat_alt)
qed

section \<open>Concurrent signals\<close>

text \<open>
  Any number of threads call \<open>signal\<close>, \<open>force_signal_all\<close> and \<open>wait\<close>. The increment and the store
  of the counter are atomic; setting the event is a later step of the same call. \<open>added\<close> counts the
  increments and \<open>forced\<close> says whether a forcing store has happened; the code has neither.
\<close>

datatype gate_pc = Gate_idle | Gate_waiting | Signal_set | Force_set

record gate_run =
  gr_gate :: gate_guard
  gr_pcs :: "nat \<Rightarrow> gate_pc"
  gr_added :: nat
  gr_forced :: bool

definition gate_start :: "u64 \<Rightarrow> gate_run" where
  "gate_start n = \<lparr>gr_gate = snd (gate_init n gate_new), gr_pcs = (\<lambda>_. Gate_idle), gr_added = 0, gr_forced = False\<rparr>"

inductive gate_step :: "gate_run \<Rightarrow> gate_run \<Rightarrow> bool" where
  signal_add: "gr_pcs s t = Gate_idle \<Longrightarrow> c = curr_signal_count (gr_gate s) + 1
    \<Longrightarrow> gate_step s (s\<lparr>gr_gate := (gr_gate s)\<lparr>curr_signal_count := c\<rparr>, gr_added := Suc (gr_added s),
          gr_pcs := (gr_pcs s)(t := if c = at_least_signal (gr_gate s) then Signal_set else Gate_idle)\<rparr>)"
| signal_set: "gr_pcs s t = Signal_set
    \<Longrightarrow> gate_step s (s\<lparr>gr_gate := (gr_gate s)\<lparr>mre := True\<rparr>, gr_pcs := (gr_pcs s)(t := Gate_idle)\<rparr>)"
| force_store: "gr_pcs s t = Gate_idle
    \<Longrightarrow> gate_step s (s\<lparr>gr_gate := (gr_gate s)\<lparr>curr_signal_count := at_least_signal (gr_gate s)\<rparr>,
          gr_forced := True, gr_pcs := (gr_pcs s)(t := Force_set)\<rparr>)"
| force_set: "gr_pcs s t = Force_set
    \<Longrightarrow> gate_step s (s\<lparr>gr_gate := (gr_gate s)\<lparr>mre := True\<rparr>, gr_pcs := (gr_pcs s)(t := Gate_idle)\<rparr>)"
| gate_wait_call: "gr_pcs s t = Gate_idle
    \<Longrightarrow> gate_step s (s\<lparr>gr_pcs := (gr_pcs s)(t := Gate_waiting)\<rparr>)"
| gate_wait_pass: "gr_pcs s t = Gate_waiting \<Longrightarrow> mre (gr_gate s)
    \<Longrightarrow> gate_step s (s\<lparr>gr_pcs := (gr_pcs s)(t := Gate_idle)\<rparr>)"

inductive gate_reachable :: "u64 \<Rightarrow> gate_run \<Rightarrow> bool" for n where
  gate_first: "0 < n \<Longrightarrow> n \<noteq> INVALID_SIGNAL_COUNT \<Longrightarrow> gate_reachable n (gate_start n)"
| gate_next: "gate_reachable n s \<Longrightarrow> gate_step s s' \<Longrightarrow> gate_reachable n s'"

definition gate_due :: "u64 \<Rightarrow> gate_run \<Rightarrow> bool" where
  "gate_due n s \<longleftrightarrow> gr_forced s \<or> unat n \<le> gr_added s"

definition gate_setting :: "gate_run \<Rightarrow> bool" where
  "gate_setting s \<longleftrightarrow> (\<exists>t. gr_pcs s t = Signal_set \<or> gr_pcs s t = Force_set)"

definition gate_run_inv :: "u64 \<Rightarrow> gate_run \<Rightarrow> bool" where
  "gate_run_inv n s \<longleftrightarrow> at_least_signal (gr_gate s) = n
     \<and> (\<not> gr_forced s \<longrightarrow> curr_signal_count (gr_gate s) = word_of_nat (gr_added s))
     \<and> (mre (gr_gate s) \<or> gate_setting s \<longleftrightarrow> gate_due n s)"

lemma gate_setting_upd:
  "gate_setting (s\<lparr>gr_gate := g, gr_pcs := (gr_pcs s)(t := p)\<rparr>)
    \<longleftrightarrow> p = Signal_set \<or> p = Force_set \<or> (\<exists>u. u \<noteq> t \<and> (gr_pcs s u = Signal_set \<or> gr_pcs s u = Force_set))"
  by (auto simp: gate_setting_def)

lemma gate_setting_idle:
  assumes "gr_pcs s t = Gate_idle \<or> gr_pcs s t = Gate_waiting"
  shows "(\<exists>u. u \<noteq> t \<and> (gr_pcs s u = Signal_set \<or> gr_pcs s u = Force_set)) \<longleftrightarrow> gate_setting s"
  using assms by (auto simp: gate_setting_def) (metis gate_pc.distinct)+

lemma gate_setting_eq:
  "gr_pcs s' = (gr_pcs s)(t := p) \<Longrightarrow> gr_pcs s t = Gate_idle \<or> gr_pcs s t = Gate_waiting
    \<Longrightarrow> gate_setting s' \<longleftrightarrow> p = Signal_set \<or> p = Force_set \<or> gate_setting s"
  unfolding gate_setting_idle [symmetric] by (auto simp: gate_setting_def)

lemma gate_run_inv_step:
  assumes "gate_step s s'" and "gate_run_inv n s"
  shows "gate_run_inv n s'"
  using assms
proof (induction rule: gate_step.induct)
  case (signal_add s t c)
  let ?s = "s\<lparr>gr_gate := (gr_gate s)\<lparr>curr_signal_count := c\<rparr>, gr_added := Suc (gr_added s),
    gr_pcs := (gr_pcs s)(t := if c = at_least_signal (gr_gate s) then Signal_set else Gate_idle)\<rparr>"
  have set: "gate_setting ?s \<longleftrightarrow> c = n \<or> gate_setting s"
    using gate_setting_eq [of ?s s t "if c = n then Signal_set else Gate_idle"] signal_add
    by (simp add: gate_run_inv_def)
  have due: "gate_due n ?s \<longleftrightarrow> gate_due n s \<or> Suc (gr_added s) = unat n"
    by (auto simp: gate_due_def)
  show ?case
  proof (cases "gate_due n s")
    case True
    with signal_add set due show ?thesis by (auto simp: gate_run_inv_def)
  next
    case False
    then have nf: "\<not> gr_forced s" and lt: "gr_added s < unat n" by (auto simp: gate_due_def)
    with signal_add have c: "c = word_of_nat (Suc (gr_added s))" by (simp add: gate_run_inv_def)
    have "Suc (gr_added s) < 2 ^ 64" using lt unat_lt_width [of n] by simp
    then have "unat c = Suc (gr_added s)"
      using unat_word_of_nat_small [where 'a = 64, of "Suc (gr_added s)"] c by simp
    then have "c = n \<longleftrightarrow> Suc (gr_added s) = unat n" by (metis word_unat_eq_iff)
    with signal_add set due c nf show ?thesis by (auto simp: gate_run_inv_def)
  qed
next
  case (signal_set s t)
  then have "gate_setting s" by (auto simp: gate_setting_def)
  with signal_set show ?case by (auto simp: gate_run_inv_def gate_due_def)
next
  case (force_store s t)
  then show ?case by (auto simp: gate_run_inv_def gate_due_def gate_setting_def)
next
  case (force_set s t)
  then have "gate_setting s" by (auto simp: gate_setting_def)
  with force_set show ?case by (auto simp: gate_run_inv_def gate_due_def)
next
  case (gate_wait_call s t)
  then show ?case
    using gate_setting_eq [of "s\<lparr>gr_pcs := (gr_pcs s)(t := Gate_waiting)\<rparr>" s t Gate_waiting]
    by (simp add: gate_run_inv_def gate_due_def)
next
  case (gate_wait_pass s t)
  then show ?case
    using gate_setting_eq [of "s\<lparr>gr_pcs := (gr_pcs s)(t := Gate_idle)\<rparr>" s t Gate_idle]
    by (simp add: gate_run_inv_def gate_due_def)
qed

lemma gate_reachable_inv: "gate_reachable n s \<Longrightarrow> gate_run_inv n s"
proof (induction rule: gate_reachable.induct)
  case gate_first
  then show ?case
    by (auto simp: gate_start_def gate_init_def gate_new_def gate_run_inv_def gate_due_def
        gate_setting_def word_less_nat_alt)
next
  case (gate_next s s')
  then show ?case using gate_run_inv_step by blast
qed

text \<open>C16: with any interleaving of concurrent \<open>signal\<close>, \<open>force_signal_all\<close> and \<open>wait\<close> calls on a gate
  initialised with \<open>n\<close>: nobody passes the gate before \<open>n\<close> signals have been counted or somebody
  forced it; and once that is so, the event is set or a call that is about to set it is under way,
  so no signal is lost.\<close>

theorem gate_opens_exactly:
  assumes "gate_reachable n s"
  shows "(mre (gr_gate s) \<longrightarrow> gr_forced s \<or> unat n \<le> gr_added s)
    \<and> ((gr_forced s \<or> unat n \<le> gr_added s) \<and> (\<forall>t. gr_pcs s t \<in> {Gate_idle, Gate_waiting}) \<longrightarrow> mre (gr_gate s))"
proof -
  have inv: "mre (gr_gate s) \<or> gate_setting s \<longleftrightarrow> gr_forced s \<or> unat n \<le> gr_added s"
    using gate_reachable_inv [OF assms] by (simp add: gate_run_inv_def gate_due_def)
  have quiet: "\<not> gate_setting s" if "\<forall>t. gr_pcs s t \<in> {Gate_idle, Gate_waiting}"
  proof
    assume "gate_setting s"
    then obtain t where "gr_pcs s t = Signal_set \<or> gr_pcs s t = Force_set"
      unfolding gate_setting_def by blast
    with that [rule_format, of t] show False by auto
  qed
  from inv quiet show ?thesis by blast
qed

definition gate_demo :: gate_run where
  "gate_demo = (let s = gate_start 1 in s\<lparr>gr_gate := (gr_gate s)\<lparr>curr_signal_count := 1, mre := True\<rparr>, gr_added := 1\<rparr>)"

theorem gate_opens_exactly_witness: "mre (gr_gate gate_demo) \<and> gr_pcs gate_demo 5 = Gate_idle
    \<and> unat (1 :: u64) \<le> gr_added gate_demo"
proof -
  let ?s1 = "(gate_start 1)\<lparr>gr_gate := (gr_gate (gate_start 1))\<lparr>curr_signal_count := 1\<rparr>,
    gr_added := Suc (gr_added (gate_start 1)), gr_pcs := (gr_pcs (gate_start 1))(7 := Signal_set)\<rparr>"
  have "gate_step (gate_start 1) ?s1"
    using signal_add [of "gate_start 1" 7 1]
    by (simp add: gate_start_def gate_init_def gate_new_def INVALID_SIGNAL_COUNT_def)
  moreover have "gate_step ?s1 gate_demo"
    using signal_set [of ?s1 7] by (simp add: gate_demo_def gate_start_def Let_def fun_upd_idem)
  moreover have "gate_reachable 1 (gate_start 1)"
    by (rule gate_first) (simp_all add: INVALID_SIGNAL_COUNT_def)
  ultimately have "gate_reachable 1 gate_demo" by (blast intro: gate_next)
  from gate_opens_exactly [OF this]
  show ?thesis by (simp add: gate_demo_def gate_start_def Let_def)
qed

section \<open>sighandle\<close>

text \<open>
  The process-wide gate of \<open>sighandle\<close>: a signal handler or a finished client requires the exit,
  the main thread waits for it.
\<close>

definition setup_signal_handler :: "gate_guard \<Rightarrow> unit outcome \<times> gate_guard" where
  "setup_signal_handler = gate_init 1"

definition require_exit :: "gate_guard \<Rightarrow> unit outcome \<times> gate_guard" where
  "require_exit = gate_signal"

definition is_exit_required :: "gate_guard \<Rightarrow> bool outcome" where
  "is_exit_required = gate_can_pass"

definition wait_for_exit_required :: "gate_guard \<Rightarrow> unit option outcome" where
  "wait_for_exit_required = gate_wait"

text \<open>After \<open>setup_signal_handler\<close> the main thread blocks until \<open>require_exit\<close> has been called, and any
  positive number of calls lets it through.\<close>

theorem exit_gate:
  assumes "setup_signal_handler gate_new = (r, g)"
  shows "r = Ret () \<and> (\<exists>g'. gate.signals k g = (Ret (), g')
    \<and> wait_for_exit_required g' = Ret (if k = 0 then None else Some ()))"
proof -
  from assms have r: "r = Ret ()" and g: "g = gate_new\<lparr>at_least_signal := 1\<rparr>"
    by (auto simp: setup_signal_handler_def gate_init_def gate_new_def INVALID_SIGNAL_COUNT_def)
  have "gate_valid g" "gate_needed g = 1"
    by (simp_all add: g gate_new_def gate_valid_def gate_needed_def gate_initialized_def INVALID_SIGNAL_COUNT_def)
  then show ?thesis
    using gate.signals_open [of g k] gate.signals_closed [of g k] r
    by (cases "k = 0") (auto simp: wait_for_exit_required_def)
qed

theorem exit_gate_witness:
  "\<exists>g g'. setup_signal_handler gate_new = (Ret (), g) \<and> gate.signals 2 g = (Ret (), g')
    \<and> wait_for_exit_required g' = Ret (Some ())"
proof -
  let ?p = "setup_signal_handler gate_new"
  have p: "?p = (fst ?p, snd ?p)" by simp
  from exit_gate [OF p, of 2] obtain g' where "fst ?p = Ret ()" "gate.signals 2 (snd ?p) = (Ret (), g')"
    "wait_for_exit_required g' = Ret (Some ())"
    by (simp add: zero_neq_numeral) blast
  with p show ?thesis by (intro exI [of _ "snd ?p"] exI [of _ g']) simp
qed

end
