(* ===== verification/Blocksize.thy ===== *)
theory Blocksize
  imports Xcp_Prelude "HOL-Library.Log_Nat"
begin

text \<open>
  The adaptive block size of a source channel (\<open>transfer_source::invoke_channel\<close>,
  \<open>transfer.cpp\<close>): after every block the channel aims at one block per second. The code computes in
  IEEE doubles; here a double is its rational value and every operation rounds to the nearest
  value with 53 significant bits, ties to even. All values that occur are zero or normal.
\<close>

section \<open>Doubles\<close>

text \<open>The exponent of a positive rational: \<open>2 powi e \<le> x < 2 powi (e + 1)\<close>.\<close>

definition dbl_exponent :: "rat \<Rightarrow> int" where
  "dbl_exponent x = (case quotient_of x of (n, d) \<Rightarrow>
     let k = bitlen n - bitlen d in if 2 powi k \<le> x then k else k - 1)"

definition round_half_even :: "rat \<Rightarrow> int" where
  "round_half_even q = (let n = \<lfloor>q\<rfloor>; f = q - of_int n
     in if f < 1 / 2 then n else if f > 1 / 2 then n + 1 else if even n then n else n + 1)"

definition to_double :: "rat \<Rightarrow> rat" where
  "to_double x = (if x = 0 then 0
     else let u = 2 powi (dbl_exponent x - 52) in of_int (round_half_even (x / u)) * u)"

definition dbl_of_u64 :: "u64 \<Rightarrow> rat" where
  "dbl_of_u64 w = to_double (of_nat (unat w))"

definition dbl_div :: "rat \<Rightarrow> rat \<Rightarrow> rat" where
  "dbl_div x y = to_double (x / y)"

definition dbl_mult :: "rat \<Rightarrow> rat \<Rightarrow> rat" where
  "dbl_mult x y = to_double (x * y)"

definition dbl_add :: "rat \<Rightarrow> rat \<Rightarrow> rat" where
  "dbl_add x y = to_double (x + y)"

definition dbl_minus :: "rat \<Rightarrow> rat \<Rightarrow> rat" where
  "dbl_minus x y = to_double (x - y)"

text \<open>The conversion to \<open>uint64_t\<close> truncates; a value out of range would be undefined.\<close>

definition u64_of_dbl :: "rat \<Rightarrow> u64 outcome" where
  "u64_of_dbl x = (if -1 < x \<and> x < 2 ^ 64 then Ret (word_of_int \<lfloor>x\<rfloor>) else Undefined)"

section \<open>The adjustment\<close>

definition MAX_TRANSFER_BLOCK_SIZE :: u32 where
  "MAX_TRANSFER_BLOCK_SIZE = 1073741824"

definition TRANSFER_BLOCK_SIZE_INIT :: u32 where
  "TRANSFER_BLOCK_SIZE_INIT = 1048576"

definition DECAY :: rat where
  "DECAY = to_double (8 / 10)"

definition ALIGN_SHIFT :: nat where
  "ALIGN_SHIFT = 16"

text \<open>The new size before alignment; \<open>elapsed_usec\<close> is an \<open>int64_t\<close>.\<close>

definition scaled_block_size :: "int \<Rightarrow> u64 \<Rightarrow> u64 outcome" where
  "scaled_block_size elapsed_usec b =
     (if elapsed_usec \<le> 0 then Ret (b * 2)
      else if elapsed_usec \<le> 1000 * 1000
        then u64_of_dbl (dbl_div (dbl_of_u64 (b * 1000 * 1000)) (to_double (of_int elapsed_usec)))
      else let tmp = dbl_div (dbl_of_u64 (b * 1000 * 1000)) (to_double (of_int elapsed_usec))
        in u64_of_dbl (dbl_add (dbl_mult (dbl_of_u64 b) DECAY) (dbl_mult tmp (dbl_minus 1 DECAY))))"

definition align_block_size :: "u64 \<Rightarrow> u32" where
  "align_block_size b =
     (let b' = push_bit ALIGN_SHIFT (drop_bit ALIGN_SHIFT (b + (push_bit ALIGN_SHIFT 1) - 1)) :: u64
      in ucast (if b' > ucast MAX_TRANSFER_BLOCK_SIZE then ucast MAX_TRANSFER_BLOCK_SIZE
                else if b' = 0 then push_bit ALIGN_SHIFT 1 else b'))"

definition adjust_block_size :: "int \<Rightarrow> u32 \<Rightarrow> u32 outcome" where
  "adjust_block_size elapsed_usec b = (case scaled_block_size elapsed_usec (ucast b) of
       Ret b' \<Rightarrow> Ret (align_block_size b')
     | Throw e \<Rightarrow> Throw e | Abort \<Rightarrow> Abort | Undefined \<Rightarrow> Undefined)"

section \<open>Rounding\<close>

lemma powi_pos [simp]: "0 < (2 :: rat) powi k"
  by simp

lemma dbl_exponent_bounds:
  assumes "0 < x"
  shows "2 powi dbl_exponent x \<le> x" and "x < 2 powi (dbl_exponent x + 1)"
proof -
  obtain n d where q: "quotient_of x = (n, d)" by force
  then have d: "0 < d" and x: "x = of_int n / of_int d"
    using quotient_of_denom_pos quotient_of_div by blast+
  with assms have n: "0 < n" by (simp add: zero_less_divide_iff)
  let ?a = "bitlen n" and ?b = "bitlen d"
  have a: "2 ^ nat (?a - 1) \<le> n" "n < 2 ^ nat ?a" and b: "2 ^ nat (?b - 1) \<le> d" "d < 2 ^ nat ?b"
    using bitlen_bounds [OF n] bitlen_bounds [OF d] by simp_all
  have pos: "0 < ?a" "0 < ?b" using n d bitlen_eq_zero_iff bitlen_nonneg
    by (metis less_le not_le)+
  have pw: "(of_int (2 ^ nat k) :: rat) = 2 powi k" if "0 \<le> k" for k
    using that by (simp add: power_int_def)
  have A: "(2 :: rat) powi (?a - 1) \<le> of_int n" "of_int n < (2 :: rat) powi ?a"
    using a pos pw [of "?a - 1"] pw [of ?a] by (metis diff_ge_0_iff_ge int_one_le_iff_zero_less of_int_le_iff,
        metis less_imp_le of_int_less_iff)
  have B: "(2 :: rat) powi (?b - 1) \<le> of_int d" "of_int d < (2 :: rat) powi ?b"
    using b pos pw [of "?b - 1"] pw [of ?b] by (metis diff_ge_0_iff_ge int_one_le_iff_zero_less of_int_le_iff,
        metis less_imp_le of_int_less_iff)
  have lo: "2 powi (?a - ?b - 1) \<le> x"
  proof -
    have "(2 :: rat) powi (?a - ?b - 1) = 2 powi (?a - 1) / 2 powi ?b"
      by (simp add: power_int_diff [symmetric] algebra_simps)
    also have "\<dots> \<le> of_int n / of_int d"
      using A(1) B(2) n d by (intro frac_le) simp_all
    finally show ?thesis by (simp add: x)
  qed
  have hi: "x < 2 powi (?a - ?b + 1)"
  proof -
    have "of_int n / of_int d < (2 :: rat) powi ?a / 2 powi (?b - 1)"
      using A(2) B(1) n by (intro frac_less) simp_all
    also have "\<dots> = 2 powi (?a - ?b + 1)"
      by (simp add: power_int_diff [symmetric] algebra_simps)
    finally show ?thesis by (simp add: x)
  qed
  show "2 powi dbl_exponent x \<le> x" "x < 2 powi (dbl_exponent x + 1)"
    using lo hi by (auto simp: dbl_exponent_def q Let_def)
qed

lemma round_half_even_err: "\<bar>of_int (round_half_even q) - q\<bar> \<le> 1 / 2"
proof -
  have f: "of_int \<lfloor>q\<rfloor> \<le> q" "q < of_int \<lfloor>q\<rfloor> + 1"
    using floor_correct [of q] by simp_all
  consider "q - of_int \<lfloor>q\<rfloor> < 1 / 2" | "q - of_int \<lfloor>q\<rfloor> > 1 / 2" | "q - of_int \<lfloor>q\<rfloor> = 1 / 2" by linarith
  then show ?thesis
    using f by cases (auto simp: round_half_even_def Let_def abs_le_iff)
qed

lemma round_half_even_int [simp]: "round_half_even (of_int n) = n"
  by (simp add: round_half_even_def Let_def)

lemma round_half_even_mono:
  assumes "p \<le> q"
  shows "round_half_even p \<le> round_half_even q"
proof (cases "\<lfloor>p\<rfloor> = \<lfloor>q\<rfloor>")
  case True
  with assms show ?thesis by (auto simp: round_half_even_def Let_def)
next
  case False
  with floor_mono [OF assms] have "\<lfloor>p\<rfloor> + 1 \<le> \<lfloor>q\<rfloor>" by simp
  moreover have "round_half_even p \<le> \<lfloor>p\<rfloor> + 1" "\<lfloor>q\<rfloor> \<le> round_half_even q"
    by (simp_all add: round_half_even_def Let_def)
  ultimately show ?thesis by linarith
qed

lemma to_double_0 [simp]: "to_double 0 = 0"
  by (simp add: to_double_def)

lemma to_double_err:
  assumes "0 \<le> x"
  shows "to_double x \<le> x + x / 2 ^ 53" and "x - x / 2 ^ 53 \<le> to_double x"
proof -
  have "\<bar>to_double x - x\<bar> \<le> x / 2 ^ 53"
  proof (cases "x = 0")
    case True
    then show ?thesis by simp
  next
    case False
    with assms have x: "0 < x" by simp
    let ?e = "dbl_exponent x" and ?u = "(2 :: rat) powi (dbl_exponent x - 52)"
    have u: "0 < ?u" by simp
    have "to_double x - x = (of_int (round_half_even (x / ?u)) - x / ?u) * ?u"
      using x u by (simp add: to_double_def Let_def left_diff_distrib)
    then have "\<bar>to_double x - x\<bar> = \<bar>of_int (round_half_even (x / ?u)) - x / ?u\<bar> * ?u"
      using u by (simp add: abs_mult)
    also have "\<dots> \<le> 1 / 2 * ?u"
      using round_half_even_err u by (intro mult_right_mono) simp_all
    also have "\<dots> = 2 powi ?e / 2 ^ 53"
      by (simp add: power_int_diff)
    also have "\<dots> \<le> x / 2 ^ 53"
      using dbl_exponent_bounds(1) [OF x] by (intro divide_right_mono) simp_all
    finally show ?thesis .
  qed
  then show "to_double x \<le> x + x / 2 ^ 53" "x - x / 2 ^ 53 \<le> to_double x" by linarith+
qed

text \<open>Integers of 53 bits are represented exactly.\<close>

lemma to_double_nat:
  assumes "n < 2 ^ 53"
  shows "to_double (of_nat n) = of_nat n"
proof (cases "n = 0")
  case True
  then show ?thesis by simp
next
  case False
  then have x: "(0 :: rat) < of_nat n" by simp
  let ?e = "dbl_exponent (of_nat n)"
  have "(2 :: rat) powi ?e < 2 powi 53"
    using dbl_exponent_bounds(1) [OF x] assms
    by (metis of_nat_less_iff of_nat_numeral of_nat_power order_le_less_trans power_int_numeral)
  then have e: "?e < 53"
    by (metis less_le_not_le not_le power_int_increasing one_le_numeral)
  let ?k = "nat (52 - ?e)"
  have u: "(2 :: rat) powi (?e - 52) = 1 / 2 ^ ?k"
    using e by (simp add: power_int_def field_simps)
  have "(of_nat n :: rat) / (1 / 2 ^ ?k) = of_int (int n * 2 ^ ?k)" by simp
  then have "round_half_even (of_nat n / (1 / 2 ^ ?k)) = int n * 2 ^ ?k"
    by (simp only: round_half_even_int)
  then have "to_double (of_nat n) = of_int (int n * 2 ^ ?k) * (1 / 2 ^ ?k)"
    using x by (simp only: to_double_def Let_def u) simp
  then show ?thesis by simp
qed

lemma to_double_range:
  assumes "0 < x"
  shows "2 powi dbl_exponent x \<le> to_double x" and "to_double x \<le> 2 powi (dbl_exponent x + 1)"
proof -
  let ?e = "dbl_exponent x" and ?u = "(2 :: rat) powi (dbl_exponent x - 52)"
  have "2 powi ?e / ?u = (2 :: rat) ^ 52" "2 powi (?e + 1) / ?u = (2 :: rat) ^ 53"
    by (simp_all add: power_int_diff power_int_add)
  moreover have "2 powi ?e / ?u \<le> x / ?u" "x / ?u \<le> 2 powi (?e + 1) / ?u"
    using dbl_exponent_bounds [OF assms] by (intro divide_right_mono; simp)+
  ultimately have "of_int (2 ^ 52) \<le> x / ?u" "x / ?u \<le> of_int (2 ^ 53)" by simp_all
  from this [THEN round_half_even_mono] have "2 ^ 52 \<le> round_half_even (x / ?u)"
    "round_half_even (x / ?u) \<le> 2 ^ 53" by (simp_all only: round_half_even_int)
  then have "(2 ^ 52 :: rat) \<le> of_int (round_half_even (x / ?u))"
    "of_int (round_half_even (x / ?u)) \<le> (2 ^ 53 :: rat)"
    by (metis of_int_le_iff of_int_numeral of_int_power)+
  then have "2 ^ 52 * ?u \<le> to_double x" "to_double x \<le> 2 ^ 53 * ?u"
    using assms by (simp_all add: to_double_def Let_def)
  moreover have "2 ^ 52 * ?u = 2 powi ?e" "2 ^ 53 * ?u = 2 powi (?e + 1)"
    by (simp_all add: power_int_diff power_int_add)
  ultimately show "2 powi ?e \<le> to_double x" "to_double x \<le> 2 powi (?e + 1)" by simp_all
qed

lemma to_double_mono:
  assumes "0 \<le> x" and "x \<le> y"
  shows "to_double x \<le> to_double y"
proof (cases "x = 0")
  case True
  have "0 \<le> y - y / 2 ^ 53" using assms by simp
  with True to_double_err(2) [of y] assms show ?thesis by simp
next
  case False
  with assms have x: "0 < x" and y: "0 < y" by simp_all
  show ?thesis
  proof (cases "dbl_exponent x = dbl_exponent y")
    case True
    with x y assms show ?thesis
      by (auto simp: to_double_def Let_def intro!: mult_right_mono round_half_even_mono divide_right_mono)
  next
    case False
    have "(2 :: rat) powi dbl_exponent x < 2 powi (dbl_exponent y + 1)"
      using dbl_exponent_bounds(1) [OF x] dbl_exponent_bounds(2) [OF y] assms(2) by linarith
    then have "dbl_exponent x < dbl_exponent y + 1"
      by (metis not_le one_le_numeral power_int_increasing)
    with False have "dbl_exponent x + 1 \<le> dbl_exponent y" by simp
    then have "(2 :: rat) powi (dbl_exponent x + 1) \<le> 2 powi dbl_exponent y"
      by (intro power_int_increasing) simp_all
    with to_double_range(2) [OF x] to_double_range(1) [OF y] show ?thesis by linarith
  qed
qed

section \<open>Alignment and the bounds of the adjusted size\<close>

lemma unat_drop_align: "unat (drop_bit ALIGN_SHIFT (c :: u64)) = unat c div 65536"
  by (simp add: drop_bit_eq_div ALIGN_SHIFT_def unat_div_distrib)

lemma unat_push_align: "unat c * 65536 < 2 ^ 64 \<Longrightarrow> unat (push_bit ALIGN_SHIFT (c :: u64)) = unat c * 65536"
  by (simp add: push_bit_eq_mult ALIGN_SHIFT_def unat_word_ariths)

lemma unat_align_add: "unat b < 2 ^ 63 \<Longrightarrow> unat ((b :: u64) + push_bit ALIGN_SHIFT 1 - 1) = unat b + 65535"
proof -
  assume "unat b < 2 ^ 63"
  then have "unat (b + 65535) = unat b + 65535" by (simp add: unat_word_ariths)
  moreover have "b + push_bit ALIGN_SHIFT 1 - 1 = b + 65535" by (simp add: ALIGN_SHIFT_def push_bit_eq_mult)
  ultimately show ?thesis by (simp only:)
qed

lemma unat_align_block_size:
  assumes "unat b < 2 ^ 63"
  shows "unat (align_block_size b) =
    (let a = (unat b + 65535) div 65536 * 65536
     in if a > 1073741824 then 1073741824 else if a = 0 then 65536 else a)"
proof -
  let ?a = "(unat b + 65535) div 65536 * 65536"
  define c where "c = push_bit ALIGN_SHIFT (drop_bit ALIGN_SHIFT (b + push_bit ALIGN_SHIFT 1 - 1))"
  have "?a \<le> unat b + 65535" by simp
  then have "?a < 2 ^ 64" using assms by simp
  then have "unat c = ?a"
    unfolding c_def by (subst unat_push_align) (simp_all only: unat_drop_align unat_align_add [OF assms])
  moreover have "unat (ucast w :: u32) = unat w" if "unat w < 2 ^ 32" for w :: u64
    using that by (simp add: unsigned_ucast_eq take_bit_eq_mod)
  ultimately show ?thesis
    unfolding align_block_size_def c_def [symmetric]
    by (auto simp: Let_def MAX_TRANSFER_BLOCK_SIZE_def word_less_nat_alt
        word_unat_eq_iff ALIGN_SHIFT_def push_bit_eq_mult unsigned_ucast_eq take_bit_eq_mod)
qed

lemma u64_of_dbl_small:
  assumes "0 \<le> x" and "x < 2 ^ 63"
  shows "\<exists>w. u64_of_dbl x = Ret w \<and> unat w = nat \<lfloor>x\<rfloor> \<and> unat w < 2 ^ 63"
proof -
  obtain n where n: "\<lfloor>x\<rfloor> = int n" using assms(1) nonneg_int_cases [of "\<lfloor>x\<rfloor>"] by auto
  have "\<lfloor>x\<rfloor> < 2 ^ 63" unfolding floor_less_iff using assms(2) by simp
  then have "n < 2 ^ 63" unfolding n by (metis of_nat_less_iff of_nat_numeral of_nat_power)
  then have "unat (word_of_nat n :: u64) = n" by (intro unat_word_of_nat_small) simp
  moreover have "u64_of_dbl x = Ret (word_of_nat n)"
    using assms by (simp add: u64_of_dbl_def n)
  ultimately show ?thesis using n \<open>n < 2 ^ 63\<close> by simp
qed

lemma dbl_product:
  assumes "unat b \<le> 2 ^ 30"
  shows "dbl_of_u64 (b * 1000 * 1000) = of_nat (unat b) * 1000000" and "dbl_of_u64 b = of_nat (unat b)"
proof -
  have "unat (b * 1000 * 1000) = unat b * 1000000"
    using assms by (simp add: unat_word_ariths)
  moreover have "unat b * 1000000 < 2 ^ 53" using assms by simp
  ultimately show "dbl_of_u64 (b * 1000 * 1000) = of_nat (unat b) * 1000000"
    using to_double_nat [of "unat b * 1000000"] by (simp add: dbl_of_u64_def)
  have "unat b < 2 ^ 53" using assms by simp
  then show "dbl_of_u64 b = of_nat (unat b)" by (simp only: dbl_of_u64_def to_double_nat)
qed

lemma DECAY_value: "DECAY = 7205759403792794 / 9007199254740992"
  by code_simp

lemma one_minus_DECAY: "dbl_minus 1 DECAY = 1801439850948198 / 9007199254740992"
  by code_simp

text \<open>Above one second the new size is at most the old one.\<close>

lemma slow_bound:
  assumes "0 \<le> b" and "0 \<le> tmp" and "tmp \<le> b * (1000000 / 1000001) * (1 + 1 / 2 ^ 53)"
  shows "dbl_add (dbl_mult b DECAY) (dbl_mult tmp (dbl_minus 1 DECAY)) \<le> b"
    and "0 \<le> dbl_add (dbl_mult b DECAY) (dbl_mult tmp (dbl_minus 1 DECAY))"
proof -
  let ?x = "to_double (b * DECAY)" and ?y = "to_double (tmp * dbl_minus 1 DECAY)"
  have p: "0 \<le> b * DECAY" "0 \<le> tmp * dbl_minus 1 DECAY"
    using assms by (simp_all only: one_minus_DECAY) (simp_all add: DECAY_value)
  from to_double_mono [OF order_refl p(1)] to_double_mono [OF order_refl p(2)]
  have nn: "0 \<le> ?x" "0 \<le> ?y" by simp_all
  have x: "?x \<le> b * (7205759403792794 / 9007199254740992) * (1 + 1 / 2 ^ 53)"
    using to_double_err(1) [OF p(1)] by (simp add: DECAY_value field_simps)
  have y: "?y \<le> tmp * (1801439850948198 / 9007199254740992) * (1 + 1 / 2 ^ 53)"
    using to_double_err(1) [OF p(2)] unfolding one_minus_DECAY by (simp add: field_simps)
  have s: "to_double (?x + ?y) \<le> (?x + ?y) * (1 + 1 / 2 ^ 53)"
    using to_double_err(1) [of "?x + ?y"] nn by (simp add: field_simps)
  from x y s assms show "dbl_add (dbl_mult b DECAY) (dbl_mult tmp (dbl_minus 1 DECAY)) \<le> b"
    by (simp add: dbl_add_def dbl_mult_def field_simps)
  have "to_double 0 \<le> to_double (?x + ?y)" using nn by (intro to_double_mono) simp_all
  then show "0 \<le> dbl_add (dbl_mult b DECAY) (dbl_mult tmp (dbl_minus 1 DECAY))"
    by (simp add: dbl_add_def dbl_mult_def)
qed

text \<open>The size before alignment, in the three branches.\<close>

lemma to_double_of_int: "0 \<le> k \<Longrightarrow> k < 2 ^ 53 \<Longrightarrow> to_double (of_int k) = of_int k"
  using to_double_nat [of "nat k"] by (simp add: nat_less_iff)

lemma unsigned_nonneg [simp]: "0 \<le> (unsigned (b :: u64) :: rat)"
  using of_nat_0_le_iff [of "unat b", where 'a = rat] by simp

lemma scaled_fast:
  assumes b: "0 < unat b" "unat b \<le> 2 ^ 30" and e: "0 < e" "e \<le> 1000000"
  shows "\<exists>w. scaled_block_size e b = Ret w \<and> unat b \<le> unat w \<and> unat w < 2 ^ 63
    \<and> (e = 1000000 \<longrightarrow> unat w = unat b)"
proof -
  let ?b = "of_nat (unat b) :: rat" and ?q = "of_nat (unat b) * 1000000 / of_int e :: rat"
  have eq: "scaled_block_size e b = u64_of_dbl (to_double ?q)"
    using e unfolding scaled_block_size_def dbl_div_def dbl_product [OF b(2)] by (simp add: to_double_of_int)
  have "(of_int e :: rat) \<le> 1000000" using e by simp
  then have "of_int e * ?b \<le> 1000000 * ?b" by (rule mult_right_mono) simp
  then have bq: "?b \<le> ?q" using e by (simp add: pos_le_divide_eq mult.commute)
  have be: "to_double ?b = ?b" using b by (intro to_double_nat) simp
  have lo: "?b \<le> to_double ?q" using to_double_mono [OF _ bq] be by simp
  have "(1 :: rat) \<le> of_int e" using e by simp
  then have "?q \<le> ?b * 1000000 / 1" by (intro divide_left_mono) simp_all
  moreover have "?b \<le> 2 ^ 30" using b by (metis of_nat_le_iff of_nat_numeral of_nat_power)
  ultimately have "?q \<le> 2 ^ 30 * 1000000" by linarith
  moreover have "0 \<le> ?q" using e by simp
  ultimately have "to_double ?q < 2 ^ 63" using to_double_err(1) [of ?q] by simp
  then obtain w where w: "u64_of_dbl (to_double ?q) = Ret w" "unat w = nat \<lfloor>to_double ?q\<rfloor>" "unat w < 2 ^ 63"
    using u64_of_dbl_small [of "to_double ?q"] order_trans [OF of_nat_0_le_iff lo] by blast
  have "int (unat b) \<le> \<lfloor>to_double ?q\<rfloor>" using lo by (simp add: le_floor_iff)
  then have "unat b \<le> unat w" unfolding w(2) by linarith
  moreover have "unat w = unat b" if "e = 1000000"
  proof -
    have "?q = ?b" unfolding that by simp
    then have "unat w = nat \<lfloor>?b\<rfloor>" using w(2) be by (simp only:)
    then show ?thesis by (simp only: floor_of_nat nat_int)
  qed
  ultimately show ?thesis using eq w by simp
qed

lemma scaled_slow:
  assumes b: "0 < unat b" "unat b \<le> 2 ^ 30" and e: "1000000 < e"
  shows "\<exists>w. scaled_block_size e b = Ret w \<and> unat w \<le> unat b \<and> unat w < 2 ^ 63"
proof -
  let ?b = "of_nat (unat b) :: rat" and ?e = "to_double (of_int e)"
  let ?tmp = "to_double (?b * 1000000 / ?e)"
  let ?r = "dbl_add (dbl_mult ?b DECAY) (dbl_mult ?tmp (dbl_minus 1 DECAY))"
  have eq: "scaled_block_size e b = u64_of_dbl ?r"
    using e unfolding scaled_block_size_def dbl_div_def dbl_product [OF b(2)] by simp
  have "(1000001 :: rat) \<le> of_int e" using e by simp
  then have "to_double (of_int 1000001) \<le> ?e" by (intro to_double_mono) simp_all
  moreover have "to_double (of_int 1000001) = of_int 1000001" by (rule to_double_of_int) simp_all
  ultimately have ge: "1000001 \<le> ?e" by (simp only:)
  then have "?b * 1000000 / ?e \<le> ?b * 1000000 / 1000001" by (intro divide_left_mono) simp_all
  then have "?tmp \<le> to_double (?b * 1000000 / 1000001)"
    using ge by (intro to_double_mono) simp_all
  also have "\<dots> \<le> ?b * (1000000 / 1000001) * (1 + 1 / 2 ^ 53)"
    using to_double_err(1) [of "?b * 1000000 / 1000001"] by (simp add: field_simps)
  finally have tmp: "?tmp \<le> ?b * (1000000 / 1000001) * (1 + 1 / 2 ^ 53)" .
  have "to_double 0 \<le> ?tmp" using ge by (intro to_double_mono) simp_all
  then have r: "?r \<le> ?b" "0 \<le> ?r" using slow_bound [OF _ _ tmp] by simp_all
  have "?b \<le> 2 ^ 30" using b by (metis of_nat_le_iff of_nat_numeral of_nat_power)
  with r obtain w where w: "u64_of_dbl ?r = Ret w" "unat w = nat \<lfloor>?r\<rfloor>" "unat w < 2 ^ 63"
    using u64_of_dbl_small [of ?r] by auto
  have "\<lfloor>?r\<rfloor> \<le> int (unat b)" using r(1) by (simp add: floor_le_iff)
  then have "unat w \<le> unat b" unfolding w(2) by linarith
  with eq w show ?thesis by simp
qed

lemma scaled_zero:
  assumes "unat b \<le> 2 ^ 30" and "e \<le> 0"
  shows "scaled_block_size e b = Ret (b * 2) \<and> unat (b * 2) = 2 * unat b \<and> unat (b * 2) < 2 ^ 63"
  using assms by (simp add: scaled_block_size_def unat_word_ariths)

lemma scaled_ret:
  assumes "0 < unat b" "unat b \<le> 2 ^ 30"
  obtains w where "scaled_block_size e b = Ret w" "unat w < 2 ^ 63"
    "e \<le> 1000000 \<longrightarrow> unat b \<le> unat w" "e > 1000000 \<longrightarrow> unat w \<le> unat b" "e = 1000000 \<longrightarrow> unat w = unat b"
proof -
  consider "e \<le> 0" | "0 < e" "e \<le> 1000000" | "1000000 < e" by linarith
  then show thesis
  proof cases
    case 1
    with scaled_zero [OF assms(2) 1] show thesis by (intro that [of "b * 2"]) auto
  next
    case 2
    with scaled_fast [OF assms 2] show thesis by (auto intro: that)
  next
    case 3
    with scaled_slow [OF assms 3] show thesis by (auto intro: that)
  qed
qed

lemma unat_ucast_u64 [simp]: "unat (ucast (b :: u32) :: u64) = unat b"
  using unat_lt_width [of b] by (simp add: unsigned_ucast_eq take_bit_eq_mod)

lemma adjust_block_size_ret:
  assumes "0 < unat b" and "unat b \<le> 2 ^ 30"
  shows "\<exists>b'. adjust_block_size elapsed_usec b = Ret b' \<and> 65536 dvd unat b'
    \<and> 65536 \<le> unat b' \<and> unat b' \<le> 2 ^ 30"
proof -
  have "0 < unat (ucast b :: u64)" "unat (ucast b :: u64) \<le> 2 ^ 30" using assms by simp_all
  then obtain w where "scaled_block_size elapsed_usec (ucast b) = Ret w" "unat w < 2 ^ 63"
    by (rule scaled_ret)
  then show ?thesis
    by (auto simp: adjust_block_size_def unat_align_block_size Let_def)
qed

text \<open>C10: whatever time a block took, the adjustment is defined (no conversion overflows) and gives a
  block size that is a positive multiple of 64K and at most 1 GB, so the loop of \<open>invoke_channel\<close>
  never runs with a zero or oversized block.\<close>

theorem adjust_block_size_bounds:
  assumes "0 < unat b" and "unat b \<le> 2 ^ 30"
  shows "\<exists>b'. adjust_block_size elapsed_usec b = Ret b' \<and> 65536 dvd unat b'
    \<and> 65536 \<le> unat b' \<and> unat b' \<le> 2 ^ 30"
  using assms by (rule adjust_block_size_ret)

theorem adjust_block_size_bounds_witness:
  "\<exists>b'. adjust_block_size 250000 1048576 = Ret b' \<and> 65536 dvd unat b' \<and> 65536 \<le> unat b' \<and> unat b' \<le> 2 ^ 30"
  by (rule adjust_block_size_bounds) simp_all

lemma align_mono: "m \<le> n \<Longrightarrow> (m + 65535) div 65536 * 65536 \<le> (n + 65535) div 65536 * (65536 :: nat)"
  by (intro mult_le_mono1 div_le_mono) simp

lemma align_exact: "65536 dvd n \<Longrightarrow> (n + 65535) div 65536 * 65536 = (n :: nat)"
  by (auto elim!: dvdE)

text \<open>The adaptation goes the right way: from an aligned block size, a block that took at most one
  second never makes the next one smaller, one that took longer never makes it larger, and exactly
  one second leaves the size alone.\<close>

theorem adjust_block_size_direction:
  assumes "65536 dvd unat b" and "0 < unat b" and "unat b \<le> 2 ^ 30" and "adjust_block_size elapsed_usec b = Ret b'"
  shows "(elapsed_usec \<le> 1000000 \<longrightarrow> unat b \<le> unat b') \<and> (elapsed_usec > 1000000 \<longrightarrow> unat b' \<le> unat b)
    \<and> (elapsed_usec = 1000000 \<longrightarrow> b' = b)"
proof -
  have "0 < unat (ucast b :: u64)" "unat (ucast b :: u64) \<le> 2 ^ 30" using assms(2,3) by simp_all
  then obtain w where w: "scaled_block_size elapsed_usec (ucast b) = Ret w" "unat w < 2 ^ 63"
    and dir: "elapsed_usec \<le> 1000000 \<longrightarrow> unat b \<le> unat w" "elapsed_usec > 1000000 \<longrightarrow> unat w \<le> unat b"
      "elapsed_usec = 1000000 \<longrightarrow> unat w = unat b"
    by (rule scaled_ret) simp
  from w assms(4) have b': "unat b' = (let a = (unat w + 65535) div 65536 * 65536
     in if a > 1073741824 then 1073741824 else if a = 0 then 65536 else a)"
    using unat_align_block_size [OF w(2)]
    by (simp only: adjust_block_size_def outcome.case outcome.inject)
  have low: "65536 \<le> unat b" using assms(1,2) by (rule dvd_imp_le)
  note ex = align_exact [OF assms(1)]
  have up: "unat b \<le> unat b'" if "elapsed_usec \<le> 1000000"
    using align_mono [of "unat b" "unat w"] dir(1) that assms(3) low unfolding ex b' Let_def by auto
  have down: "unat b' \<le> unat b" if "unat w \<le> unat b"
    using align_mono [of "unat w" "unat b"] that assms(3) low unfolding ex b' Let_def by auto
  have "b' = b" if "elapsed_usec = 1000000"
    using up down dir(3) that by (simp add: word_unat_eq_iff)
  with up down dir show ?thesis by blast
qed

theorem adjust_block_size_direction_witness:
  "adjust_block_size 0 1048576 = Ret 2097152 \<and> unat (1048576 :: u32) \<le> unat (2097152 :: u32)"
proof -
  have "adjust_block_size 0 1048576 = Ret 2097152" by code_simp
  with adjust_block_size_direction [of 1048576 0 2097152] show ?thesis by simp
qed

end
