(* ===== verification/Block_Channel.thy ===== *)
theory Block_Channel
  imports Messages Gate Blocksize
begin

text \<open>
  The data plane of a transfer (\<open>transfer.h\<close>, \<open>transfer.cpp\<close>): the shared state of a
  \<open>transfer_source\<close> and a \<open>transfer_destination\<close>, the 16-byte block headers, and
  \<open>invoke_channel\<close> of both sides, cut at its accesses to shared state so that several channels can
  be interleaved: a step of a source channel is one \<open>fetch_add\<close> with the tests that follow it, or
  one \<open>send_file\<close> with the adjustment of the block size; a step of a destination channel is one
  \<open>recv\<close> with its tests, the atomic addition to \<open>received_size\<close>, or what follows it.
\<close>

section \<open>State\<close>

record send_file_context =
  curr_offset :: u64
  src_handle :: int

record transfer_source =
  is_transfer_block_size_fixed :: bool
  init_transfer_block_size :: u32
  send_ctx :: "send_file_context list"
  src_info :: "basic_transfer_info option"
  src_transferred_size :: u64
  src_total_size :: u64

text \<open>The pages of the mapped file are the file itself (\<open>MAP_SHARED\<close>).\<close>

record recv_file_context =
  received_size :: u64
  mapped_length :: u64
  dst_file_mapped :: bool
  dst_handle :: int
  dst_pages :: "byte list"

record transfer_destination =
  requested_dst_path :: string
  gate_all_channels_finished :: gate_guard
  recv_ctx :: "recv_file_context list"
  dst_info :: "basic_transfer_info option"
  dst_transferred_size :: u64
  dst_total_size :: u64
  dst_dispose_required :: bool

definition INVALID_FILE_HANDLE :: int where
  "INVALID_FILE_HANDLE = -1"

section \<open>Block headers\<close>

definition block_header :: "endian \<Rightarrow> u64 \<Rightarrow> u32 \<Rightarrow> nat \<Rightarrow> byte list" where
  "block_header h cur block_size n_file =
     store32 h (htonl h (ucast (drop_bit 32 cur)))
     @ store32 h (htonl h (ucast (cur AND 0xFFFFFFFF)))
     @ store32 h (htonl h block_size)
     @ store32 h (htonl h (word_of_nat n_file))"

definition final_tail :: "endian \<Rightarrow> byte list" where
  "final_tail h = store32 h (htonl h 0xFFFFFFFF) @ store32 h (htonl h 0xFFFFFFFF)
     @ store32 h (htonl h 0) @ store32 h (htonl h 0xFFFFFFFF)"

definition parse_block_header :: "endian \<Rightarrow> byte list \<Rightarrow> u64 \<times> u32 \<times> u32" where
  "parse_block_header g header =
     (let offset_high = ntohl g (load32 g (take 4 header));
          offset_low = ntohl g (load32 g (take 4 (drop 4 header)))
      in (push_bit 32 (ucast offset_high) OR ucast offset_low,
          ntohl g (load32 g (take 4 (drop 8 header))),
          ntohl g (load32 g (take 4 (drop 12 header)))))"

section \<open>The source's channel\<close>

datatype source_pc =
    Src_fetch nat u32 \<comment> \<open>before the \<open>fetch_add\<close> on this file, with the current block size\<close>
  | Src_send nat u64 u32 u32 \<comment> \<open>about to send: file, offset, block, current block size\<close>
  | Src_returned bool

record source_channel =
  sc_sock :: os_socket_t
  sc_pc :: source_pc

definition source_channel_start :: "transfer_source \<Rightarrow> os_socket_t \<Rightarrow> source_channel outcome" where
  "source_channel_start src sock =
     (if src_info src = None then Abort
      else if \<not> init_transfer_block_size src > 0 then Abort
      else if \<not> init_transfer_block_size src \<le> MAX_TRANSFER_BLOCK_SIZE then Abort
      else Ret \<lparr>sc_sock = sock, sc_pc = Src_fetch 0 (init_transfer_block_size src)\<rparr>)"

text \<open>\<open>fetch_add\<close> on the file's offset, and the block it dispenses.\<close>

definition fetch_add_offset :: "nat \<Rightarrow> u32 \<Rightarrow> transfer_source \<Rightarrow> u64 \<times> transfer_source" where
  "fetch_add_offset n_file block src =
     (let ctx = send_ctx src ! n_file
      in (curr_offset ctx,
          src\<lparr>send_ctx := (send_ctx src)[n_file := ctx\<lparr>curr_offset := curr_offset ctx + ucast block\<rparr>]\<rparr>))"

definition dispensed_block :: "u64 \<Rightarrow> u32 \<Rightarrow> u64 \<Rightarrow> u32 option" where
  "dispensed_block fsize block cur =
     (if cur \<ge> fsize then None
      else if cur + ucast block \<ge> fsize then Some (ucast (fsize - cur)) else Some block)"

text \<open>
  \<open>contents\<close> is what \<open>sendfile\<close> reads through a file descriptor; \<open>elapsed_usec\<close> the measured time.
\<close>

definition source_channel_step ::
  "endian \<Rightarrow> (int \<Rightarrow> byte list option) \<Rightarrow> int \<Rightarrow> transfer_source \<Rightarrow> source_channel
    \<Rightarrow> source_channel outcome \<times> transfer_source" where
  "source_channel_step h contents elapsed_usec src ch = (case src_info src of
       None \<Rightarrow> (Undefined, src)
     | Some info \<Rightarrow> (case sc_pc ch of
         Src_fetch n_file block \<Rightarrow>
           if n_file < length (files_info info) then
             if n_file < length (send_ctx src) then
               (case fetch_add_offset n_file block src of (cur, src') \<Rightarrow>
                 (case dispensed_block (file_size (files_info info ! n_file)) block cur of
                    None \<Rightarrow> (Ret (ch\<lparr>sc_pc := Src_fetch (n_file + 1) block\<rparr>), src')
                  | Some block_size \<Rightarrow> (Ret (ch\<lparr>sc_pc := Src_send n_file cur block_size block\<rparr>), src')))
             else (Undefined, src)
           else (case socket_send (final_tail h) (sc_sock ch) of (ok, sock) \<Rightarrow>
             (Ret \<lparr>sc_sock = sock, sc_pc = Src_returned ok\<rparr>, src))
       | Src_send n_file cur block_size block \<Rightarrow>
           (case socket_send_file (contents (src_handle (send_ctx src ! n_file))) cur block_size
                   (Some (block_header h cur block_size n_file)) (sc_sock ch) of
              (False, sock) \<Rightarrow> (Ret \<lparr>sc_sock = sock, sc_pc = Src_returned False\<rparr>, src)
            | (True, sock) \<Rightarrow>
                let src' = src\<lparr>src_transferred_size := src_transferred_size src + ucast block_size\<rparr>
                in if is_transfer_block_size_fixed src
                   then (Ret \<lparr>sc_sock = sock, sc_pc = Src_fetch n_file block\<rparr>, src')
                   else (case adjust_block_size elapsed_usec block of
                       Ret block' \<Rightarrow> (Ret \<lparr>sc_sock = sock, sc_pc = Src_fetch n_file block'\<rparr>, src')
                     | Throw e \<Rightarrow> (Throw e, src')
                     | Abort \<Rightarrow> (Abort, src')
                     | Undefined \<Rightarrow> (Undefined, src')))
       | Src_returned ok \<Rightarrow> (Ret ch, src)))"

text \<open>\<open>invoke_portal\<close> of the source waits for the destination's verdict.\<close>

definition source_invoke_portal :: "endian \<Rightarrow> os_socket_t \<Rightarrow> bool outcome \<times> os_socket_t" where
  "source_invoke_portal h sock =
     (case message_recv TRANSFER_DESTINATION_FINISHED load_finished h sock of
        (Ret None, s) \<Rightarrow> (Ret False, s)
      | (Ret (Some msg), s) \<Rightarrow> (Ret (fin_error_code msg = 0), s)
      | (Throw e, s) \<Rightarrow> (Throw e, s)
      | (Abort, s) \<Rightarrow> (Abort, s)
      | (Undefined, s) \<Rightarrow> (Undefined, s))"

section \<open>The destination's channel\<close>

datatype dest_pc =
    Dst_header
  | Dst_body u64 u32 nat \<comment> \<open>offset, block size, file\<close>
  | Dst_account u32 nat
  | Dst_progress u32 nat bool \<comment> \<open>the flag: the file is complete\<close>
  | Dst_returned bool

record dest_channel =
  dc_sock :: os_socket_t
  dc_pc :: dest_pc

definition dest_channel_start :: "os_socket_t \<Rightarrow> dest_channel" where
  "dest_channel_start sock = \<lparr>dc_sock = sock, dc_pc = Dst_header\<rparr>"

definition close_recv_handle :: "recv_file_context \<Rightarrow> recv_file_context" where
  "close_recv_handle ctx =
     (if dst_handle ctx \<noteq> INVALID_FILE_HANDLE then ctx\<lparr>dst_handle := INVALID_FILE_HANDLE\<rparr> else ctx)"

definition unmap_file :: "recv_file_context \<Rightarrow> recv_file_context" where
  "unmap_file ctx =
     (if dst_handle ctx \<noteq> INVALID_FILE_HANDLE then ctx\<lparr>dst_file_mapped := False, mapped_length := 0\<rparr> else ctx)"

text \<open>Returning runs the sweeper, which signals the gate.\<close>

definition dest_channel_return ::
  "bool \<Rightarrow> os_socket_t \<Rightarrow> transfer_destination \<Rightarrow> dest_channel outcome \<times> transfer_destination" where
  "dest_channel_return ok sock d = (case gate_signal (gate_all_channels_finished d) of
       (Ret _, g) \<Rightarrow> (Ret \<lparr>dc_sock = sock, dc_pc = Dst_returned ok\<rparr>, d\<lparr>gate_all_channels_finished := g\<rparr>)
     | (Throw e, g) \<Rightarrow> (Throw e, d)
     | (Abort, g) \<Rightarrow> (Abort, d)
     | (Undefined, g) \<Rightarrow> (Undefined, d))"

definition dest_recv_header ::
  "endian \<Rightarrow> transfer_destination \<Rightarrow> dest_channel \<Rightarrow> dest_channel outcome \<times> transfer_destination" where
  "dest_recv_header g d ch = (case socket_recv 16 (dc_sock ch) of
       (False, _, sock) \<Rightarrow> dest_channel_return False sock d
     | (True, header, sock) \<Rightarrow> (case parse_block_header g header of (offset, block_size, n_file) \<Rightarrow>
         if block_size = 0 then
           if offset = -1 \<and> n_file = -1 then dest_channel_return True sock d else (Abort, d)
         else if \<not> unat n_file < length (recv_ctx d) then (Abort, d)
         else if \<not> dst_file_mapped (recv_ctx d ! unat n_file) then
           if dst_dispose_required d then dest_channel_return False sock d else (Abort, d)
         else (Ret \<lparr>dc_sock = sock, dc_pc = Dst_body offset block_size (unat n_file)\<rparr>, d)))"

text \<open>
  \<open>recv\<close> writes through the mapping: outside the mapped pages, or when the file is no longer mapped,
  that is undefined behaviour. What arrived before a failure is in the pages.
\<close>

definition dest_recv_body ::
  "u64 \<Rightarrow> u32 \<Rightarrow> nat \<Rightarrow> transfer_destination \<Rightarrow> dest_channel \<Rightarrow> dest_channel outcome \<times> transfer_destination" where
  "dest_recv_body offset block_size n_file d ch =
     (let ctx = recv_ctx d ! n_file in
      if \<not> dst_file_mapped ctx \<or> unat offset + unat block_size > length (dst_pages ctx) then (Undefined, d)
      else (case socket_recv block_size (dc_sock ch) of (ok, body, sock) \<Rightarrow>
        let d' = d\<lparr>recv_ctx := (recv_ctx d)[n_file := ctx\<lparr>dst_pages := poke (unat offset) body (dst_pages ctx)\<rparr>]\<rparr>
        in if ok then (Ret \<lparr>dc_sock = sock, dc_pc = Dst_account block_size n_file\<rparr>, d')
           else dest_channel_return False sock d'))"

definition dest_account ::
  "u32 \<Rightarrow> nat \<Rightarrow> transfer_destination \<Rightarrow> dest_channel \<Rightarrow> dest_channel outcome \<times> transfer_destination" where
  "dest_account block_size n_file d ch = (case dst_info d of
       None \<Rightarrow> (Undefined, d)
     | Some info \<Rightarrow>
         let fsize = file_size (files_info info ! n_file);
             ctx = recv_ctx d ! n_file;
             curr_received_size = received_size ctx + ucast block_size;
             d' = d\<lparr>recv_ctx := (recv_ctx d)[n_file := ctx\<lparr>received_size := curr_received_size\<rparr>]\<rparr>
         in if curr_received_size \<le> fsize
            then (Ret (ch\<lparr>dc_pc := Dst_progress block_size n_file (curr_received_size = fsize)\<rparr>), d')
            else (Abort, d'))"

definition dest_progress :: "u32 \<Rightarrow> nat \<Rightarrow> bool \<Rightarrow> transfer_destination \<Rightarrow> transfer_destination" where
  "dest_progress block_size n_file is_done d =
     (let ctx = recv_ctx d ! n_file;
          d' = (if is_done then d\<lparr>recv_ctx := (recv_ctx d)[n_file := close_recv_handle (unmap_file ctx)]\<rparr> else d)
      in d'\<lparr>dst_transferred_size := dst_transferred_size d' + ucast block_size\<rparr>)"

definition dest_channel_step ::
  "endian \<Rightarrow> transfer_destination \<Rightarrow> dest_channel \<Rightarrow> dest_channel outcome \<times> transfer_destination" where
  "dest_channel_step g d ch = (case dc_pc ch of
       Dst_header \<Rightarrow> dest_recv_header g d ch
     | Dst_body offset block_size n_file \<Rightarrow> dest_recv_body offset block_size n_file d ch
     | Dst_account block_size n_file \<Rightarrow> dest_account block_size n_file d ch
     | Dst_progress block_size n_file is_done \<Rightarrow>
         (Ret (ch\<lparr>dc_pc := Dst_header\<rparr>), dest_progress block_size n_file is_done d)
     | Dst_returned ok \<Rightarrow> (Ret ch, d))"

text \<open>\<open>invoke_portal\<close> of the destination blocks (\<open>None\<close>) until the gate opens, then reports success.\<close>

definition dest_invoke_portal ::
  "endian \<Rightarrow> transfer_destination \<Rightarrow> os_socket_t \<Rightarrow> bool option outcome \<times> os_socket_t" where
  "dest_invoke_portal h d sock = (case gate_wait (gate_all_channels_finished d) of
       Ret None \<Rightarrow> (Ret None, sock)
     | Ret (Some _) \<Rightarrow>
         (case message_send TRANSFER_DESTINATION_FINISHED save_finished h
                 \<lparr>fin_error_code = 0, fin_error_message = []\<rparr> sock of
            (Ret ok, s) \<Rightarrow> (Ret (Some ok), s)
          | (Throw e, s) \<Rightarrow> (Throw e, s)
          | (Abort, s) \<Rightarrow> (Abort, s)
          | (Undefined, s) \<Rightarrow> (Undefined, s))
     | Throw e \<Rightarrow> (Throw e, sock)
     | Abort \<Rightarrow> (Abort, sock)
     | Undefined \<Rightarrow> (Undefined, sock))"

section \<open>The headers\<close>

lemma length_block_header [simp]: "length (block_header h o' l n) = 16"
  by (simp add: block_header_def)

lemma length_final_tail [simp]: "length (final_tail h) = 16"
  by (simp add: final_tail_def)

lemma join_halves:
  "push_bit 32 (ucast (ucast (drop_bit 32 w) :: u32)) OR ucast (ucast (w AND 0xFFFFFFFF) :: u32) = (w :: u64)"
proof (rule bit_word_eqI)
  fix i
  assume i: "i < LENGTH(64)"
  have m: "bit (0xFFFFFFFF :: u64) i \<longleftrightarrow> i < 32"
  proof -
    have "(0xFFFFFFFF :: u64) = mask 32" by (simp add: mask_eq_exp_minus_1)
    then have "bit (0xFFFFFFFF :: u64) i \<longleftrightarrow> bit (mask 32 :: u64) i" by (simp only:)
    also have "\<dots> \<longleftrightarrow> i < 32" using i by (simp only: bit_mask_iff) auto
    finally show ?thesis .
  qed
  show "bit (push_bit 32 (ucast (ucast (drop_bit 32 w) :: u32)) OR ucast (ucast (w AND 0xFFFFFFFF) :: u32) :: u64) i
    = bit w i"
  proof (cases "i < 32")
    case True
    with i m show ?thesis by (simp add: bit_or_iff bit_push_bit_iff bit_ucast_iff bit_and_iff)
  next
    case False
    moreover from i False have "i - 32 < 64" "i - 32 < 32" by simp_all
    ultimately show ?thesis using i m
      by (simp add: bit_or_iff bit_push_bit_iff bit_ucast_iff bit_and_iff bit_drop_bit_eq)
  qed
qed

text \<open>The destination reads what the source wrote, whatever the two hosts are.\<close>

lemma parse_stores:
  "parse_block_header g (store32 h (htonl h a) @ store32 h (htonl h b) @ store32 h (htonl h c) @ store32 h (htonl h d))
    = (push_bit 32 (ucast a) OR ucast b, c, d)"
  by (simp add: parse_block_header_def Let_def store32_htonl htonl_load32)

lemma parse_block_header_block [simp]:
  "parse_block_header g (block_header h cur block_size n_file) = (cur, block_size, word_of_nat n_file)"
  unfolding block_header_def parse_stores by (simp add: join_halves)

lemma parse_block_header_tail [simp]: "parse_block_header g (final_tail h) = (-1, 0, -1)"
  unfolding final_tail_def parse_stores by (simp add: push_bit_eq_mult)

end
