(* ===== verification/Tiling.thy ===== *)
theory Tiling
  imports Main "HOL-Library.Multiset"
begin

text \<open>
  Intervals handed out by a shared counter: a list of offsets and lengths that tiles a range, the
  same up to the order in which the pieces are finished (a multiset), and sums over the channels
  that hold them. A piece is a triple of file number, offset and length.
\<close>

type_synonym piece = "nat \<times> nat \<times> nat"

fun piece_start :: "piece \<Rightarrow> nat" where "piece_start (n, p, l) = p"

fun piece_length :: "piece \<Rightarrow> nat" where "piece_length (n, p, l) = l"

fun tiles :: "nat \<Rightarrow> piece list \<Rightarrow> nat \<Rightarrow> bool" where
  "tiles a [] b \<longleftrightarrow> a = b"
| "tiles a (x # xs) b \<longleftrightarrow> piece_start x = a \<and> 0 < piece_length x \<and> tiles (a + piece_length x) xs b"

lemma tiles_snoc: "tiles a xs b \<Longrightarrow> piece_start x = b \<Longrightarrow> 0 < piece_length x \<Longrightarrow> tiles a (xs @ [x]) (b + piece_length x)"
  by (induction a xs b rule: tiles.induct) auto

lemma tiles_sum: "tiles a xs b \<Longrightarrow> b = a + sum_list (map piece_length xs)"
  by (induction a xs b rule: tiles.induct) auto

lemma tiles_bounds: "tiles a xs b \<Longrightarrow> x \<in> set xs \<Longrightarrow> a \<le> piece_start x \<and> piece_start x + piece_length x \<le> b"
proof (induction a xs b rule: tiles.induct)
  case (2 a y xs b)
  then show ?case using tiles_sum [of "a + piece_length y" xs b] by fastforce
qed simp

lemma tiles_cover: "tiles a xs b \<Longrightarrow> a \<le> i \<Longrightarrow> i < b \<Longrightarrow> \<exists>x\<in>set xs. piece_start x \<le> i \<and> i < piece_start x + piece_length x"
proof (induction a xs b rule: tiles.induct)
  case (2 a y xs b)
  then show ?case by (cases "i < a + piece_length y") auto
qed simp

lemma pair_subset_add:
  assumes "x \<noteq> z" and "y \<noteq> z" and s: "{#x, y#} \<subseteq># add_mset z M"
  shows "{#x, y#} \<subseteq># M"
  unfolding subseteq_mset_def
proof
  fix v
  from s have "count {#x, y#} v \<le> count (add_mset z M) v" by (rule mset_subset_eq_count)
  with assms(1,2) show "count {#x, y#} v \<le> count M v" by (cases "v = z") auto
qed

text \<open>Two different occurrences do not overlap.\<close>

lemma tiles_disjoint:
  "tiles a xs b \<Longrightarrow> {#x, y#} \<subseteq># mset xs
    \<Longrightarrow> piece_start x + piece_length x \<le> piece_start y \<or> piece_start y + piece_length y \<le> piece_start x"
proof (induction a xs b rule: tiles.induct)
  case (2 a z xs b)
  from "2.prems"(1) have z: "piece_start z = a" and t: "tiles (a + piece_length z) xs b" by auto
  consider "x = z" | "y = z" | "x \<noteq> z" "y \<noteq> z" by blast
  then show ?case
  proof cases
    case 1
    with "2.prems"(2) have "y \<in># mset xs" by (simp add: mset_subset_eq_single)
    then have "a + piece_length z \<le> piece_start y" using tiles_bounds [OF t] by simp
    with 1 z show ?thesis by simp
  next
    case 2
    with "2.prems"(2) have "x \<in># mset xs" by (simp add: add_mset_commute mset_subset_eq_single)
    then have "a + piece_length z \<le> piece_start x" using tiles_bounds [OF t] by simp
    with 2 z show ?thesis by simp
  next
    case 3
    from "2.prems"(2) have "{#x, y#} \<subseteq># add_mset z (mset xs)" by (simp only: mset.simps)
    with 3 have "{#x, y#} \<subseteq># mset xs" by (rule pair_subset_add)
    with t "2.IH" show ?thesis by blast
  qed
qed simp

section \<open>Multisets of pieces\<close>

definition bytes_of :: "piece multiset \<Rightarrow> nat" where
  "bytes_of M = (\<Sum>x\<in>#M. piece_length x)"

lemma bytes_of_add [simp]: "bytes_of (M + N) = bytes_of M + bytes_of N" "bytes_of {#} = 0" "bytes_of {#x#} = piece_length x"
  "bytes_of (add_mset x M) = piece_length x + bytes_of M"
  by (simp_all add: bytes_of_def)

definition tiling :: "piece multiset \<Rightarrow> nat \<Rightarrow> bool" where
  "tiling M b \<longleftrightarrow> (\<exists>xs. mset xs = M \<and> tiles 0 xs b)"

lemma tiling_bytes: "tiling M b \<Longrightarrow> bytes_of M = b"
  unfolding tiling_def bytes_of_def by (auto dest!: tiles_sum simp: sum_mset_sum_list mset_map [symmetric] simp del: mset_map)

lemma tiling_empty: "tiling {#} 0"
  by (simp add: tiling_def)

lemma tiling_add: "tiling M b \<Longrightarrow> piece_start x = b \<Longrightarrow> 0 < piece_length x \<Longrightarrow> tiling (M + {#x#}) (b + piece_length x)"
  unfolding tiling_def by (metis tiles_snoc mset_append mset.simps)

lemma tiling_cover: "tiling M b \<Longrightarrow> i < b \<Longrightarrow> \<exists>x\<in>#M. piece_start x \<le> i \<and> i < piece_start x + piece_length x"
  unfolding tiling_def using tiles_cover by fastforce

lemma tiling_disjoint:
  "tiling M b \<Longrightarrow> {#x, y#} \<subseteq># M
    \<Longrightarrow> piece_start x + piece_length x \<le> piece_start y \<or> piece_start y + piece_length y \<le> piece_start x"
  unfolding tiling_def using tiles_disjoint by blast

lemma tiling_bounds: "tiling M b \<Longrightarrow> x \<in># M \<Longrightarrow> piece_start x + piece_length x \<le> b"
  unfolding tiling_def using tiles_bounds by fastforce

section \<open>Sums over channels\<close>

text \<open>Changing one channel changes one summand.\<close>

lemma sum_channel:
  fixes f :: "'c \<Rightarrow> 'a :: comm_monoid_add"
  assumes "k < (n :: nat)"
  obtains z where "(\<Sum>c<n. f (g c)) = z + f (g k)" and "\<And>x. (\<Sum>c<n. f ((g(k := x)) c)) = z + f x"
proof
  have k: "k \<in> {..<n}" using assms by simp
  show "(\<Sum>c<n. f (g c)) = (\<Sum>c\<in>{..<n} - {k}. f (g c)) + f (g k)"
    by (simp add: sum.remove [OF _ k] add.commute)
  fix x
  have "(\<Sum>c\<in>{..<n} - {k}. f ((g(k := x)) c)) = (\<Sum>c\<in>{..<n} - {k}. f (g c))"
    by (rule sum.cong) auto
  then show "(\<Sum>c<n. f ((g(k := x)) c)) = (\<Sum>c\<in>{..<n} - {k}. f (g c)) + f x"
    by (simp add: sum.remove [OF _ k] add.commute)
qed

lemma sum_same:
  fixes f :: "'c \<Rightarrow> 'a :: comm_monoid_add"
  shows "f x = f (g k) \<Longrightarrow> (\<Sum>c<n. f ((g(k := x)) c)) = (\<Sum>c<n. f (g c))"
  by (rule sum.cong) auto

lemma sum_part:
  fixes f :: "nat \<Rightarrow> 'b multiset"
  shows "k < n \<Longrightarrow> f k \<subseteq># (\<Sum>c<n. f c)"
  by (simp add: sum.remove [of _ k])

end
