(* ===== verification/Channels.thy ===== *)
theory Channels
  imports Block_Channel Tiling
begin

text \<open>
  All channels of one transfer, interleaved: \<open>C\<close> threads run \<open>invoke_channel\<close> on the source,
  \<open>C\<close> on the destination, and channel \<open>k\<close> of one side is connected to channel \<open>k\<close> of the other.
  The scheduler picks any thread; the elapsed time a source channel measures, the number of bytes a
  connection accepts before it breaks (\<open>send_room\<close>), and when a destination socket is closed are
  arbitrary. The destination reads what the source has written; a receive that finds too few bytes
  blocks until the source has returned.
\<close>

section \<open>The system\<close>

text \<open>
  \<open>cn_blocks\<close> and \<open>cn_got\<close> are not in the code: the blocks the source channel has tried to send,
  and how many of them the destination channel has accounted for.
\<close>

record conn =
  cn_src :: source_channel
  cn_dst :: dest_channel
  cn_consumed :: nat
  cn_blocks :: "piece list"
  cn_got :: nat

record xfer =
  xf_src :: transfer_source
  xf_dst :: transfer_destination
  xf_conns :: "nat \<Rightarrow> conn"

fun dest_needs :: "dest_pc \<Rightarrow> nat" where
  "dest_needs Dst_header = 16"
| "dest_needs (Dst_body p l n) = unat l"
| "dest_needs (Dst_account l n) = 0"
| "dest_needs (Dst_progress l n f) = 0"
| "dest_needs (Dst_returned ok) = 0"

definition avail :: "conn \<Rightarrow> byte list" where
  "avail c = drop (cn_consumed c) (outbox (sc_sock (cn_src c)))"

definition src_returned :: "source_channel \<Rightarrow> bool" where
  "src_returned ch \<longleftrightarrow> (\<exists>ok. sc_pc ch = Src_returned ok)"

text \<open>The destination's channel with what it can read now, and whether it would block.\<close>

definition dst_ready :: "conn \<Rightarrow> dest_channel" where
  "dst_ready c = (cn_dst c)\<lparr>dc_sock := (dc_sock (cn_dst c))\<lparr>inbox := avail c\<rparr>\<rparr>"

definition dst_enabled :: "conn \<Rightarrow> bool" where
  "dst_enabled c \<longleftrightarrow> dest_needs (dc_pc (cn_dst c)) \<le> length (avail c) \<or> src_returned (cn_src c)
     \<or> \<not> sock_open (dc_sock (cn_dst c))"

definition src_sent :: "source_pc \<Rightarrow> piece list" where
  "src_sent p = (case p of Src_send n pos l b \<Rightarrow> [(n, unat pos, unat l)] | _ \<Rightarrow> [])"

definition src_moved :: "conn \<Rightarrow> source_channel \<Rightarrow> conn" where
  "src_moved c ch = c\<lparr>cn_src := ch, cn_blocks := cn_blocks c @ src_sent (sc_pc (cn_src c))\<rparr>"

definition dst_moved :: "conn \<Rightarrow> dest_channel \<Rightarrow> conn" where
  "dst_moved c ch = c\<lparr>cn_dst := ch,
     cn_consumed := length (outbox (sc_sock (cn_src c))) - length (inbox (dc_sock ch)),
     cn_got := (case dc_pc (cn_dst c) of Dst_account l n \<Rightarrow> Suc (cn_got c) | _ \<Rightarrow> cn_got c)\<rparr>"

inductive xfer_step ::
  "endian \<Rightarrow> endian \<Rightarrow> (int \<Rightarrow> byte list option) \<Rightarrow> nat \<Rightarrow> xfer \<Rightarrow> xfer \<Rightarrow> bool"
  for h g contents C where
  src_move: "k < C \<Longrightarrow> source_channel_step h contents e (xf_src s) (cn_src (xf_conns s k)) = (Ret ch, src')
    \<Longrightarrow> xfer_step h g contents C s
          (s\<lparr>xf_src := src', xf_conns := (xf_conns s)(k := src_moved (xf_conns s k) ch)\<rparr>)"
| dst_move: "k < C \<Longrightarrow> dst_enabled (xf_conns s k)
    \<Longrightarrow> dest_channel_step g (xf_dst s) (dst_ready (xf_conns s k)) = (Ret ch, dst')
    \<Longrightarrow> xfer_step h g contents C s
          (s\<lparr>xf_dst := dst', xf_conns := (xf_conns s)(k := dst_moved (xf_conns s k) ch)\<rparr>)"
| dst_close: "k < C \<Longrightarrow> c = xf_conns s k
    \<Longrightarrow> xfer_step h g contents C s
          (s\<lparr>xf_conns := (xf_conns s)(k := c\<lparr>cn_dst := (cn_dst c)\<lparr>dc_sock := non_thread_safe_close (dc_sock (cn_dst c))\<rparr>\<rparr>)\<rparr>)"

text \<open>
  The state in which both sides enter \<open>invoke_channel\<close>: the destination has been initialised with
  the source's description, its files have their final length and are mapped unless empty, and the
  gate waits for all channels.
\<close>

definition file_data :: "(int \<Rightarrow> byte list option) \<Rightarrow> transfer_source \<Rightarrow> nat \<Rightarrow> byte list" where
  "file_data contents src n = (case contents (src_handle (send_ctx src ! n)) of Some d \<Rightarrow> d | None \<Rightarrow> [])"

definition xfer_initial :: "(int \<Rightarrow> byte list option) \<Rightarrow> nat \<Rightarrow> basic_transfer_info \<Rightarrow> xfer \<Rightarrow> bool" where
  "xfer_initial contents C info s \<longleftrightarrow>
     (let src = xf_src s; dst = xf_dst s; F = length (files_info info) in
       src_info src = Some info \<and> dst_info dst = Some info \<and> F < 2 ^ 32
       \<and> length (send_ctx src) = F \<and> length (recv_ctx dst) = F
       \<and> (\<forall>n<F. let fsize = unat (file_size (files_info info ! n)); r = recv_ctx dst ! n in
            curr_offset (send_ctx src ! n) = 0
            \<and> (\<exists>d. contents (src_handle (send_ctx src ! n)) = Some d \<and> length d = fsize)
            \<and> fsize + (C + 1) * 2 ^ 30 < 2 ^ 64
            \<and> received_size r = 0 \<and> length (dst_pages r) = fsize
            \<and> (0 < fsize \<longrightarrow> dst_file_mapped r \<and> dst_handle r \<noteq> INVALID_FILE_HANDLE))
       \<and> gate_valid (gate_all_channels_finished dst) \<and> gate_needed (gate_all_channels_finished dst) = C
       \<and> \<not> dst_dispose_required dst
       \<and> (\<forall>k<C. \<exists>sock sock'. outbox sock = [] \<and> source_channel_start src sock = Ret (cn_src (xf_conns s k))
            \<and> cn_dst (xf_conns s k) = dest_channel_start sock'
            \<and> cn_consumed (xf_conns s k) = 0 \<and> cn_blocks (xf_conns s k) = [] \<and> cn_got (xf_conns s k) = 0))"

inductive xfer_reachable ::
  "endian \<Rightarrow> endian \<Rightarrow> (int \<Rightarrow> byte list option) \<Rightarrow> nat \<Rightarrow> basic_transfer_info \<Rightarrow> xfer \<Rightarrow> bool"
  for h g contents C info where
  xfer_first: "xfer_initial contents C info s \<Longrightarrow> xfer_reachable h g contents C info s"
| xfer_next: "xfer_reachable h g contents C info s \<Longrightarrow> xfer_step h g contents C s s'
    \<Longrightarrow> xfer_reachable h g contents C info s'"

section \<open>The invariant\<close>

text \<open>What is on the wire of a channel: the frames of its blocks, then the tail.\<close>

fun frame :: "endian \<Rightarrow> (nat \<Rightarrow> byte list) \<Rightarrow> piece \<Rightarrow> byte list" where
  "frame h data (n, p, l) = block_header h (word_of_nat p) (word_of_nat l) n @ take l (drop p (data n))"

definition frames :: "endian \<Rightarrow> (nat \<Rightarrow> byte list) \<Rightarrow> piece list \<Rightarrow> byte list" where
  "frames h data bs = concat (map (frame h data) bs)"

fun block_ok :: "(nat \<Rightarrow> byte list) \<Rightarrow> nat \<Rightarrow> piece \<Rightarrow> bool" where
  "block_ok data F (n, p, l) \<longleftrightarrow> n < F \<and> 0 < l \<and> l \<le> 2 ^ 30 \<and> p + l \<le> length (data n) \<and> length (data n) < 2 ^ 64"

definition block_size_ok :: "u32 \<Rightarrow> bool" where
  "block_size_ok b \<longleftrightarrow> 0 < unat b \<and> unat b \<le> 2 ^ 30"

definition src_inv :: "endian \<Rightarrow> (nat \<Rightarrow> byte list) \<Rightarrow> nat \<Rightarrow> conn \<Rightarrow> bool" where
  "src_inv h data F c \<longleftrightarrow> list_all (block_ok data F) (cn_blocks c)
     \<and> (let out = outbox (sc_sock (cn_src c)); fs = frames h data (cn_blocks c) in
       case sc_pc (cn_src c) of
         Src_fetch n b \<Rightarrow> out = fs \<and> n \<le> F \<and> block_size_ok b
       | Src_send n p l b \<Rightarrow> out = fs \<and> block_ok data F (n, unat p, unat l) \<and> block_size_ok b
       | Src_returned ok \<Rightarrow> (\<exists>r. out @ r = fs @ final_tail h \<and> (ok \<longleftrightarrow> r = [])))"

definition dst_inv :: "endian \<Rightarrow> (nat \<Rightarrow> byte list) \<Rightarrow> conn \<Rightarrow> bool" where
  "dst_inv h data c \<longleftrightarrow> cn_got c \<le> length (cn_blocks c)
     \<and> cn_consumed c \<le> length (outbox (sc_sock (cn_src c)))
     \<and> (let got = cn_got c; done = length (frames h data (take got (cn_blocks c))) in
       case dc_pc (cn_dst c) of
         Dst_header \<Rightarrow> cn_consumed c = done
       | Dst_body p l n \<Rightarrow> got < length (cn_blocks c) \<and> cn_blocks c ! got = (n, unat p, unat l)
           \<and> cn_consumed c = done + 16
       | Dst_account l n \<Rightarrow> got < length (cn_blocks c) \<and> (\<exists>p. cn_blocks c ! got = (n, p, unat l))
           \<and> cn_consumed c = length (frames h data (take (Suc got) (cn_blocks c)))
       | Dst_progress l n f \<Rightarrow> cn_consumed c = done
       | Dst_returned ok \<Rightarrow> ok \<longrightarrow> got = length (cn_blocks c) \<and> sc_pc (cn_src c) = Src_returned True)"

text \<open>
  The blocks of one file that a channel holds: accounted for, written but not accounted for, and
  the others, the one about to be sent included.
\<close>

definition of_file :: "nat \<Rightarrow> piece list \<Rightarrow> piece multiset" where
  "of_file n bs = mset (filter (\<lambda>b. fst b = n) bs)"

definition acc_blocks :: "nat \<Rightarrow> conn \<Rightarrow> piece multiset" where
  "acc_blocks n c = of_file n (take (cn_got c) (cn_blocks c))"

definition landed :: "conn \<Rightarrow> nat" where
  "landed c = (case dc_pc (cn_dst c) of Dst_account l n \<Rightarrow> 1 | _ \<Rightarrow> 0)"

definition mid_blocks :: "nat \<Rightarrow> conn \<Rightarrow> piece multiset" where
  "mid_blocks n c = of_file n (take (landed c) (drop (cn_got c) (cn_blocks c)))"

definition rest_blocks :: "nat \<Rightarrow> conn \<Rightarrow> piece multiset" where
  "rest_blocks n c = of_file n (drop (cn_got c + landed c) (cn_blocks c) @ src_sent (sc_pc (cn_src c)))"

definition all_of :: "nat \<Rightarrow> (conn \<Rightarrow> piece multiset) \<Rightarrow> (nat \<Rightarrow> conn) \<Rightarrow> piece multiset" where
  "all_of C f conns = (\<Sum>k<C. f (conns k))"

text \<open>How far a channel's \<open>fetch_add\<close> may have overshot a file, and whether it has seen its end.\<close>

definition overshot :: "nat \<Rightarrow> conn \<Rightarrow> nat" where
  "overshot n c = (case sc_pc (cn_src c) of
       Src_fetch m b \<Rightarrow> if n < m then 2 ^ 30 else 0
     | Src_send m p l b \<Rightarrow> if n < m then 2 ^ 30 else 0
     | Src_returned ok \<Rightarrow> 2 ^ 30)"

definition exhausted :: "nat \<Rightarrow> conn \<Rightarrow> bool" where
  "exhausted n c \<longleftrightarrow> (case sc_pc (cn_src c) of
       Src_fetch m b \<Rightarrow> n < m
     | Src_send m p l b \<Rightarrow> n < m
     | Src_returned ok \<Rightarrow> ok)"

definition block_equal :: "byte list \<Rightarrow> byte list \<Rightarrow> piece \<Rightarrow> bool" where
  "block_equal pages d x \<longleftrightarrow> take (piece_length x) (drop (piece_start x) pages)
     = take (piece_length x) (drop (piece_start x) d)"

text \<open>The invariant of file \<open>n\<close>, with its source contents \<open>d\<close>.\<close>

definition file_inv :: "nat \<Rightarrow> nat \<Rightarrow> byte list \<Rightarrow> send_file_context \<Rightarrow> recv_file_context \<Rightarrow> (nat \<Rightarrow> conn) \<Rightarrow> bool" where
  "file_inv C n d sc rc conns \<longleftrightarrow>
     (let acc = all_of C (acc_blocks n) conns; mid = all_of C (mid_blocks n) conns;
          rest = all_of C (rest_blocks n) conns in
       tiling (acc + mid + rest) (min (unat (curr_offset sc)) (length d))
       \<and> unat (curr_offset sc) \<le> length d + 2 ^ 30 + (\<Sum>k<C. overshot n (conns k))
       \<and> (\<forall>k<C. exhausted n (conns k) \<longrightarrow> length d \<le> unat (curr_offset sc))
       \<and> unat (received_size rc) = bytes_of acc
       \<and> length (dst_pages rc) = length d
       \<and> (\<forall>x\<in>#acc + mid. block_equal (dst_pages rc) d x)
       \<and> (bytes_of acc < length d \<longrightarrow> dst_file_mapped rc \<and> dst_handle rc \<noteq> INVALID_FILE_HANDLE)
       \<and> (\<forall>k<C. \<forall>l. dc_pc (cn_dst (conns k)) = Dst_progress l n True \<longrightarrow> bytes_of acc = length d))"

definition dst_running :: "conn \<Rightarrow> nat" where
  "dst_running c = (case dc_pc (cn_dst c) of Dst_returned ok \<Rightarrow> 0 | _ \<Rightarrow> 1)"

definition xfer_inv :: "endian \<Rightarrow> (int \<Rightarrow> byte list option) \<Rightarrow> nat \<Rightarrow> basic_transfer_info \<Rightarrow> (nat \<Rightarrow> byte list) \<Rightarrow> xfer \<Rightarrow> bool" where
  "xfer_inv h contents C info data s \<longleftrightarrow>
     (let src = xf_src s; dst = xf_dst s; F = length (files_info info) in
       src_info src = Some info \<and> dst_info dst = Some info \<and> F < 2 ^ 32
       \<and> length (send_ctx src) = F \<and> length (recv_ctx dst) = F
       \<and> (\<forall>n<F. contents (src_handle (send_ctx src ! n)) = Some (data n)
            \<and> length (data n) = unat (file_size (files_info info ! n))
            \<and> length (data n) + (C + 1) * 2 ^ 30 < 2 ^ 64)
       \<and> gate_valid (gate_all_channels_finished dst)
       \<and> gate_needed (gate_all_channels_finished dst) = (\<Sum>k<C. dst_running (xf_conns s k))
       \<and> \<not> dst_dispose_required dst
       \<and> (\<forall>k<C. src_inv h data F (xf_conns s k) \<and> dst_inv h data (xf_conns s k))
       \<and> (\<forall>n<F. file_inv C n (data n) (send_ctx src ! n) (recv_ctx dst ! n) (xf_conns s)))"

section \<open>Lemmas on frames and totals\<close>

lemma frames_simps [simp]:
  "frames h data [] = []" "frames h data (x # xs) = frame h data x @ frames h data xs"
  "frames h data (xs @ ys) = frames h data xs @ frames h data ys"
  by (simp_all add: frames_def)

lemma of_file_simps [simp]:
  "of_file n [] = {#}" "of_file n (xs @ ys) = of_file n xs + of_file n ys"
  "of_file n (x # xs) = (if fst x = n then {#x#} else {#}) + of_file n xs"
  by (simp_all add: of_file_def)

lemma of_file_mem: "x \<in># of_file n xs \<longleftrightarrow> x \<in> set xs \<and> fst x = n"
  by (auto simp: of_file_def)

lemma all_of_upd:
  assumes "k < C"
  obtains z where "all_of C f conns = z + f (conns k)" and "\<And>x. all_of C f (conns(k := x)) = z + f x"
  unfolding all_of_def by (rule sum_channel [OF assms, of f conns]) blast

lemma all_of_same: "f x = f (conns k) \<Longrightarrow> all_of C f (conns(k := x)) = all_of C f conns"
  unfolding all_of_def by (rule sum_same)

lemma all_of_sub:
  assumes "k < C"
  shows "f (conns k) \<subseteq># all_of C f conns"
  unfolding all_of_def using sum_part [OF assms, where f = "\<lambda>c. f (conns c)"] .

lemma all_of_part:
  assumes "k < C" and "x \<in># f (conns k)"
  shows "x \<in># all_of C f conns"
  using mset_subset_eqD [OF all_of_sub [OF assms(1), of f conns] assms(2)] .

lemma src_sent_simps [simp]:
  "src_sent (Src_fetch n b) = []" "src_sent (Src_send n p l b) = [(n, unat p, unat l)]"
  "src_sent (Src_returned ok) = []"
  by (simp_all add: src_sent_def)

lemma overshot_le: "overshot n c \<le> 2 ^ 30"
  by (simp add: overshot_def split: source_pc.split)

lemma sum_overshot_le: "(\<Sum>k<C. overshot n (conns k)) \<le> C * 2 ^ 30"
  using sum_bounded_above [of "{..<C}" "\<lambda>k. overshot n (conns k)" "2 ^ 30"] overshot_le by simp

lemma file_inv_offset:
  "file_inv C n d sc rc conns \<Longrightarrow> unat (curr_offset sc) \<le> length d + (C + 1) * 2 ^ 30"
  using sum_overshot_le [where n = n and conns = conns and C = C] by (simp add: file_inv_def Let_def)

text \<open>A step of a channel that leaves a file alone.\<close>

lemma file_inv_conn:
  assumes inv: "file_inv C n d sc rc conns" and k: "k < C"
    and same: "acc_blocks n c = acc_blocks n (conns k)" "mid_blocks n c = mid_blocks n (conns k)"
      "rest_blocks n c = rest_blocks n (conns k)"
    and over: "overshot n (conns k) \<le> overshot n c"
    and ex: "exhausted n c \<Longrightarrow> exhausted n (conns k) \<or> length d \<le> unat (curr_offset sc)"
    and prog: "\<And>l. dc_pc (cn_dst c) = Dst_progress l n True
      \<Longrightarrow> dc_pc (cn_dst (conns k)) = Dst_progress l n True \<or> bytes_of (all_of C (acc_blocks n) conns) = length d"
  shows "file_inv C n d sc rc (conns(k := c))"
proof -
  have t: "all_of C (acc_blocks n) (conns(k := c)) = all_of C (acc_blocks n) conns"
    "all_of C (mid_blocks n) (conns(k := c)) = all_of C (mid_blocks n) conns"
    "all_of C (rest_blocks n) (conns(k := c)) = all_of C (rest_blocks n) conns"
    using same by (simp_all add: all_of_same)
  obtain z where z: "(\<Sum>j<C. overshot n (conns j)) = z + overshot n (conns k)"
    "\<And>x. (\<Sum>j<C. overshot n ((conns(k := x)) j)) = z + overshot n x"
    by (rule sum_channel [OF k, of "overshot n" conns]) blast
  have "(\<Sum>j<C. overshot n (conns j)) \<le> (\<Sum>j<C. overshot n ((conns(k := c)) j))"
    unfolding z using over by simp
  then have o: "unat (curr_offset sc) \<le> length d + 2 ^ 30 + (\<Sum>j<C. overshot n ((conns(k := c)) j))"
    using inv by (auto simp only: file_inv_def Let_def)
  have e: "\<forall>j<C. exhausted n ((conns(k := c)) j) \<longrightarrow> length d \<le> unat (curr_offset sc)"
    using inv ex k by (simp only: file_inv_def Let_def fun_upd_apply split: if_split) blast
  have q: "\<forall>j<C. \<forall>l. dc_pc (cn_dst ((conns(k := c)) j)) = Dst_progress l n True
      \<longrightarrow> bytes_of (all_of C (acc_blocks n) conns) = length d"
    using inv prog k by (simp only: file_inv_def Let_def fun_upd_apply split: if_split) blast
  from inv show ?thesis
    unfolding file_inv_def Let_def t
    by (elim conjE) (intro conjI; (rule o | rule e | rule q | assumption))
qed

section \<open>Steps of a source channel\<close>

lemma dispensed_block_None: "dispensed_block fsize b cur = None \<longleftrightarrow> fsize \<le> cur"
  by (simp add: dispensed_block_def)

lemma dispensed_block_Some:
  assumes "dispensed_block fsize b cur = Some l" and "block_size_ok b" and "unat fsize + 2 ^ 30 < 2 ^ 64"
  shows "unat cur < unat fsize \<and> 0 < unat l \<and> unat l \<le> 2 ^ 30
    \<and> unat cur + unat l = min (unat cur + unat b) (unat fsize)"
proof -
  from assms(1) have lt: "cur < fsize" by (auto simp: dispensed_block_def split: if_splits)
  then have n: "unat cur < unat fsize" by (simp add: word_less_nat_alt)
  have b: "0 < unat b" "unat b \<le> 2 ^ 30" using assms(2) by (simp_all add: block_size_ok_def)
  have "unat cur + unat b < 2 ^ 64" using n b assms(3) by linarith
  then have add: "unat (cur + ucast b) = unat cur + unat b" by (simp add: unat_word_ariths)
  show ?thesis
  proof (cases "cur + ucast b \<ge> fsize")
    case True
    then have ge: "unat fsize \<le> unat cur + unat b" using add by (simp add: word_le_nat_alt)
    from True lt [unfolded not_le [symmetric]] assms(1) have l: "l = ucast (fsize - cur)" by (simp add: dispensed_block_def)
    have s: "unat (fsize - cur) = unat fsize - unat cur" using lt by (intro unat_sub) simp
    then have "unat (fsize - cur) \<le> 2 ^ 30" using ge b by linarith
    also have "\<dots> < (2 ^ 32 :: nat)" by simp
    finally have "unat (fsize - cur) < 2 ^ 32" .
    then have "unat l = unat fsize - unat cur" using s by (simp add: l unsigned_ucast_eq take_bit_eq_mod)
    with n ge b show ?thesis by simp
  next
    case False
    then have "l = b" using lt [unfolded not_le [symmetric]] assms(1) by (simp add: dispensed_block_def)
    with False n b add show ?thesis by (simp add: word_le_nat_alt min_def)
  qed
qed

lemma src_moved_fetch:
  "sc_pc (cn_src c) = Src_fetch n b \<Longrightarrow> src_moved c ch = c\<lparr>cn_src := ch\<rparr>"
  by (cases c) (simp add: src_moved_def)

lemma landed_simps [simp]:
  "landed (c\<lparr>cn_src := x\<rparr>) = landed c" "landed (c\<lparr>cn_blocks := bs\<rparr>) = landed c"
  by (simp_all add: landed_def)

text \<open>The atomic addition does not wrap, and the counter's range stays tiled.\<close>

lemma fetch_no_wrap:
  assumes inv: "file_inv C n d sc rc conns" and k: "k < C"
    and pc: "sc_pc (cn_src (conns k)) = Src_fetch n b" and b: "block_size_ok b"
    and room: "length d + (C + 1) * 2 ^ 30 < 2 ^ 64"
  shows "unat (curr_offset sc + ucast b) = unat (curr_offset sc) + unat b"
proof -
  have "overshot n (conns k) = 0" using pc by (simp add: overshot_def)
  then have "(\<Sum>j<C. overshot n (conns j)) = (\<Sum>j\<in>{..<C} - {k}. overshot n (conns j))"
    using k by (simp add: sum.remove [of _ k])
  also have "\<dots> \<le> card ({..<C} - {k}) * 2 ^ 30"
    using sum_bounded_above [of "{..<C} - {k}" "\<lambda>j. overshot n (conns j)" "2 ^ 30"] overshot_le by simp
  also have "card ({..<C} - {k}) = C - 1" using k by simp
  finally have "(\<Sum>j<C. overshot n (conns j)) \<le> (C - 1) * 2 ^ 30" .
  then have "unat (curr_offset sc) \<le> length d + 2 ^ 30 + (C - 1) * 2 ^ 30"
    using inv by (auto simp only: file_inv_def Let_def)
  also have "\<dots> = length d + C * 2 ^ 30" using k by (cases C) simp_all
  finally have "unat (curr_offset sc) + unat b < 2 ^ 64"
    using b room by (simp add: block_size_ok_def)
  then show ?thesis by (simp add: unat_word_ariths)
qed

lemma file_inv_fetch_end:
  assumes inv: "file_inv C n d sc rc conns" and k: "k < C"
    and pc: "sc_pc (cn_src (conns k)) = Src_fetch n b" and b: "block_size_ok b"
    and room: "length d + (C + 1) * 2 ^ 30 < 2 ^ 64" and ge: "length d \<le> unat (curr_offset sc)"
  shows "file_inv C n d (sc\<lparr>curr_offset := curr_offset sc + ucast b\<rparr>) rc
    (conns(k := (conns k)\<lparr>cn_src := (cn_src (conns k))\<lparr>sc_pc := Src_fetch (n + 1) b\<rparr>\<rparr>))"
proof -
  let ?c = "(conns k)\<lparr>cn_src := (cn_src (conns k))\<lparr>sc_pc := Src_fetch (n + 1) b\<rparr>\<rparr>"
  let ?sc = "sc\<lparr>curr_offset := curr_offset sc + ucast b\<rparr>"
  note add = fetch_no_wrap [OF inv k pc b room]
  have t: "all_of C (acc_blocks n) (conns(k := ?c)) = all_of C (acc_blocks n) conns"
    "all_of C (mid_blocks n) (conns(k := ?c)) = all_of C (mid_blocks n) conns"
    "all_of C (rest_blocks n) (conns(k := ?c)) = all_of C (rest_blocks n) conns"
    using pc by (simp_all add: all_of_same acc_blocks_def mid_blocks_def rest_blocks_def)
  obtain z where z: "(\<Sum>j<C. overshot n (conns j)) = z + overshot n (conns k)"
    "\<And>x. (\<Sum>j<C. overshot n ((conns(k := x)) j)) = z + overshot n x"
    by (rule sum_channel [OF k, of "overshot n" conns]) blast
  have "overshot n (conns k) = 0" "overshot n ?c = 2 ^ 30" using pc by (simp_all add: overshot_def)
  with z have s: "(\<Sum>j<C. overshot n ((conns(k := ?c)) j)) = (\<Sum>j<C. overshot n (conns j)) + 2 ^ 30"
    by simp
  have m: "min (unat (curr_offset ?sc)) (length d) = min (unat (curr_offset sc)) (length d)"
    using add ge by simp
  have o: "unat (curr_offset ?sc) \<le> length d + 2 ^ 30 + (\<Sum>j<C. overshot n ((conns(k := ?c)) j))"
  proof -
    have "unat (curr_offset sc) \<le> length d + 2 ^ 30 + (\<Sum>j<C. overshot n (conns j))"
      using inv by (auto simp only: file_inv_def Let_def)
    with add b s show ?thesis by (simp add: block_size_ok_def)
  qed
  have e: "\<forall>j<C. exhausted n ((conns(k := ?c)) j) \<longrightarrow> length d \<le> unat (curr_offset ?sc)"
    using add ge by simp
  have q: "\<forall>j<C. \<forall>l. dc_pc (cn_dst ((conns(k := ?c)) j)) = Dst_progress l n True
      \<longrightarrow> bytes_of (all_of C (acc_blocks n) conns) = length d"
    using inv k by (simp add: file_inv_def Let_def)
  from inv show ?thesis
    unfolding file_inv_def Let_def t m
    by (elim conjE) (intro conjI; (rule o | rule e | rule q | assumption))
qed

lemma file_inv_fetch_block:
  assumes inv: "file_inv C n d sc rc conns" and k: "k < C"
    and pc: "sc_pc (cn_src (conns k)) = Src_fetch n b" and b: "block_size_ok b"
    and room: "length d + (C + 1) * 2 ^ 30 < 2 ^ 64" and lt: "unat (curr_offset sc) < length d"
    and l: "0 < unat l" "unat (curr_offset sc) + unat l = min (unat (curr_offset sc) + unat b) (length d)"
  shows "file_inv C n d (sc\<lparr>curr_offset := curr_offset sc + ucast b\<rparr>) rc
    (conns(k := (conns k)\<lparr>cn_src := (cn_src (conns k))\<lparr>sc_pc := Src_send n (curr_offset sc) l b\<rparr>\<rparr>))"
proof -
  let ?c = "(conns k)\<lparr>cn_src := (cn_src (conns k))\<lparr>sc_pc := Src_send n (curr_offset sc) l b\<rparr>\<rparr>"
  let ?sc = "sc\<lparr>curr_offset := curr_offset sc + ucast b\<rparr>" and ?x = "(n, unat (curr_offset sc), unat l)"
  note add = fetch_no_wrap [OF inv k pc b room]
  have t: "all_of C (acc_blocks n) (conns(k := ?c)) = all_of C (acc_blocks n) conns"
    "all_of C (mid_blocks n) (conns(k := ?c)) = all_of C (mid_blocks n) conns"
    by (simp_all add: all_of_same acc_blocks_def mid_blocks_def)
  obtain y where y: "all_of C (rest_blocks n) conns = y + rest_blocks n (conns k)"
    "\<And>x. all_of C (rest_blocks n) (conns(k := x)) = y + rest_blocks n x"
    by (rule all_of_upd [OF k, of "rest_blocks n" conns]) blast
  have "rest_blocks n ?c = rest_blocks n (conns k) + {#?x#}" using pc by (simp add: rest_blocks_def)
  with y have r: "all_of C (rest_blocks n) (conns(k := ?c)) = all_of C (rest_blocks n) conns + {#?x#}"
    by (simp only: add.assoc)
  let ?A = "all_of C (acc_blocks n) conns" and ?M = "all_of C (mid_blocks n) conns"
    and ?R = "all_of C (rest_blocks n) conns"
  have tl: "tiling (?A + ?M + (?R + {#?x#})) (min (unat (curr_offset ?sc)) (length d))"
  proof -
    have "tiling (?A + ?M + ?R) (unat (curr_offset sc))"
      using inv lt by (simp add: file_inv_def Let_def min_def)
    then have "tiling (?A + ?M + ?R + {#?x#}) (unat (curr_offset sc) + piece_length ?x)"
      by (rule tiling_add) (use l in simp_all)
    then show ?thesis using add l(2) by (simp add: add.assoc)
  qed
  have "(\<Sum>j<C. overshot n ((conns(k := ?c)) j)) = (\<Sum>j<C. overshot n (conns j))"
    using pc by (intro sum_same) (simp add: overshot_def)
  then have o: "unat (curr_offset ?sc) \<le> length d + 2 ^ 30 + (\<Sum>j<C. overshot n ((conns(k := ?c)) j))"
    using add b lt by (simp add: block_size_ok_def)
  have e: "\<forall>j<C. exhausted n ((conns(k := ?c)) j) \<longrightarrow> length d \<le> unat (curr_offset ?sc)"
  proof -
    have "\<forall>j<C. \<not> exhausted n (conns j)" using inv lt by (auto simp: file_inv_def Let_def)
    moreover have "\<not> exhausted n ?c" by (simp add: exhausted_def)
    ultimately show ?thesis by simp
  qed
  have q: "\<forall>j<C. \<forall>l. dc_pc (cn_dst ((conns(k := ?c)) j)) = Dst_progress l n True
      \<longrightarrow> bytes_of ?A = length d"
    using inv k by (simp add: file_inv_def Let_def)
  from inv show ?thesis
    unfolding file_inv_def Let_def t r
    by (elim conjE) (intro conjI; (rule tl | rule o | rule e | rule q | assumption))
qed

lemma xfer_invD:
  assumes "xfer_inv h contents C info data s"
  shows "src_info (xf_src s) = Some info" "dst_info (xf_dst s) = Some info"
    "length (files_info info) < 2 ^ 32" "length (send_ctx (xf_src s)) = length (files_info info)"
    "length (recv_ctx (xf_dst s)) = length (files_info info)"
    "\<And>n. n < length (files_info info) \<Longrightarrow> contents (src_handle (send_ctx (xf_src s) ! n)) = Some (data n)"
    "\<And>n. n < length (files_info info) \<Longrightarrow> length (data n) = unat (file_size (files_info info ! n))"
    "\<And>n. n < length (files_info info) \<Longrightarrow> length (data n) + (C + 1) * 2 ^ 30 < 2 ^ 64"
    "gate_valid (gate_all_channels_finished (xf_dst s))"
    "gate_needed (gate_all_channels_finished (xf_dst s)) = (\<Sum>k<C. dst_running (xf_conns s k))"
    "\<not> dst_dispose_required (xf_dst s)"
    "\<And>k. k < C \<Longrightarrow> src_inv h data (length (files_info info)) (xf_conns s k)"
    "\<And>k. k < C \<Longrightarrow> dst_inv h data (xf_conns s k)"
    "\<And>n. n < length (files_info info)
      \<Longrightarrow> file_inv C n (data n) (send_ctx (xf_src s) ! n) (recv_ctx (xf_dst s) ! n) (xf_conns s)"
  using assms unfolding xfer_inv_def Let_def by blast+

lemma xfer_invI:
  assumes "src_info (xf_src s) = Some info" "dst_info (xf_dst s) = Some info"
    "length (files_info info) < 2 ^ 32" "length (send_ctx (xf_src s)) = length (files_info info)"
    "length (recv_ctx (xf_dst s)) = length (files_info info)"
    "\<And>n. n < length (files_info info) \<Longrightarrow> contents (src_handle (send_ctx (xf_src s) ! n)) = Some (data n)"
    "\<And>n. n < length (files_info info) \<Longrightarrow> length (data n) = unat (file_size (files_info info ! n))"
    "\<And>n. n < length (files_info info) \<Longrightarrow> length (data n) + (C + 1) * 2 ^ 30 < 2 ^ 64"
    "gate_valid (gate_all_channels_finished (xf_dst s))"
    "gate_needed (gate_all_channels_finished (xf_dst s)) = (\<Sum>k<C. dst_running (xf_conns s k))"
    "\<not> dst_dispose_required (xf_dst s)"
    "\<And>k. k < C \<Longrightarrow> src_inv h data (length (files_info info)) (xf_conns s k)"
    "\<And>k. k < C \<Longrightarrow> dst_inv h data (xf_conns s k)"
    "\<And>n. n < length (files_info info)
      \<Longrightarrow> file_inv C n (data n) (send_ctx (xf_src s) ! n) (recv_ctx (xf_dst s) ! n) (xf_conns s)"
  shows "xfer_inv h contents C info data s"
  unfolding xfer_inv_def Let_def using assms by blast

lemma xfer_inv_src_upd:
  assumes inv: "xfer_inv h contents C info data s"
    and src': "src_info src' = Some info" "map src_handle (send_ctx src') = map src_handle (send_ctx (xf_src s))"
    and run: "dst_running c = dst_running (xf_conns s k)"
    and c: "src_inv h data (length (files_info info)) c" "dst_inv h data c"
    and files: "\<And>n. n < length (files_info info)
      \<Longrightarrow> file_inv C n (data n) (send_ctx src' ! n) (recv_ctx (xf_dst s) ! n) ((xf_conns s)(k := c))"
  shows "xfer_inv h contents C info data (s\<lparr>xf_src := src', xf_conns := (xf_conns s)(k := c)\<rparr>)"
proof -
  have len: "length (send_ctx src') = length (send_ctx (xf_src s))"
    using src'(2) by (metis length_map)
  have handles: "src_handle (send_ctx src' ! n) = src_handle (send_ctx (xf_src s) ! n)"
    if "n < length (send_ctx (xf_src s))" for n
    using that len src'(2) by (metis nth_map)
  have g: "(\<Sum>j<C. dst_running (((xf_conns s)(k := c)) j)) = (\<Sum>j<C. dst_running (xf_conns s j))"
    using sum_same [of dst_running c "xf_conns s" k] run by simp
  note d = xfer_invD [OF inv]
  show ?thesis
  proof (rule xfer_invI)
    show "contents (src_handle (send_ctx (xf_src (s\<lparr>xf_src := src', xf_conns := (xf_conns s)(k := c)\<rparr>)) ! n)) = Some (data n)"
      if "n < length (files_info info)" for n
      using d(4,6) handles that by simp
    show "length (data n) + (C + 1) * 2 ^ 30 < 2 ^ 64" if "n < length (files_info info)" for n
      using d(8) that by blast
    show "length (files_info info) < 2 ^ 32" by (rule d(3))
  qed (use d src' len c files g in \<open>auto simp: \<close>)
qed

lemma dst_inv_src:
  assumes inv: "dst_inv h data c" and pc: "sc_pc (cn_src c) \<noteq> Src_returned True"
    and same: "cn_dst c' = cn_dst c" "cn_consumed c' = cn_consumed c" "cn_got c' = cn_got c"
      "cn_blocks c' = cn_blocks c @ bs"
    and grown: "length (outbox (sc_sock (cn_src c))) \<le> length (outbox (sc_sock (cn_src c')))"
  shows "dst_inv h data c'"
proof (cases "dc_pc (cn_dst c)")
  case (Dst_account l n)
  with inv have "cn_got c < length (cn_blocks c)" by (simp add: dst_inv_def Let_def)
  then have "take (Suc (cn_got c)) (cn_blocks c @ bs) = take (Suc (cn_got c)) (cn_blocks c)" by simp
  with inv same grown Dst_account show ?thesis by (simp add: dst_inv_def Let_def nth_append)
qed (use inv pc same grown in \<open>auto simp: dst_inv_def Let_def nth_append\<close>)

lemma source_fetch_inv:
  assumes inv: "xfer_inv h contents C info data s" and k: "k < C"
    and pc: "sc_pc (cn_src (xf_conns s k)) = Src_fetch n b" and n: "n < length (files_info info)"
  shows "\<exists>ch src'. source_channel_step h contents e (xf_src s) (cn_src (xf_conns s k)) = (Ret ch, src')
    \<and> xfer_inv h contents C info data (s\<lparr>xf_src := src', xf_conns := (xf_conns s)(k := src_moved (xf_conns s k) ch)\<rparr>)"
proof -
  let ?src = "xf_src s" and ?c = "xf_conns s k" and ?F = "length (files_info info)"
  let ?sc = "send_ctx ?src ! n" and ?size = "file_size (files_info info ! n)"
  let ?sc' = "?sc\<lparr>curr_offset := curr_offset ?sc + ucast b\<rparr>"
  let ?src' = "?src\<lparr>send_ctx := (send_ctx ?src)[n := ?sc']\<rparr>"
  note info = xfer_invD(1) [OF inv] and len = xfer_invD(4) [OF inv] and size = xfer_invD(7) [OF inv n]
    and room = xfer_invD(8) [OF inv n] and fi = xfer_invD(14) [OF inv]
    and si = xfer_invD(12) [OF inv k] and di = xfer_invD(13) [OF inv k]
  have b: "block_size_ok b" using si pc by (simp add: src_inv_def)
  have handles: "map src_handle (send_ctx ?src') = map src_handle (send_ctx ?src)"
    using n len by (simp add: map_update list_update_same_conv)
  have other: "file_inv C m (data m) (send_ctx ?src' ! m) (recv_ctx (xf_dst s) ! m)
      ((xf_conns s)(k := ?c\<lparr>cn_src := (cn_src ?c)\<lparr>sc_pc := p\<rparr>\<rparr>))"
    if m: "m < ?F" "m \<noteq> n" and p: "p = Src_fetch (n + 1) b \<or> (\<exists>l. p = Src_send n (curr_offset ?sc) l b)" for m p
  proof -
    have "file_inv C m (data m) (send_ctx ?src ! m) (recv_ctx (xf_dst s) ! m)
        ((xf_conns s)(k := ?c\<lparr>cn_src := (cn_src ?c)\<lparr>sc_pc := p\<rparr>\<rparr>))"
      using p pc m(2) by (intro file_inv_conn [OF fi [OF m(1)] k])
        (auto simp: acc_blocks_def mid_blocks_def rest_blocks_def overshot_def exhausted_def)
    then show ?thesis using m by simp
  qed
  show ?thesis
  proof (cases "dispensed_block ?size b (curr_offset ?sc)")
    case None
    let ?ch = "(cn_src ?c)\<lparr>sc_pc := Src_fetch (n + 1) b\<rparr>"
    have step: "source_channel_step h contents e ?src (cn_src ?c) = (Ret ?ch, ?src')"
      using None pc info n len by (simp add: source_channel_step_def fetch_add_offset_def Let_def)
    have ge: "length (data n) \<le> unat (curr_offset ?sc)"
      using None size by (simp add: word_le_nat_alt dispensed_block_None)
    have "xfer_inv h contents C info data (s\<lparr>xf_src := ?src', xf_conns := (xf_conns s)(k := ?c\<lparr>cn_src := ?ch\<rparr>)\<rparr>)"
    proof (rule xfer_inv_src_upd [OF inv])
      show "file_inv C m (data m) (send_ctx ?src' ! m) (recv_ctx (xf_dst s) ! m) ((xf_conns s)(k := ?c\<lparr>cn_src := ?ch\<rparr>))"
        if "m < ?F" for m
        using other [OF that] file_inv_fetch_end [OF fi [OF n] k pc b room ge] n len
        by (cases "m = n") simp_all
      show "dst_inv h data (?c\<lparr>cn_src := ?ch\<rparr>)" by (rule dst_inv_src [OF di, of _ "[]"]) (simp_all add: pc)
    qed (use info handles si pc n b in \<open>simp_all add: src_inv_def dst_running_def\<close>)
    with step show ?thesis using src_moved_fetch [OF pc] by auto
  next
    case (Some l)
    let ?ch = "(cn_src ?c)\<lparr>sc_pc := Src_send n (curr_offset ?sc) l b\<rparr>"
    have step: "source_channel_step h contents e ?src (cn_src ?c) = (Ret ?ch, ?src')"
      using Some pc info n len by (simp add: source_channel_step_def fetch_add_offset_def Let_def)
    have big: "unat ?size + 2 ^ 30 < 2 ^ 64" using room size k by simp
    from dispensed_block_Some [OF Some b big]
    have l: "unat (curr_offset ?sc) < length (data n)" "0 < unat l" "unat l \<le> 2 ^ 30"
      "unat (curr_offset ?sc) + unat l = min (unat (curr_offset ?sc) + unat b) (length (data n))"
      using size by simp_all
    have "xfer_inv h contents C info data (s\<lparr>xf_src := ?src', xf_conns := (xf_conns s)(k := ?c\<lparr>cn_src := ?ch\<rparr>)\<rparr>)"
    proof (rule xfer_inv_src_upd [OF inv])
      show "file_inv C m (data m) (send_ctx ?src' ! m) (recv_ctx (xf_dst s) ! m) ((xf_conns s)(k := ?c\<lparr>cn_src := ?ch\<rparr>))"
        if "m < ?F" for m
        using other [OF that] file_inv_fetch_block [OF fi [OF n] k pc b room l(1,2,4)] n len
        by (cases "m = n") simp_all
      show "dst_inv h data (?c\<lparr>cn_src := ?ch\<rparr>)" by (rule dst_inv_src [OF di, of _ "[]"]) (simp_all add: pc)
    qed (use info handles si pc n b l room in \<open>simp_all add: src_inv_def dst_running_def\<close>)
    with step show ?thesis using src_moved_fetch [OF pc] by auto
  qed
qed

lemma source_tail_inv:
  assumes inv: "xfer_inv h contents C info data s" and k: "k < C"
    and pc: "sc_pc (cn_src (xf_conns s k)) = Src_fetch n b" and n: "\<not> n < length (files_info info)"
  shows "\<exists>ch src'. source_channel_step h contents e (xf_src s) (cn_src (xf_conns s k)) = (Ret ch, src')
    \<and> xfer_inv h contents C info data (s\<lparr>xf_src := src', xf_conns := (xf_conns s)(k := src_moved (xf_conns s k) ch)\<rparr>)"
proof -
  let ?c = "xf_conns s k" and ?F = "length (files_info info)"
  note si = xfer_invD(12) [OF inv k] and di = xfer_invD(13) [OF inv k]
  obtain ok sock where snd: "socket_send (final_tail h) (sc_sock (cn_src ?c)) = (ok, sock)" by force
  let ?ch = "\<lparr>sc_sock = sock, sc_pc = Src_returned ok\<rparr>"
  have step: "source_channel_step h contents e (xf_src s) (cn_src ?c) = (Ret ?ch, xf_src s)"
    using pc n xfer_invD(1) [OF inv] snd by (simp add: source_channel_step_def)
  have old: "outbox (sc_sock (cn_src ?c)) = frames h data (cn_blocks ?c)" "n = ?F"
    using si pc n by (simp_all add: src_inv_def)
  have out: "\<exists>r. outbox sock @ r = frames h data (cn_blocks ?c) @ final_tail h \<and> (ok \<longleftrightarrow> r = [])"
  proof (cases ok)
    case True
    with sock.send_all [of "final_tail h" _ sock] snd old show ?thesis by simp
  next
    case False
    have "final_tail h \<noteq> []" using length_final_tail [of h] by (metis list.size(3) zero_neq_numeral)
    moreover have "socket_send (final_tail h) (sc_sock (cn_src ?c)) = (False, sock)" using snd False by simp
    ultimately obtain p r where
      "outbox sock = outbox (sc_sock (cn_src ?c)) @ p" "p @ r = final_tail h" "r \<noteq> []"
      using socket_send_False by blast
    with False old show ?thesis by auto
  qed
  have "xfer_inv h contents C info data (s\<lparr>xf_src := xf_src s, xf_conns := (xf_conns s)(k := ?c\<lparr>cn_src := ?ch\<rparr>)\<rparr>)"
  proof (rule xfer_inv_src_upd [OF inv])
    show "file_inv C m (data m) (send_ctx (xf_src s) ! m) (recv_ctx (xf_dst s) ! m) ((xf_conns s)(k := ?c\<lparr>cn_src := ?ch\<rparr>))"
      if "m < ?F" for m
      using pc that old(2) by (intro file_inv_conn [OF xfer_invD(14) [OF inv that] k])
        (auto simp: acc_blocks_def mid_blocks_def rest_blocks_def overshot_def exhausted_def)
    have "length (outbox (sc_sock (cn_src ?c))) \<le> length (outbox sock)"
      by (rule socket_send_grows [OF snd])
    then show "dst_inv h data (?c\<lparr>cn_src := ?ch\<rparr>)"
      by (intro dst_inv_src [OF di, of _ "[]"]) (simp_all add: pc)
  qed (use xfer_invD(1) [OF inv] si out in \<open>simp_all add: src_inv_def dst_running_def\<close>)
  with step show ?thesis using src_moved_fetch [OF pc] by auto
qed

lemma source_send_inv:
  assumes inv: "xfer_inv h contents C info data s" and k: "k < C"
    and pc: "sc_pc (cn_src (xf_conns s k)) = Src_send n p l b"
  shows "\<exists>ch src'. source_channel_step h contents e (xf_src s) (cn_src (xf_conns s k)) = (Ret ch, src')
    \<and> xfer_inv h contents C info data (s\<lparr>xf_src := src', xf_conns := (xf_conns s)(k := src_moved (xf_conns s k) ch)\<rparr>)"
proof -
  let ?src = "xf_src s" and ?c = "xf_conns s k" and ?F = "length (files_info info)" and ?x = "(n, unat p, unat l)"
  note si = xfer_invD(12) [OF inv k] and di = xfer_invD(13) [OF inv k]
  have old: "outbox (sc_sock (cn_src ?c)) = frames h data (cn_blocks ?c)" and x: "block_ok data ?F ?x"
    and b: "block_size_ok b"
    using si pc by (simp_all add: src_inv_def)
  from x have n: "n < ?F" and l: "0 < unat l" and range: "unat p + unat l \<le> length (data n)" by simp_all
  obtain ok sock where snd: "socket_send_file (contents (src_handle (send_ctx ?src ! n))) p l
      (Some (block_header h p l n)) (sc_sock (cn_src ?c)) = (ok, sock)" by force
  have hdr: "block_header h p l n \<noteq> []" using length_block_header by (metis list.size(3) zero_neq_numeral)
  have out: "if ok then outbox sock = frames h data (cn_blocks ?c @ [?x])
    else \<exists>r. outbox sock @ r = frames h data (cn_blocks ?c @ [?x]) \<and> r \<noteq> []"
    using socket_send_file_range [OF snd [unfolded xfer_invD(6) [OF inv n]] range hdr l] old
    by (auto split: if_splits)
  have moved: "src_moved ?c ch = ?c\<lparr>cn_src := ch, cn_blocks := cn_blocks ?c @ [?x]\<rparr>" for ch
    using pc by (simp add: src_moved_def)
  have "\<exists>p src'. source_channel_step h contents e ?src (cn_src ?c) = (Ret \<lparr>sc_sock = sock, sc_pc = p\<rparr>, src')
    \<and> (ok \<longrightarrow> (\<exists>b'. p = Src_fetch n b' \<and> block_size_ok b')) \<and> (\<not> ok \<longrightarrow> p = Src_returned False)
    \<and> send_ctx src' = send_ctx ?src \<and> src_info src' = src_info ?src"
  proof (cases ok)
    case False
    with pc xfer_invD(1) [OF inv] snd show ?thesis by (simp add: source_channel_step_def)
  next
    case True
    obtain b' where "adjust_block_size e b = Ret b'" "block_size_ok b'"
      using adjust_block_size_ret [of b e] b unfolding block_size_ok_def by (metis gr_zeroI not_numeral_le_zero)
    with True b pc xfer_invD(1) [OF inv] snd show ?thesis by (simp add: source_channel_step_def Let_def)
  qed
  then obtain q src' where step: "source_channel_step h contents e ?src (cn_src ?c) = (Ret \<lparr>sc_sock = sock, sc_pc = q\<rparr>, src')"
    and q: "ok \<longrightarrow> (\<exists>b'. q = Src_fetch n b' \<and> block_size_ok b')" "\<not> ok \<longrightarrow> q = Src_returned False"
    and src': "send_ctx src' = send_ctx ?src" "src_info src' = src_info ?src" by blast
  let ?ch = "\<lparr>sc_sock = sock, sc_pc = q\<rparr>"
  let ?c' = "?c\<lparr>cn_src := ?ch, cn_blocks := cn_blocks ?c @ [?x]\<rparr>"
  have sent: "src_sent q = []" using q by (cases ok) auto
  have got: "cn_got ?c + landed ?c \<le> length (cn_blocks ?c)"
    using di by (auto simp: dst_inv_def Let_def landed_def split: dest_pc.splits)
  have "xfer_inv h contents C info data (s\<lparr>xf_src := src', xf_conns := (xf_conns s)(k := ?c')\<rparr>)"
  proof (rule xfer_inv_src_upd [OF inv])
    show "file_inv C m (data m) (send_ctx src' ! m) (recv_ctx (xf_dst s) ! m) ((xf_conns s)(k := ?c'))"
      if "m < ?F" for m
    proof -
      have "landed ?c \<le> length (cn_blocks ?c) - cn_got ?c" using got by simp
      then have "file_inv C m (data m) (send_ctx ?src ! m) (recv_ctx (xf_dst s) ! m) ((xf_conns s)(k := ?c'))"
        using pc q sent got by (intro file_inv_conn [OF xfer_invD(14) [OF inv that] k]; cases ok)
          (auto simp: acc_blocks_def mid_blocks_def rest_blocks_def overshot_def exhausted_def)
      then show ?thesis using src'(1) by simp
    qed
    have "length (outbox (sc_sock (cn_src ?c))) \<le> length (outbox sock)"
      by (rule socket_send_file_grows [OF snd])
    then show "dst_inv h data ?c'" by (intro dst_inv_src [OF di, of _ "[?x]"]) (simp_all add: pc)
    show "src_inv h data ?F ?c'"
    proof (cases ok)
      case True
      with q obtain b' where "q = Src_fetch n b'" "block_size_ok b'" by blast
      with True out si x n show ?thesis by (simp add: src_inv_def)
    next
      case False
      with out obtain r where r: "outbox sock @ r = frames h data (cn_blocks ?c @ [?x])" "r \<noteq> []" by auto
      then have "outbox sock @ (r @ final_tail h) = frames h data (cn_blocks ?c @ [?x]) @ final_tail h"
        by (simp only: append_assoc [symmetric])
      with r(2) have "\<exists>z. outbox sock @ z = frames h data (cn_blocks ?c @ [?x]) @ final_tail h \<and> z \<noteq> []"
        by blast
      with False q si x show ?thesis by (simp add: src_inv_def)
    qed
  qed (use xfer_invD(1) [OF inv] src' in \<open>simp_all add: dst_running_def\<close>)
  with step moved show ?thesis by auto
qed

lemma source_step_inv:
  assumes inv: "xfer_inv h contents C info data s" and k: "k < C"
  shows "\<exists>ch src'. source_channel_step h contents e (xf_src s) (cn_src (xf_conns s k)) = (Ret ch, src')
    \<and> xfer_inv h contents C info data (s\<lparr>xf_src := src', xf_conns := (xf_conns s)(k := src_moved (xf_conns s k) ch)\<rparr>)"
proof (cases "sc_pc (cn_src (xf_conns s k))")
  case (Src_fetch n b)
  with source_fetch_inv [OF inv k Src_fetch] source_tail_inv [OF inv k Src_fetch] show ?thesis by blast
next
  case (Src_send n p l b)
  with source_send_inv [OF inv k] show ?thesis by blast
next
  case (Src_returned ok)
  have "s\<lparr>xf_src := xf_src s, xf_conns := (xf_conns s)(k := src_moved (xf_conns s k) (cn_src (xf_conns s k)))\<rparr> = s"
    using Src_returned by (simp add: src_moved_def)
  with Src_returned inv xfer_invD(1) [OF inv] show ?thesis by (simp add: source_channel_step_def)
qed

section \<open>Steps of a destination channel\<close>

lemma xfer_inv_dst_upd:
  assumes inv: "xfer_inv h contents C info data s" and k: "k < C"
    and dst': "dst_info dst' = Some info" "length (recv_ctx dst') = length (files_info info)" "\<not> dst_dispose_required dst'"
    and gate: "gate_valid (gate_all_channels_finished dst')"
      "gate_needed (gate_all_channels_finished dst') = gate_needed (gate_all_channels_finished (xf_dst s))
         - (dst_running (xf_conns s k) - dst_running c)" "dst_running c \<le> dst_running (xf_conns s k)"
    and c: "cn_src c = cn_src (xf_conns s k)" "cn_blocks c = cn_blocks (xf_conns s k)" "dst_inv h data c"
    and files: "\<And>n. n < length (files_info info)
      \<Longrightarrow> file_inv C n (data n) (send_ctx (xf_src s) ! n) (recv_ctx dst' ! n) ((xf_conns s)(k := c))"
  shows "xfer_inv h contents C info data (s\<lparr>xf_dst := dst', xf_conns := (xf_conns s)(k := c)\<rparr>)"
proof -
  note d = xfer_invD [OF inv]
  obtain z where z: "(\<Sum>j<C. dst_running (xf_conns s j)) = z + dst_running (xf_conns s k)"
    "\<And>x. (\<Sum>j<C. dst_running (((xf_conns s)(k := x)) j)) = z + dst_running x"
    by (rule sum_channel [OF k, of dst_running "xf_conns s"]) blast
  have g: "gate_needed (gate_all_channels_finished dst') = (\<Sum>j<C. dst_running (((xf_conns s)(k := c)) j))"
    using gate d(10) z by simp
  have si: "src_inv h data (length (files_info info)) c"
    using d(12) [OF k] c by (simp add: src_inv_def)
  show ?thesis
  proof (rule xfer_invI)
    show "length (files_info info) < 2 ^ 32" by (rule d(3))
    show "length (data n) + (C + 1) * 2 ^ 30 < 2 ^ 64" if "n < length (files_info info)" for n
      using d(8) that by blast
    show "gate_needed (gate_all_channels_finished (xf_dst (s\<lparr>xf_dst := dst', xf_conns := (xf_conns s)(k := c)\<rparr>)))
      = (\<Sum>j<C. dst_running (xf_conns (s\<lparr>xf_dst := dst', xf_conns := (xf_conns s)(k := c)\<rparr>) j))"
      using g by simp
  qed (use d dst' gate(1) c si files in \<open>auto simp: \<close>)
qed

text \<open>Returning: the gate gets one signal, nothing else changes.\<close>

lemma dest_return_inv:
  assumes inv: "xfer_inv h contents C info data s" and k: "k < C"
    and run: "dst_running (xf_conns s k) = 1"
    and dst: "dst_info dst = Some info" "length (recv_ctx dst) = length (files_info info)" "\<not> dst_dispose_required dst"
      "gate_all_channels_finished dst = gate_all_channels_finished (xf_dst s)"
    and files: "\<And>n c. n < length (files_info info) \<Longrightarrow> cn_src c = cn_src (xf_conns s k) \<Longrightarrow> cn_blocks c = cn_blocks (xf_conns s k)
      \<Longrightarrow> cn_got c = cn_got (xf_conns s k) \<Longrightarrow> landed c = 0 \<Longrightarrow> (\<And>l m. dc_pc (cn_dst c) \<noteq> Dst_progress l m True)
      \<Longrightarrow> file_inv C n (data n) (send_ctx (xf_src s) ! n) (recv_ctx dst ! n) ((xf_conns s)(k := c))"
    and pc: "\<And>l n. dc_pc (cn_dst (xf_conns s k)) \<noteq> Dst_account l n"
    and ok: "ok \<Longrightarrow> cn_got (xf_conns s k) = length (cn_blocks (xf_conns s k))
      \<and> sc_pc (cn_src (xf_conns s k)) = Src_returned True"
  shows "\<exists>ch dst'. dest_channel_return ok sock dst = (Ret ch, dst')
    \<and> xfer_inv h contents C info data (s\<lparr>xf_dst := dst', xf_conns := (xf_conns s)(k := dst_moved (xf_conns s k) ch)\<rparr>)"
proof -
  let ?ch = "\<lparr>dc_sock = sock, dc_pc = Dst_returned ok\<rparr>" and ?c = "xf_conns s k"
  obtain g where sig: "gate_signal (gate_all_channels_finished dst) = (Ret (), g)" and g: "gate_valid g"
    "gate_needed g = gate_needed (gate_all_channels_finished (xf_dst s)) - 1"
    using gate.signal_step [OF xfer_invD(9) [OF inv]] dst(4) by auto
  let ?dst = "dst\<lparr>gate_all_channels_finished := g\<rparr>" and ?c' = "dst_moved ?c ?ch"
  have got: "cn_got ?c' = cn_got ?c" using pc by (simp add: dst_moved_def split: dest_pc.split)
  have "dst_inv h data ?c"  by (rule xfer_invD(13) [OF inv k])
  then have "cn_got ?c \<le> length (cn_blocks ?c)" by (simp add: dst_inv_def)
  with got ok have di: "dst_inv h data ?c'" by (simp add: dst_inv_def dst_moved_def)
  have "xfer_inv h contents C info data (s\<lparr>xf_dst := ?dst, xf_conns := (xf_conns s)(k := ?c')\<rparr>)"
  proof (rule xfer_inv_dst_upd [OF inv k])
    show "file_inv C n (data n) (send_ctx (xf_src s) ! n) (recv_ctx ?dst ! n) ((xf_conns s)(k := ?c'))"
      if "n < length (files_info info)" for n
      using files [OF that, of ?c'] got by (simp add: dst_moved_def landed_def)
  qed (use dst g run di in \<open>simp_all add: dst_running_def dst_moved_def\<close>)
  with sig show ?thesis by (simp add: dest_channel_return_def)
qed

text \<open>The stream a destination channel has still to read, seen from a header.\<close>

lemma header_stream:
  assumes si: "src_inv h data F c" and di: "dst_inv h data c" and pc: "dc_pc (cn_dst c) = Dst_header"
  obtains r t where "avail c @ r = frames h data (drop (cn_got c) (cn_blocks c)) @ t"
    "t = [] \<or> t = final_tail h" "t = final_tail h \<Longrightarrow> r = [] \<Longrightarrow> sc_pc (cn_src c) = Src_returned True"
proof -
  let ?out = "outbox (sc_sock (cn_src c))" and ?bs = "cn_blocks c" and ?g = "cn_got c"
  have "\<exists>r t. ?out @ r = frames h data ?bs @ t \<and> (t = [] \<or> t = final_tail h)
      \<and> (t = final_tail h \<longrightarrow> r = [] \<longrightarrow> sc_pc (cn_src c) = Src_returned True)"
  proof (cases "sc_pc (cn_src c)")
    case (Src_returned ok)
    with si obtain r where "?out @ r = frames h data ?bs @ final_tail h" "ok \<longleftrightarrow> r = []"
      by (auto simp: src_inv_def)
    with Src_returned show ?thesis by (intro exI [of _ r] exI [of _ "final_tail h"]) simp
  next
    case (Src_fetch n b)
    have "final_tail h \<noteq> []" using length_final_tail [of h] by (metis list.size(3) zero_neq_numeral)
    with Src_fetch si show ?thesis by (intro exI [of _ "[]"]) (simp add: src_inv_def)
  next
    case (Src_send n p l b)
    have "final_tail h \<noteq> []" using length_final_tail [of h] by (metis list.size(3) zero_neq_numeral)
    with Src_send si show ?thesis by (intro exI [of _ "[]"]) (simp add: src_inv_def)
  qed
  then obtain r t where out: "?out @ r = frames h data ?bs @ t" and t: "t = [] \<or> t = final_tail h"
    "t = final_tail h \<longrightarrow> r = [] \<longrightarrow> sc_pc (cn_src c) = Src_returned True" by blast
  from di pc have con: "cn_consumed c = length (frames h data (take ?g ?bs))" "cn_consumed c \<le> length ?out"
    by (simp_all add: dst_inv_def Let_def)
  have "frames h data ?bs = frames h data (take ?g ?bs) @ frames h data (drop ?g ?bs)"
    by (metis append_take_drop_id frames_simps(3))
  with out have "drop (cn_consumed c) (?out @ r) = frames h data (drop ?g ?bs) @ t"
    using con(1) by simp
  then have "avail c @ r = frames h data (drop ?g ?bs) @ t" using con(2) by (simp add: avail_def)
  with t show thesis by (intro that) blast+
qed

lemma block_equal_poke:
  assumes "block_equal pages d y" and "q + length bs \<le> length pages"
    and "piece_start y + piece_length y \<le> q \<or> q + length bs \<le> piece_start y"
  shows "block_equal (poke q bs pages) d y"
proof -
  have "take (piece_length y) (drop (piece_start y) (poke q bs pages))
      = take (piece_length y) (drop (piece_start y) pages)"
    using assms(3)
  proof
    assume le: "piece_start y + piece_length y \<le> q"
    have "take (piece_start y + piece_length y) (poke q bs pages) = take (piece_start y + piece_length y) pages"
      using le assms(2) by (simp add: poke_def)
    then show ?thesis by (simp add: take_drop add.commute)
  next
    assume ge: "q + length bs \<le> piece_start y"
    then have "drop (piece_start y) (poke q bs pages) = drop (piece_start y) pages"
      using assms(2) by (simp add: poke_def)
    then show ?thesis by (simp only:)
  qed
  with assms(1) show ?thesis by (simp add: block_equal_def)
qed

lemma block_equal_poked:
  assumes "p + l \<le> length d" and "length pages = length d" and "bs = take l (drop p d)"
  shows "block_equal (poke p bs pages) d (n, p, l)"
  using assms by (simp add: block_equal_def poke_def)

lemma pair_subset: "x \<in># A \<Longrightarrow> y \<in># B \<Longrightarrow> {#x, y#} \<subseteq># A + B"
  using mset_subset_eq_mono_add [of "{#x#}" A "{#y#}" B] by (simp add: add_mset_commute)

text \<open>Writing into a block nobody has accounted for leaves the others intact.\<close>

lemma file_inv_disjoint:
  assumes inv: "file_inv C n d sc rc conns" and k: "k < C" and x: "x \<in># rest_blocks n (conns k)"
    and y: "y \<in># all_of C (acc_blocks n) conns + all_of C (mid_blocks n) conns"
  shows "piece_start y + piece_length y \<le> piece_start x \<or> piece_start x + piece_length x \<le> piece_start y"
proof -
  have "x \<in># all_of C (rest_blocks n) conns" using k x by (rule all_of_part)
  with y have "{#y, x#} \<subseteq># all_of C (acc_blocks n) conns + all_of C (mid_blocks n) conns + all_of C (rest_blocks n) conns"
    by (rule pair_subset)
  moreover have "tiling (all_of C (acc_blocks n) conns + all_of C (mid_blocks n) conns + all_of C (rest_blocks n) conns)
      (min (unat (curr_offset sc)) (length d))"
    using inv by (simp add: file_inv_def Let_def)
  ultimately show ?thesis using tiling_disjoint by blast
qed

text \<open>A block not yet accounted for keeps its file mapped.\<close>

lemma file_inv_open:
  assumes inv: "file_inv C n d sc rc conns" and k: "k < C"
    and x: "x \<in># mid_blocks n (conns k) + rest_blocks n (conns k)" "0 < piece_length x"
  shows "bytes_of (all_of C (acc_blocks n) conns) + piece_length x \<le> length d
    \<and> dst_file_mapped rc \<and> dst_handle rc \<noteq> INVALID_FILE_HANDLE"
proof -
  let ?A = "all_of C (acc_blocks n) conns" and ?M = "all_of C (mid_blocks n) conns" and ?R = "all_of C (rest_blocks n) conns"
  have m: "x \<in># ?M + ?R"
  proof (cases "x \<in># mid_blocks n (conns k)")
    case True
    then have "x \<in># ?M" by (rule all_of_part [OF k])
    then show ?thesis by simp
  next
    case False
    with x(1) have "x \<in># rest_blocks n (conns k)" by simp
    then have "x \<in># ?R" by (rule all_of_part [OF k])
    then show ?thesis by simp
  qed
  obtain N where "?M + ?R = add_mset x N" by (rule mset_add [OF m])
  then have "bytes_of (?A + ?M + ?R) = bytes_of ?A + (piece_length x + bytes_of N)"
    by (simp only: add.assoc bytes_of_add)
  moreover have "tiling (?A + ?M + ?R) (min (unat (curr_offset sc)) (length d))"
    using inv by (simp only: file_inv_def Let_def)
  then have "bytes_of (?A + ?M + ?R) \<le> length d"
    by (simp only: tiling_bytes)
  ultimately have "bytes_of ?A + piece_length x \<le> length d" by simp
  moreover from this x(2) have "bytes_of ?A < length d" by simp
  then have "dst_file_mapped rc \<and> dst_handle rc \<noteq> INVALID_FILE_HANDLE"
    using inv by (simp only: file_inv_def Let_def) blast
  ultimately show ?thesis by blast
qed

lemma dst_idle_blocks:
  assumes "cn_src c' = cn_src c" "cn_blocks c' = cn_blocks c" "cn_got c' = cn_got c" "landed c' = landed c"
  shows "acc_blocks n c' = acc_blocks n c" "mid_blocks n c' = mid_blocks n c" "rest_blocks n c' = rest_blocks n c"
    "overshot n c' = overshot n c" "exhausted n c' = exhausted n c"
  using assms by (simp_all add: acc_blocks_def mid_blocks_def rest_blocks_def overshot_def exhausted_def)

text \<open>A destination step that only moves the channel's own program counter.\<close>

lemma file_inv_dst_idle:
  assumes "file_inv C n d sc rc conns" and "k < C"
    and "cn_src c = cn_src (conns k)" "cn_blocks c = cn_blocks (conns k)" "cn_got c = cn_got (conns k)"
      "landed c = landed (conns k)"
    and "\<And>l. dc_pc (cn_dst c) \<noteq> Dst_progress l n True"
  shows "file_inv C n d sc rc (conns(k := c))"
  using assms(1,2) by (rule file_inv_conn) (use assms dst_idle_blocks [of c "conns k"] in simp_all)

lemma current_block:
  assumes "cn_got c < length (cn_blocks c)" and "cn_blocks c ! cn_got c = (n, p, l)" and "landed c = 0"
  shows "(n, p, l) \<in># rest_blocks n c"
proof -
  have "(n, p, l) \<in> set (drop (cn_got c) (cn_blocks c))"
    using assms(1,2) by (metis Cons_nth_drop_Suc list.set_intros(1))
  then show ?thesis using assms(3) by (simp add: rest_blocks_def of_file_mem)
qed

lemma dest_header_inv:
  assumes inv: "xfer_inv h contents C info data s" and k: "k < C"
    and pc: "dc_pc (cn_dst (xf_conns s k)) = Dst_header" and en: "dst_enabled (xf_conns s k)"
  shows "\<exists>ch dst'. dest_channel_step g (xf_dst s) (dst_ready (xf_conns s k)) = (Ret ch, dst')
    \<and> xfer_inv h contents C info data (s\<lparr>xf_dst := dst', xf_conns := (xf_conns s)(k := dst_moved (xf_conns s k) ch)\<rparr>)"
proof -
  let ?c = "xf_conns s k" and ?F = "length (files_info info)"
  note d = xfer_invD [OF inv] and si = xfer_invD(12) [OF inv k] and di = xfer_invD(13) [OF inv k]
  let ?sock = "dc_sock (dst_ready ?c)"
  have inbox: "inbox ?sock = avail ?c" by (simp add: dst_ready_def)
  have step: "dest_channel_step g (xf_dst s) (dst_ready ?c) = dest_recv_header g (xf_dst s) (dst_ready ?c)"
    using pc by (simp add: dest_channel_step_def dst_ready_def)
  have ret: "\<exists>ch dst'. dest_channel_return ok sock' (xf_dst s) = (Ret ch, dst')
      \<and> xfer_inv h contents C info data (s\<lparr>xf_dst := dst', xf_conns := (xf_conns s)(k := dst_moved ?c ch)\<rparr>)"
    if "ok \<Longrightarrow> cn_got ?c = length (cn_blocks ?c) \<and> sc_pc (cn_src ?c) = Src_returned True" for ok sock'
    by (rule dest_return_inv [OF inv k])
      (use d k pc that in \<open>auto simp: dst_running_def landed_def intro!: file_inv_dst_idle\<close>)
  obtain ok hdr sock where rcv: "socket_recv 16 ?sock = (ok, hdr, sock)" by (metis prod_cases3)
  show ?thesis
  proof (cases ok)
    case False
    then have "dest_recv_header g (xf_dst s) (dst_ready ?c) = dest_channel_return False sock (xf_dst s)"
      using rcv by (simp add: dest_recv_header_def)
    with ret [of False sock] step show ?thesis by simp
  next
    case True
    with rcv have rcv: "socket_recv 16 ?sock = (True, hdr, sock)" by simp
    from sock.recv_all [OF rcv] inbox have av: "avail ?c = hdr @ inbox sock" and len: "length hdr = 16" by simp_all
    obtain r t where str: "avail ?c @ r = frames h data (drop (cn_got ?c) (cn_blocks ?c)) @ t"
      and t: "t = [] \<or> t = final_tail h" "t = final_tail h \<Longrightarrow> r = [] \<Longrightarrow> sc_pc (cn_src ?c) = Src_returned True"
      by (rule header_stream [OF si di pc]) blast
    have "cn_got ?c \<le> length (cn_blocks ?c)" using di by (simp add: dst_inv_def)
    then consider "cn_got ?c = length (cn_blocks ?c)" | "cn_got ?c < length (cn_blocks ?c)" by linarith
    then show ?thesis
    proof cases
      case 1
      with str av have "hdr @ inbox sock @ r = t" by simp
      with t(1) len have "t = final_tail h" by auto
      with \<open>hdr @ inbox sock @ r = t\<close> len have "hdr = final_tail h" "r = []"
        by (metis append_Nil2 append_eq_append_conv length_final_tail, metis append_Nil2 append_eq_append_conv append_is_Nil_conv length_final_tail)
      then have "dest_recv_header g (xf_dst s) (dst_ready ?c) = dest_channel_return True sock (xf_dst s)"
        using rcv by (simp add: dest_recv_header_def)
      with ret [of True sock] step 1 t(2) \<open>t = final_tail h\<close> \<open>r = []\<close> show ?thesis by simp
    next
      case 2
      obtain n p l where b: "cn_blocks ?c ! cn_got ?c = (n, p, l)" by (metis prod_cases3)
      with 2 have "drop (cn_got ?c) (cn_blocks ?c) = (n, p, l) # drop (Suc (cn_got ?c)) (cn_blocks ?c)"
        by (metis Cons_nth_drop_Suc)
      with str av have "hdr @ inbox sock @ r = block_header h (word_of_nat p) (word_of_nat l) n
          @ take l (drop p (data n)) @ frames h data (drop (Suc (cn_got ?c)) (cn_blocks ?c)) @ t" by simp
      with len have hdr: "hdr = block_header h (word_of_nat p) (word_of_nat l) n"
        by (metis append_eq_append_conv length_block_header)
      have "list_all (block_ok data ?F) (cn_blocks ?c)" using si by (simp add: src_inv_def)
      then have "block_ok data ?F (cn_blocks ?c ! cn_got ?c)"
        using 2 unfolding list_all_length by blast
      then have "block_ok data ?F (n, p, l)" by (simp only: b)
      then have ok: "n < ?F" "0 < l" "l \<le> 2 ^ 30" "p + l \<le> length (data n)" "length (data n) < 2 ^ 64" by simp_all
      have un: "unat (word_of_nat n :: u32) = n"
        using ok(1) d(3) by (intro unat_word_of_nat_small) simp
      have ul: "unat (word_of_nat l :: u32) = l" using ok(3) by (intro unat_word_of_nat_small) simp
      have up: "unat (word_of_nat p :: u64) = p" using ok by (intro unat_word_of_nat_small) simp
      have l0: "(word_of_nat l :: u32) \<noteq> 0" using ul ok(2) by (metis less_numeral_extra(3) unsigned_0)
      have "(n, p, l) \<in># rest_blocks n ?c" using 2 b pc by (intro current_block) (simp_all add: landed_def)
      with file_inv_open [OF d(14) [OF ok(1)] k, of "(n, p, l)"] ok(2)
      have "dst_file_mapped (recv_ctx (xf_dst s) ! n)" by simp
      with rcv hdr l0 un ok(1) d(5) have eq: "dest_recv_header g (xf_dst s) (dst_ready ?c)
          = (Ret \<lparr>dc_sock = sock, dc_pc = Dst_body (word_of_nat p) (word_of_nat l) n\<rparr>, xf_dst s)"
        by (simp add: dest_recv_header_def)
      let ?c' = "dst_moved ?c \<lparr>dc_sock = sock, dc_pc = Dst_body (word_of_nat p) (word_of_nat l) n\<rparr>"
      have got: "cn_got ?c' = cn_got ?c" using pc by (simp add: dst_moved_def)
      have con: "cn_consumed ?c \<le> length (outbox (sc_sock (cn_src ?c)))" using di by (simp add: dst_inv_def)
      have "length (avail ?c) = length (outbox (sc_sock (cn_src ?c))) - cn_consumed ?c" by (simp add: avail_def)
      with av len con have "length (outbox (sc_sock (cn_src ?c))) - length (inbox sock) = cn_consumed ?c + 16"
        by simp
      with di pc got 2 b ul up have di': "dst_inv h data ?c'"
        by (simp add: dst_inv_def dst_moved_def Let_def)
      have "xfer_inv h contents C info data (s\<lparr>xf_dst := xf_dst s, xf_conns := (xf_conns s)(k := ?c')\<rparr>)"
      proof (rule xfer_inv_dst_upd [OF inv k])
        show "file_inv C m (data m) (send_ctx (xf_src s) ! m) (recv_ctx (xf_dst s) ! m) ((xf_conns s)(k := ?c'))"
          if "m < ?F" for m
          using pc got by (intro file_inv_dst_idle [OF d(14) [OF that] k]) (simp_all add: dst_moved_def landed_def)
      qed (use d di' pc in \<open>simp_all add: dst_running_def dst_moved_def\<close>)
      with step eq show ?thesis by auto
    qed
  qed
qed

lemma src_block_ok:
  assumes "src_inv h data F c" and "cn_got c < length (cn_blocks c)"
  shows "block_ok data F (cn_blocks c ! cn_got c)"
proof -
  have "list_all (block_ok data F) (cn_blocks c)" using assms(1) by (simp add: src_inv_def)
  then show ?thesis using assms(2) unfolding list_all_length by blast
qed

text \<open>Writing bytes into the current block of a channel.\<close>

lemma file_inv_write:
  assumes inv: "file_inv C n d sc rc conns" and k: "k < C"
    and x: "cn_got (conns k) < length (cn_blocks (conns k))" "cn_blocks (conns k) ! cn_got (conns k) = (n, p, l)"
      "landed (conns k) = 0"
    and fit: "p + l \<le> length d" and bs: "length bs \<le> l"
    and c: "cn_src c = cn_src (conns k)" "cn_blocks c = cn_blocks (conns k)" "cn_got c = cn_got (conns k)"
      "\<And>l. dc_pc (cn_dst c) \<noteq> Dst_progress l n True"
    and land: "landed c = 0 \<or> (landed c = 1 \<and> bs = take l (drop p d))"
  shows "file_inv C n d sc (rc\<lparr>dst_pages := poke p bs (dst_pages rc)\<rparr>) (conns(k := c))"
proof -
  let ?rc = "rc\<lparr>dst_pages := poke p bs (dst_pages rc)\<rparr>" and ?x = "(n, p, l)"
  let ?A = "all_of C (acc_blocks n)" and ?M = "all_of C (mid_blocks n)" and ?R = "all_of C (rest_blocks n)"
  have pages: "length (dst_pages rc) = length d" using inv by (simp only: file_inv_def Let_def)
  have xr: "?x \<in># rest_blocks n (conns k)" using x by (rule current_block)
  have len: "length (dst_pages ?rc) = length d" using pages fit bs by simp
  have acc: "?A (conns(k := c)) = ?A conns" using c by (intro all_of_same) (simp add: acc_blocks_def)
  have keep: "\<forall>y\<in>#?A conns + ?M conns. block_equal (dst_pages ?rc) d y"
  proof
    fix y
    assume y: "y \<in># ?A conns + ?M conns"
    have "block_equal (dst_pages rc) d y" using inv y by (simp only: file_inv_def Let_def)
    moreover have "piece_start y + piece_length y \<le> p \<or> p + length bs \<le> piece_start y"
      using file_inv_disjoint [OF inv k xr y] bs by auto
    ultimately show "block_equal (dst_pages ?rc) d y"
      using block_equal_poke [of "dst_pages rc" d y p bs] pages fit bs by simp
  qed
  have mid: "?A conns + ?M (conns(k := c)) + ?R (conns(k := c)) = ?A conns + ?M conns + ?R conns
    \<and> (\<forall>y\<in>#?A conns + ?M (conns(k := c)). block_equal (dst_pages ?rc) d y)"
  proof (cases "landed c = 0")
    case True
    then have "?M (conns(k := c)) = ?M conns" "?R (conns(k := c)) = ?R conns"
      using c x(3) by (simp_all add: all_of_same mid_blocks_def rest_blocks_def)
    with keep show ?thesis by simp
  next
    case False
    with land have l1: "landed c = 1" and bs': "bs = take l (drop p d)" by auto
    obtain u where u: "?M conns = u + mid_blocks n (conns k)" "?M (conns(k := c)) = u + mid_blocks n c"
      using all_of_upd [OF k, of "mid_blocks n" conns] by metis
    obtain v where v: "?R conns = v + rest_blocks n (conns k)" "?R (conns(k := c)) = v + rest_blocks n c"
      using all_of_upd [OF k, of "rest_blocks n" conns] by metis
    have dr: "drop (cn_got (conns k)) (cn_blocks (conns k)) = ?x # drop (Suc (cn_got (conns k))) (cn_blocks (conns k))"
      using x by (metis Cons_nth_drop_Suc)
    have m: "mid_blocks n (conns k) = {#}" "mid_blocks n c = {#?x#}"
      using x(3) l1 c dr by (simp_all add: mid_blocks_def)
    have r: "rest_blocks n (conns k) = {#?x#} + rest_blocks n c"
      using x(3) l1 c dr by (simp add: rest_blocks_def)
    have "block_equal (dst_pages ?rc) d ?x"
      using block_equal_poked [OF fit pages bs', of n] by simp
    then have "\<forall>y\<in>#?A conns + ?M (conns(k := c)). block_equal (dst_pages ?rc) d y"
      using keep unfolding u m by auto
    moreover have "?A conns + ?M (conns(k := c)) + ?R (conns(k := c)) = ?A conns + ?M conns + ?R conns"
      unfolding u v m r by (simp add: ac_simps)
    ultimately show ?thesis by blast
  qed
  have over: "(\<Sum>j<C. overshot n ((conns(k := c)) j)) = (\<Sum>j<C. overshot n (conns j))"
    using c by (intro sum_same) (simp add: overshot_def)
  have ex: "\<forall>j<C. exhausted n ((conns(k := c)) j) \<longrightarrow> length d \<le> unat (curr_offset sc)"
  proof -
    have "exhausted n c = exhausted n (conns k)" using c by (simp add: exhausted_def)
    then show ?thesis using inv k by (simp add: file_inv_def Let_def)
  qed
  have q: "\<forall>j<C. \<forall>l. dc_pc (cn_dst ((conns(k := c)) j)) = Dst_progress l n True \<longrightarrow> bytes_of (?A conns) = length d"
    using inv c(4) by (simp add: file_inv_def Let_def)
  have rc: "unat (received_size ?rc) = bytes_of (?A conns)"
    "bytes_of (?A conns) < length d \<longrightarrow> dst_file_mapped ?rc \<and> dst_handle ?rc \<noteq> INVALID_FILE_HANDLE"
    using inv by (simp_all add: file_inv_def Let_def)
  from inv show ?thesis
    unfolding file_inv_def Let_def acc over mid [THEN conjunct1]
    by (elim conjE) (intro conjI; (rule ex | rule q | rule rc | rule len | rule mid [THEN conjunct2] | assumption))
qed

lemma dest_body_inv:
  assumes inv: "xfer_inv h contents C info data s" and k: "k < C"
    and pc: "dc_pc (cn_dst (xf_conns s k)) = Dst_body p l n"
  shows "\<exists>ch dst'. dest_channel_step g (xf_dst s) (dst_ready (xf_conns s k)) = (Ret ch, dst')
    \<and> xfer_inv h contents C info data (s\<lparr>xf_dst := dst', xf_conns := (xf_conns s)(k := dst_moved (xf_conns s k) ch)\<rparr>)"
proof -
  let ?c = "xf_conns s k" and ?F = "length (files_info info)" and ?dst = "xf_dst s"
  note d = xfer_invD [OF inv] and si = xfer_invD(12) [OF inv k] and di = xfer_invD(13) [OF inv k]
  let ?sock = "dc_sock (dst_ready ?c)" and ?rc = "recv_ctx (xf_dst s) ! n"
  have got: "cn_got ?c < length (cn_blocks ?c)" and b: "cn_blocks ?c ! cn_got ?c = (n, unat p, unat l)"
    and con: "cn_consumed ?c = length (frames h data (take (cn_got ?c) (cn_blocks ?c))) + 16"
    "cn_consumed ?c \<le> length (outbox (sc_sock (cn_src ?c)))"
    using di pc by (simp_all add: dst_inv_def Let_def)
  have "block_ok data ?F (n, unat p, unat l)" using src_block_ok [OF si got] by (simp only: b)
  then have ok: "n < ?F" "0 < unat l" "unat p + unat l \<le> length (data n)" by simp_all
  have l0: "landed ?c = 0" using pc by (simp add: landed_def)
  have xr: "(n, unat p, unat l) \<in># rest_blocks n ?c" using got b l0 by (rule current_block)
  have mapped: "dst_file_mapped ?rc"
    using file_inv_open [OF d(14) [OF ok(1)] k, of "(n, unat p, unat l)"] xr ok(2) by simp
  have pages: "length (dst_pages ?rc) = length (data n)"
    using d(14) [OF ok(1)] by (simp only: file_inv_def Let_def)
  obtain r bs sock where rcv: "socket_recv l ?sock = (r, bs, sock)" by (metis prod_cases3)
  have bs: "length bs \<le> unat l" using rcv by (rule socket_recv_length)
  let ?dst' = "?dst\<lparr>recv_ctx := (recv_ctx ?dst)[n := ?rc\<lparr>dst_pages := poke (unat p) bs (dst_pages ?rc)\<rparr>]\<rparr>"
  have step: "dest_channel_step g ?dst (dst_ready ?c) =
    (if r then (Ret \<lparr>dc_sock = sock, dc_pc = Dst_account l n\<rparr>, ?dst') else dest_channel_return False sock ?dst')"
    using pc mapped pages ok(3) rcv
    by (simp add: dest_channel_step_def dst_ready_def dest_recv_body_def Let_def)
  have files: "file_inv C m (data m) (send_ctx (xf_src s) ! m) (recv_ctx ?dst' ! m) ((xf_conns s)(k := c))"
    if m: "m < ?F" and c: "cn_src c = cn_src ?c" "cn_blocks c = cn_blocks ?c" "cn_got c = cn_got ?c"
      "landed c = 0 \<or> (landed c = 1 \<and> bs = take (unat l) (drop (unat p) (data n)) \<and> dc_pc (cn_dst c) = Dst_account l n)"
      "\<And>l m. dc_pc (cn_dst c) \<noteq> Dst_progress l m True" for m c
  proof (cases "m = n")
    case True
    with file_inv_write [OF d(14) [OF ok(1)] k got b l0 ok(3) bs c(1,2,3,5)] c(4) ok(1) d(5)
    show ?thesis by auto
  next
    case False
    have same: "mid_blocks m c = mid_blocks m ?c" "rest_blocks m c = rest_blocks m ?c"
    proof -
      have dr: "drop (cn_got ?c) (cn_blocks ?c) = (n, unat p, unat l) # drop (Suc (cn_got ?c)) (cn_blocks ?c)"
        using got b by (metis Cons_nth_drop_Suc)
      with False c l0 show "mid_blocks m c = mid_blocks m ?c" "rest_blocks m c = rest_blocks m ?c"
        by (auto simp: mid_blocks_def rest_blocks_def)
    qed
    have "file_inv C m (data m) (send_ctx (xf_src s) ! m) (recv_ctx ?dst ! m) ((xf_conns s)(k := c))"
      using c(1-4) same
      by (intro file_inv_conn [OF d(14) [OF m] k]) (simp_all add: acc_blocks_def overshot_def exhausted_def c(5))
    then show ?thesis using False by simp
  qed
  show ?thesis
  proof (cases r)
    case False
    have "\<exists>ch dst''. dest_channel_return False sock ?dst' = (Ret ch, dst'')
      \<and> xfer_inv h contents C info data (s\<lparr>xf_dst := dst'', xf_conns := (xf_conns s)(k := dst_moved ?c ch)\<rparr>)"
      by (rule dest_return_inv [OF inv k]) (use d pc files in \<open>simp_all add: dst_running_def\<close>)
    with False step show ?thesis by simp
  next
    case True
    with rcv have rcv: "socket_recv l ?sock = (True, bs, sock)" by simp
    from sock.recv_all [OF rcv] have av: "avail ?c = bs @ inbox sock" and lbs: "length bs = unat l"
      by (simp_all add: dst_ready_def)
    have body: "bs = take (unat l) (drop (unat p) (data n))"
    proof -
      let ?out = "outbox (sc_sock (cn_src ?c))"
      have "\<exists>r t. ?out @ r = frames h data (cn_blocks ?c) @ t"
        using si by (cases "sc_pc (cn_src ?c)") (auto simp: src_inv_def)
      then obtain r t where out: "?out @ r = frames h data (cn_blocks ?c) @ t" by blast
      have "cn_blocks ?c = take (cn_got ?c) (cn_blocks ?c) @ (n, unat p, unat l) # drop (Suc (cn_got ?c)) (cn_blocks ?c)"
        using got b by (metis id_take_nth_drop)
      then have "frames h data (cn_blocks ?c) = frames h data (take (cn_got ?c) (cn_blocks ?c))
          @ frame h data (n, unat p, unat l) @ frames h data (drop (Suc (cn_got ?c)) (cn_blocks ?c))"
        by (metis frames_simps(2,3))
      with out have "drop (cn_consumed ?c) (?out @ r) = take (unat l) (drop (unat p) (data n))
          @ frames h data (drop (Suc (cn_got ?c)) (cn_blocks ?c)) @ t"
        using con(1) by simp
      then have "bs @ inbox sock @ r = take (unat l) (drop (unat p) (data n))
          @ frames h data (drop (Suc (cn_got ?c)) (cn_blocks ?c)) @ t"
        using con(2) av by (simp add: avail_def)
      moreover have "length (take (unat l) (drop (unat p) (data n))) = unat l" using ok(3) by simp
      ultimately show ?thesis using lbs by (metis append_eq_append_conv)
    qed
    let ?c' = "dst_moved ?c \<lparr>dc_sock = sock, dc_pc = Dst_account l n\<rparr>"
    have got': "cn_got ?c' = cn_got ?c" using pc by (simp add: dst_moved_def)
    have "length (avail ?c) = length (outbox (sc_sock (cn_src ?c))) - cn_consumed ?c" by (simp add: avail_def)
    with av lbs con(2) have "length (outbox (sc_sock (cn_src ?c))) - length (inbox sock) = cn_consumed ?c + unat l"
      by simp
    moreover have "length (frames h data (take (Suc (cn_got ?c)) (cn_blocks ?c))) = cn_consumed ?c + unat l"
      using con(1) got b ok(3) by (simp add: take_Suc_conv_app_nth)
    ultimately have di': "dst_inv h data ?c'"
      using got b got' by (simp add: dst_inv_def dst_moved_def Let_def)
    have "xfer_inv h contents C info data (s\<lparr>xf_dst := ?dst', xf_conns := (xf_conns s)(k := ?c')\<rparr>)"
    proof (rule xfer_inv_dst_upd [OF inv k])
      show "file_inv C m (data m) (send_ctx (xf_src s) ! m) (recv_ctx ?dst' ! m) ((xf_conns s)(k := ?c'))"
        if "m < ?F" for m
        using files [OF that, of ?c'] got' body by (simp add: dst_moved_def landed_def)
    qed (use d di' pc in \<open>simp_all add: dst_running_def dst_moved_def\<close>)
    with True step show ?thesis by auto
  qed
qed

text \<open>Accounting for the block just written.\<close>

lemma file_inv_account:
  assumes inv: "file_inv C n d sc rc conns" and k: "k < C" and big: "length d < 2 ^ 64"
    and x: "cn_got (conns k) < length (cn_blocks (conns k))" "cn_blocks (conns k) ! cn_got (conns k) = (n, p, unat l)"
      "landed (conns k) = 1" "0 < unat l"
    and c: "cn_src c = cn_src (conns k)" "cn_blocks c = cn_blocks (conns k)" "cn_got c = Suc (cn_got (conns k))"
      "landed c = 0"
    and f: "\<And>l. dc_pc (cn_dst c) = Dst_progress l n True \<Longrightarrow> unat (received_size rc + ucast l) = length d"
    and pl: "\<And>l' f. dc_pc (cn_dst c) = Dst_progress l' n f \<Longrightarrow> l' = l"
  shows "file_inv C n d sc (rc\<lparr>received_size := received_size rc + ucast l\<rparr>) (conns(k := c))
    \<and> unat (received_size rc + ucast l) \<le> length d"
proof -
  let ?rc = "rc\<lparr>received_size := received_size rc + ucast l\<rparr>" and ?x = "(n, p, unat l)"
  let ?A = "all_of C (acc_blocks n)" and ?M = "all_of C (mid_blocks n)" and ?R = "all_of C (rest_blocks n)"
  have dr: "drop (cn_got (conns k)) (cn_blocks (conns k)) = ?x # drop (Suc (cn_got (conns k))) (cn_blocks (conns k))"
    using x by (metis Cons_nth_drop_Suc)
  obtain u where u: "?M conns = u + mid_blocks n (conns k)" "?M (conns(k := c)) = u + mid_blocks n c"
    using all_of_upd [OF k, of "mid_blocks n" conns] by metis
  obtain v where v: "?A conns = v + acc_blocks n (conns k)" "?A (conns(k := c)) = v + acc_blocks n c"
    using all_of_upd [OF k, of "acc_blocks n" conns] by metis
  have m: "mid_blocks n (conns k) = {#?x#}" "mid_blocks n c = {#}"
    using x(3) c dr by (simp_all add: mid_blocks_def)
  have a: "acc_blocks n c = acc_blocks n (conns k) + {#?x#}"
    using c x(1,2) by (simp add: acc_blocks_def take_Suc_conv_app_nth)
  have r: "?R (conns(k := c)) = ?R conns"
    using c x(3) by (intro all_of_same) (simp add: rest_blocks_def)
  have A: "?A (conns(k := c)) = ?A conns + {#?x#}" unfolding v a by (simp only: add.assoc)
  have AM: "?A (conns(k := c)) + ?M (conns(k := c)) = ?A conns + ?M conns"
    unfolding A u m by (simp add: ac_simps)
  have "?x \<in># mid_blocks n (conns k) + rest_blocks n (conns k)" using m by simp
  from file_inv_open [OF inv k this] x(4)
  have le: "bytes_of (?A conns) + unat l \<le> length d" by simp
  have rc: "unat (received_size rc) = bytes_of (?A conns)" using inv by (simp only: file_inv_def Let_def)
  have "unat (received_size rc) + unat l < 2 ^ 64" using le rc big by simp
  then have add: "unat (received_size rc + ucast l) = unat (received_size rc) + unat l"
    by (simp add: unat_word_ariths)
  have recv: "unat (received_size ?rc) = bytes_of (?A (conns(k := c)))" using add rc A by simp
  have over: "(\<Sum>j<C. overshot n ((conns(k := c)) j)) = (\<Sum>j<C. overshot n (conns j))"
    using c by (intro sum_same) (simp add: overshot_def)
  have ex: "\<forall>j<C. exhausted n ((conns(k := c)) j) \<longrightarrow> length d \<le> unat (curr_offset sc)"
  proof -
    have "exhausted n c = exhausted n (conns k)" using c by (simp add: exhausted_def)
    then show ?thesis using inv k by (simp add: file_inv_def Let_def)
  qed
  have q: "\<forall>j<C. \<forall>l. dc_pc (cn_dst ((conns(k := c)) j)) = Dst_progress l n True
      \<longrightarrow> bytes_of (?A (conns(k := c))) = length d"
  proof (intro allI impI)
    fix j l'
    assume j: "j < C" and p: "dc_pc (cn_dst ((conns(k := c)) j)) = Dst_progress l' n True"
    show "bytes_of (?A (conns(k := c))) = length d"
    proof (cases "j = k")
      case True
      with p f [of l'] pl [of l' True] recv show ?thesis by simp
    next
      case False
      with p have "dc_pc (cn_dst (conns j)) = Dst_progress l' n True" by simp
      with inv j have "bytes_of (?A conns) = length d" by (simp only: file_inv_def Let_def)
      with le x(4) show ?thesis by simp
    qed
  qed
  have mp: "bytes_of (?A (conns(k := c))) < length d \<longrightarrow> dst_file_mapped ?rc \<and> dst_handle ?rc \<noteq> INVALID_FILE_HANDLE"
    using inv A by (simp add: file_inv_def Let_def)
  have pg: "length (dst_pages ?rc) = length d" "\<forall>x\<in>#?A conns + ?M conns. block_equal (dst_pages ?rc) d x"
    using inv by (simp_all add: file_inv_def Let_def)
  from inv have "file_inv C n d sc ?rc (conns(k := c))"
    unfolding file_inv_def Let_def AM r over
    by (elim conjE) (intro conjI; (rule ex | rule q | rule recv | rule mp | rule pg | assumption))
  with add rc le show ?thesis by simp
qed

lemma dest_account_inv:
  assumes inv: "xfer_inv h contents C info data s" and k: "k < C"
    and pc: "dc_pc (cn_dst (xf_conns s k)) = Dst_account l n"
  shows "\<exists>ch dst'. dest_channel_step g (xf_dst s) (dst_ready (xf_conns s k)) = (Ret ch, dst')
    \<and> xfer_inv h contents C info data (s\<lparr>xf_dst := dst', xf_conns := (xf_conns s)(k := dst_moved (xf_conns s k) ch)\<rparr>)"
proof -
  let ?c = "xf_conns s k" and ?F = "length (files_info info)" and ?dst = "xf_dst s"
  note d = xfer_invD [OF inv] and si = xfer_invD(12) [OF inv k] and di = xfer_invD(13) [OF inv k]
  let ?rc = "recv_ctx ?dst ! n" and ?size = "file_size (files_info info ! n)"
  obtain p where got: "cn_got ?c < length (cn_blocks ?c)" and b: "cn_blocks ?c ! cn_got ?c = (n, p, unat l)"
    and con: "cn_consumed ?c = length (frames h data (take (Suc (cn_got ?c)) (cn_blocks ?c)))"
      "cn_consumed ?c \<le> length (outbox (sc_sock (cn_src ?c)))"
    using di pc by (auto simp: dst_inv_def Let_def)
  have "block_ok data ?F (n, p, unat l)" using src_block_ok [OF si got] by (simp only: b)
  then have ok: "n < ?F" "0 < unat l" "length (data n) < 2 ^ 64" by simp_all
  have l1: "landed ?c = 1" using pc by (simp add: landed_def)
  let ?recv = "received_size ?rc + ucast l"
  let ?ch = "(dst_ready ?c)\<lparr>dc_pc := Dst_progress l n (?recv = ?size)\<rparr>"
  let ?dst' = "?dst\<lparr>recv_ctx := (recv_ctx ?dst)[n := ?rc\<lparr>received_size := ?recv\<rparr>]\<rparr>"
  let ?c' = "dst_moved ?c ?ch"
  have c': "cn_src ?c' = cn_src ?c" "cn_blocks ?c' = cn_blocks ?c" "cn_got ?c' = Suc (cn_got ?c)" "landed ?c' = 0"
    "dc_pc (cn_dst ?c') = Dst_progress l n (?recv = ?size)"
    using pc by (simp_all add: dst_moved_def landed_def)
  have fn: "file_inv C n (data n) (send_ctx (xf_src s) ! n) (?rc\<lparr>received_size := ?recv\<rparr>) ((xf_conns s)(k := ?c'))
    \<and> unat ?recv \<le> length (data n)"
    by (rule file_inv_account [OF d(14) [OF ok(1)] k ok(3) got b l1 ok(2) c'(1-4)])
      (use c'(5) d(7) [OF ok(1)] in auto)
  then have le: "?recv \<le> ?size" using d(7) [OF ok(1)] by (simp add: word_le_nat_alt)
  have step: "dest_channel_step g ?dst (dst_ready ?c) = (Ret ?ch, ?dst')"
    using pc d(2) le by (simp add: dest_channel_step_def dst_ready_def dest_account_def Let_def)
  have inb: "length (outbox (sc_sock (cn_src ?c))) - length (inbox (dc_sock ?ch)) = cn_consumed ?c"
    using con(2) by (simp add: dst_ready_def avail_def)
  have di': "dst_inv h data ?c'"
    using pc got con inb by (simp add: dst_inv_def dst_moved_def Let_def)
  have "xfer_inv h contents C info data (s\<lparr>xf_dst := ?dst', xf_conns := (xf_conns s)(k := ?c')\<rparr>)"
  proof (rule xfer_inv_dst_upd [OF inv k])
    show "file_inv C m (data m) (send_ctx (xf_src s) ! m) (recv_ctx ?dst' ! m) ((xf_conns s)(k := ?c'))"
      if m: "m < ?F" for m
    proof (cases "m = n")
      case True
      with fn ok(1) d(5) show ?thesis by simp
    next
      case False
      have dr: "drop (cn_got ?c) (cn_blocks ?c) = (n, p, unat l) # drop (Suc (cn_got ?c)) (cn_blocks ?c)"
        using got b by (metis Cons_nth_drop_Suc)
      have "acc_blocks m ?c' = acc_blocks m ?c" "mid_blocks m ?c' = mid_blocks m ?c" "rest_blocks m ?c' = rest_blocks m ?c"
        using False c' l1 dr got b
        by (simp_all add: acc_blocks_def mid_blocks_def rest_blocks_def take_Suc_conv_app_nth)
      then have "file_inv C m (data m) (send_ctx (xf_src s) ! m) (recv_ctx ?dst ! m) ((xf_conns s)(k := ?c'))"
        using c' False
        by (intro file_inv_conn [OF d(14) [OF m] k]) (simp_all add: overshot_def exhausted_def)
      then show ?thesis using False by simp
    qed
  qed (use d di' pc in \<open>simp_all add: dst_running_def dst_moved_def\<close>)
  with step show ?thesis by auto
qed

lemma dest_progress_inv:
  assumes inv: "xfer_inv h contents C info data s" and k: "k < C"
    and pc: "dc_pc (cn_dst (xf_conns s k)) = Dst_progress l n f"
  shows "\<exists>ch dst'. dest_channel_step g (xf_dst s) (dst_ready (xf_conns s k)) = (Ret ch, dst')
    \<and> xfer_inv h contents C info data (s\<lparr>xf_dst := dst', xf_conns := (xf_conns s)(k := dst_moved (xf_conns s k) ch)\<rparr>)"
proof -
  let ?c = "xf_conns s k" and ?F = "length (files_info info)" and ?dst = "xf_dst s"
  note d = xfer_invD [OF inv] and di = xfer_invD(13) [OF inv k]
  let ?rc = "recv_ctx ?dst ! n"
  let ?ch = "(dst_ready ?c)\<lparr>dc_pc := Dst_header\<rparr>" and ?dst' = "dest_progress l n f ?dst"
  let ?c' = "dst_moved ?c ?ch"
  have step: "dest_channel_step g ?dst (dst_ready ?c) = (Ret ?ch, ?dst')"
    using pc by (simp add: dest_channel_step_def dst_ready_def)
  have con: "cn_consumed ?c \<le> length (outbox (sc_sock (cn_src ?c)))" using di by (simp add: dst_inv_def)
  then have inb: "length (outbox (sc_sock (cn_src ?c))) - length (inbox (dc_sock ?ch)) = cn_consumed ?c"
    by (simp add: dst_ready_def avail_def)
  have di': "dst_inv h data ?c'"
    using di pc con inb by (simp add: dst_inv_def dst_moved_def Let_def)
  have c': "cn_src ?c' = cn_src ?c" "cn_blocks ?c' = cn_blocks ?c" "cn_got ?c' = cn_got ?c" "landed ?c' = landed ?c"
    using pc by (simp_all add: dst_moved_def landed_def)
  have "xfer_inv h contents C info data (s\<lparr>xf_dst := ?dst', xf_conns := (xf_conns s)(k := ?c')\<rparr>)"
  proof (rule xfer_inv_dst_upd [OF inv k])
    show "file_inv C m (data m) (send_ctx (xf_src s) ! m) (recv_ctx ?dst' ! m) ((xf_conns s)(k := ?c'))"
      if m: "m < ?F" for m
    proof -
      have old: "file_inv C m (data m) (send_ctx (xf_src s) ! m) (recv_ctx ?dst ! m) ((xf_conns s)(k := ?c'))"
        using c' by (intro file_inv_dst_idle [OF d(14) [OF m] k]) (simp_all add: dst_moved_def)
      show ?thesis
      proof (cases "f \<and> m = n")
        case False
        then have "recv_ctx ?dst' ! m = recv_ctx ?dst ! m" by (auto simp: dest_progress_def Let_def)
        with old show ?thesis by simp
      next
        case True
        then have all: "bytes_of (all_of C (acc_blocks m) (xf_conns s)) = length (data m)"
          using d(14) [OF m] k pc by (simp only: file_inv_def Let_def)
        have t: "all_of C (acc_blocks m) ((xf_conns s)(k := ?c')) = all_of C (acc_blocks m) (xf_conns s)"
          using c' by (intro all_of_same) (simp add: acc_blocks_def)
        have "recv_ctx ?dst' ! m = close_recv_handle (unmap_file ?rc)"
          using True m d(5) by (simp add: dest_progress_def Let_def)
        moreover have "received_size (close_recv_handle (unmap_file ?rc)) = received_size ?rc"
          "dst_pages (close_recv_handle (unmap_file ?rc)) = dst_pages ?rc"
          by (simp_all add: close_recv_handle_def unmap_file_def)
        ultimately show ?thesis
          using old all True unfolding file_inv_def Let_def t by simp
      qed
    qed
  qed (use d di' pc in \<open>simp_all add: dst_running_def dst_moved_def dest_progress_def Let_def\<close>)
  with step show ?thesis by auto
qed

lemma dest_step_inv:
  assumes inv: "xfer_inv h contents C info data s" and k: "k < C" and en: "dst_enabled (xf_conns s k)"
  shows "\<exists>ch dst'. dest_channel_step g (xf_dst s) (dst_ready (xf_conns s k)) = (Ret ch, dst')
    \<and> xfer_inv h contents C info data (s\<lparr>xf_dst := dst', xf_conns := (xf_conns s)(k := dst_moved (xf_conns s k) ch)\<rparr>)"
proof (cases "dc_pc (cn_dst (xf_conns s k))")
  case Dst_header
  then show ?thesis using dest_header_inv [OF inv k] en by blast
next
  case (Dst_body p l n)
  then show ?thesis using dest_body_inv [OF inv k] by blast
next
  case (Dst_account l n)
  then show ?thesis using dest_account_inv [OF inv k] by blast
next
  case (Dst_progress l n f)
  then show ?thesis using dest_progress_inv [OF inv k] by blast
next
  case (Dst_returned ok)
  let ?c = "xf_conns s k" and ?dst = "xf_dst s"
  let ?c' = "dst_moved ?c (dst_ready ?c)"
  note d = xfer_invD [OF inv] and di = xfer_invD(13) [OF inv k]
  have step: "dest_channel_step g ?dst (dst_ready ?c) = (Ret (dst_ready ?c), ?dst)"
    using Dst_returned by (simp add: dest_channel_step_def dst_ready_def)
  have con: "cn_consumed ?c \<le> length (outbox (sc_sock (cn_src ?c)))" using di by (simp add: dst_inv_def)
  have di': "dst_inv h data ?c'"
    using di Dst_returned con by (simp add: dst_inv_def dst_moved_def dst_ready_def avail_def Let_def)
  have "xfer_inv h contents C info data (s\<lparr>xf_dst := ?dst, xf_conns := (xf_conns s)(k := ?c')\<rparr>)"
  proof (rule xfer_inv_dst_upd [OF inv k])
    show "file_inv C m (data m) (send_ctx (xf_src s) ! m) (recv_ctx ?dst ! m) ((xf_conns s)(k := ?c'))"
      if m: "m < length (files_info info)" for m
      using Dst_returned by (intro file_inv_dst_idle [OF d(14) [OF m] k]) (simp_all add: dst_moved_def dst_ready_def landed_def)
  qed (use d di' Dst_returned in \<open>simp_all add: dst_running_def dst_moved_def dst_ready_def\<close>)
  with step show ?thesis by auto
qed

lemma xfer_step_inv:
  assumes "xfer_step h g contents C s s'" and inv: "xfer_inv h contents C info data s"
  shows "xfer_inv h contents C info data s'"
  using assms
proof (induction rule: xfer_step.induct)
  case (src_move k e s ch src')
  then show ?case using source_step_inv [of h contents C info data s k e] by auto
next
  case (dst_move k s ch dst')
  then show ?case using dest_step_inv [of h contents C info data s k g] by auto
next
  case (dst_close k c s)
  let ?c' = "c\<lparr>cn_dst := (cn_dst c)\<lparr>dc_sock := non_thread_safe_close (dc_sock (cn_dst c))\<rparr>\<rparr>"
  note d = xfer_invD [OF dst_close(3)]
  have di: "dst_inv h data ?c'" using d(13) [OF dst_close(1)] dst_close(2)
    by (cases "dc_pc (cn_dst c)") (simp_all add: dst_inv_def Let_def)
  have "xfer_inv h contents C info data (s\<lparr>xf_dst := xf_dst s, xf_conns := (xf_conns s)(k := ?c')\<rparr>)"
  proof (rule xfer_inv_dst_upd [OF dst_close(3,1)])
    show "file_inv C m (data m) (send_ctx (xf_src s) ! m) (recv_ctx (xf_dst s) ! m) ((xf_conns s)(k := ?c'))"
      if m: "m < length (files_info info)" for m
      using dst_close(2) by (intro file_inv_conn [OF d(14) [OF m] dst_close(1)])
        (simp_all add: acc_blocks_def mid_blocks_def rest_blocks_def overshot_def exhausted_def landed_def)
  qed (use d di dst_close(2) in \<open>simp_all add: dst_running_def\<close>)
  then show ?case by simp
qed

lemma xfer_initial_inv:
  assumes init: "xfer_initial contents C info s"
  shows "xfer_inv h contents C info (file_data contents (xf_src s)) s"
proof -
  let ?src = "xf_src s" and ?dst = "xf_dst s" and ?data = "file_data contents (xf_src s)"
  have g: "src_info ?src = Some info" "dst_info ?dst = Some info" "length (files_info info) < 2 ^ 32"
    "length (send_ctx ?src) = length (files_info info)" "length (recv_ctx ?dst) = length (files_info info)"
    "gate_valid (gate_all_channels_finished ?dst)" "gate_needed (gate_all_channels_finished ?dst) = C"
    "\<not> dst_dispose_required ?dst"
    using init unfolding xfer_initial_def Let_def by blast+
  have f: "curr_offset (send_ctx ?src ! n) = 0" "contents (src_handle (send_ctx ?src ! n)) = Some (?data n)"
    "length (?data n) = unat (file_size (files_info info ! n))" "length (?data n) + (C + 1) * 2 ^ 30 < 2 ^ 64"
    "received_size (recv_ctx ?dst ! n) = 0" "length (dst_pages (recv_ctx ?dst ! n)) = length (?data n)"
    "0 < length (?data n) \<Longrightarrow> dst_file_mapped (recv_ctx ?dst ! n) \<and> dst_handle (recv_ctx ?dst ! n) \<noteq> INVALID_FILE_HANDLE"
    if n: "n < length (files_info info)" for n
  proof -
    have *: "let fsize = unat (file_size (files_info info ! n)); r = recv_ctx ?dst ! n in
            curr_offset (send_ctx ?src ! n) = 0
            \<and> (\<exists>d. contents (src_handle (send_ctx ?src ! n)) = Some d \<and> length d = fsize)
            \<and> fsize + (C + 1) * 2 ^ 30 < 2 ^ 64
            \<and> received_size r = 0 \<and> length (dst_pages r) = fsize
            \<and> (0 < fsize \<longrightarrow> dst_file_mapped r \<and> dst_handle r \<noteq> INVALID_FILE_HANDLE)"
      using init n unfolding xfer_initial_def Let_def by blast
    then obtain d where d: "contents (src_handle (send_ctx ?src ! n)) = Some d"
      "length d = unat (file_size (files_info info ! n))" unfolding Let_def by blast
    then have "?data n = d" by (simp add: file_data_def)
    with * d show "curr_offset (send_ctx ?src ! n) = 0" "contents (src_handle (send_ctx ?src ! n)) = Some (?data n)"
      "length (?data n) = unat (file_size (files_info info ! n))" "length (?data n) + (C + 1) * 2 ^ 30 < 2 ^ 64"
      "received_size (recv_ctx ?dst ! n) = 0" "length (dst_pages (recv_ctx ?dst ! n)) = length (?data n)"
      "0 < length (?data n) \<Longrightarrow> dst_file_mapped (recv_ctx ?dst ! n) \<and> dst_handle (recv_ctx ?dst ! n) \<noteq> INVALID_FILE_HANDLE"
      unfolding Let_def by simp_all
  qed
  have c: "\<exists>b sock. sc_pc (cn_src (xf_conns s k)) = Src_fetch 0 b \<and> block_size_ok b
      \<and> outbox (sc_sock (cn_src (xf_conns s k))) = [] \<and> cn_dst (xf_conns s k) = dest_channel_start sock
      \<and> cn_consumed (xf_conns s k) = 0 \<and> cn_blocks (xf_conns s k) = [] \<and> cn_got (xf_conns s k) = 0"
    if k: "k < C" for k
  proof -
    obtain sock sock' where o: "outbox sock = []" and st: "source_channel_start ?src sock = Ret (cn_src (xf_conns s k))"
      and rest: "cn_dst (xf_conns s k) = dest_channel_start sock'" "cn_consumed (xf_conns s k) = 0"
        "cn_blocks (xf_conns s k) = []" "cn_got (xf_conns s k) = 0"
      using init k unfolding xfer_initial_def Let_def by blast
    from st have "cn_src (xf_conns s k) = \<lparr>sc_sock = sock, sc_pc = Src_fetch 0 (init_transfer_block_size ?src)\<rparr>"
      and "0 < init_transfer_block_size ?src" "init_transfer_block_size ?src \<le> MAX_TRANSFER_BLOCK_SIZE"
      by (auto simp: source_channel_start_def split: if_splits)
    with o rest show ?thesis
      by (auto simp: block_size_ok_def MAX_TRANSFER_BLOCK_SIZE_def word_less_nat_alt word_le_nat_alt)
  qed
  have zero: "acc_blocks n (xf_conns s k) = {#}" "mid_blocks n (xf_conns s k) = {#}" "rest_blocks n (xf_conns s k) = {#}"
    "exhausted n (xf_conns s k) = False" "dst_running (xf_conns s k) = 1" "dc_pc (cn_dst (xf_conns s k)) = Dst_header"
    "src_inv h ?data F (xf_conns s k)" "dst_inv h ?data (xf_conns s k)" if k: "k < C" for n k F
    using c [OF k] by (auto simp: acc_blocks_def mid_blocks_def rest_blocks_def exhausted_def dst_running_def
        dest_channel_start_def src_inv_def dst_inv_def landed_def)
  show ?thesis
  proof (rule xfer_invI)
    show "gate_needed (gate_all_channels_finished ?dst) = (\<Sum>k<C. dst_running (xf_conns s k))"
      using g(7) zero(5) by simp
    show "file_inv C n (?data n) (send_ctx ?src ! n) (recv_ctx ?dst ! n) (xf_conns s)"
      if n: "n < length (files_info info)" for n
    proof -
      have t: "all_of C (acc_blocks n) (xf_conns s) = {#}" "all_of C (mid_blocks n) (xf_conns s) = {#}"
        "all_of C (rest_blocks n) (xf_conns s) = {#}"
        using zero(1-3) by (simp_all add: all_of_def)
      show ?thesis
        unfolding file_inv_def Let_def t using f [OF n] zero(4,6) by (simp add: tiling_empty)
    qed
    show "length (files_info info) < 2 ^ 32" by (rule g(3))
    show "length (?data n) + (C + 1) * 2 ^ 30 < 2 ^ 64" if "n < length (files_info info)" for n
      using f(4) [OF that] .
  qed (use g f zero in simp_all)
qed

lemma handles_step:
  "xfer_step h g contents C s s' \<Longrightarrow> xfer_inv h contents C info data s
    \<Longrightarrow> n < length (files_info info) \<Longrightarrow> file_data contents (xf_src s') n = file_data contents (xf_src s) n"
  using xfer_invD(6) [of h contents C info data s n] xfer_invD(6) [OF xfer_step_inv, of h g contents C s s' info data n]
  by (simp add: file_data_def)

lemma xfer_reachable_inv:
  "xfer_reachable h g contents C info s \<Longrightarrow> \<exists>data. xfer_inv h contents C info data s"
proof (induction rule: xfer_reachable.induct)
  case (xfer_first s)
  then show ?case using xfer_initial_inv by blast
next
  case (xfer_next s s')
  then show ?case using xfer_step_inv by blast
qed

lemma file_data_inv:
  "xfer_inv h contents C info data s \<Longrightarrow> n < length (files_info info) \<Longrightarrow> file_data contents (xf_src s) n = data n"
  using xfer_invD(6) [of h contents C info data s n] by (simp add: file_data_def)

text \<open>When every block has been accounted for, the file is the source's.\<close>

lemma file_inv_complete:
  assumes inv: "file_inv C n d sc rc conns"
    and all: "\<And>k. k < C \<Longrightarrow> mid_blocks n (conns k) = {#} \<and> rest_blocks n (conns k) = {#} \<and> exhausted n (conns k)"
    and C: "0 < C"
  shows "dst_pages rc = d \<and> unat (received_size rc) = length d"
proof -
  have e: "all_of C (mid_blocks n) conns = {#}" "all_of C (rest_blocks n) conns = {#}"
    using all by (simp_all add: all_of_def)
  let ?A = "all_of C (acc_blocks n) conns"
  have "length d \<le> unat (curr_offset sc)"
    using inv all [OF C] C unfolding file_inv_def Let_def by blast
  then have m: "min (unat (curr_offset sc)) (length d) = length d" by simp
  have t: "tiling ?A (length d)"
    using inv e m by (simp add: file_inv_def Let_def del: min.absorb_iff1 min.absorb_iff2)
  have len: "length (dst_pages rc) = length d" and eq: "\<And>x. x \<in># ?A \<Longrightarrow> block_equal (dst_pages rc) d x"
    and r: "unat (received_size rc) = bytes_of ?A"
    using inv e by (simp_all add: file_inv_def Let_def)
  have "dst_pages rc ! i = d ! i" if i: "i < length d" for i
  proof -
    obtain x where x: "x \<in># ?A" "piece_start x \<le> i" "i < piece_start x + piece_length x"
      using tiling_cover [OF t i] by blast
    have "take (piece_length x) (drop (piece_start x) (dst_pages rc)) ! (i - piece_start x)
        = take (piece_length x) (drop (piece_start x) d) ! (i - piece_start x)"
      using eq [OF x(1)] by (simp add: block_equal_def)
    then show ?thesis using x i len by simp
  qed
  then have "dst_pages rc = d" using len by (intro nth_equalityI) simp_all
  with r tiling_bytes [OF t] show ?thesis by simp
qed

end
