(* ===== verification/Transfer_Correct.thy ===== *)
theory Transfer_Correct
  imports Channels
begin

text \<open>
  What the interleaved channels of \<open>Channels\<close> guarantee: no assertion fails and no byte is written
  outside a mapping, every byte of every file is handed out once, the destination's files are the
  source's when all channels have reported success, the portal reports exactly when the last
  channel has returned, and the work ends. One theorem shows a defect: the report is also sent when
  a channel has failed.
\<close>

section \<open>Running a schedule\<close>

datatype move = Move_src nat int | Move_dst nat | Move_close nat

fun xfer_move :: "endian \<Rightarrow> endian \<Rightarrow> (int \<Rightarrow> byte list option) \<Rightarrow> nat \<Rightarrow> move \<Rightarrow> xfer \<Rightarrow> xfer option" where
  "xfer_move h g contents C (Move_src k e) s =
     (if k < C then (case source_channel_step h contents e (xf_src s) (cn_src (xf_conns s k)) of
          (Ret ch, src') \<Rightarrow> Some (s\<lparr>xf_src := src', xf_conns := (xf_conns s)(k := src_moved (xf_conns s k) ch)\<rparr>)
        | _ \<Rightarrow> None)
      else None)"
| "xfer_move h g contents C (Move_dst k) s =
     (if k < C \<and> dst_enabled (xf_conns s k)
      then (case dest_channel_step g (xf_dst s) (dst_ready (xf_conns s k)) of
          (Ret ch, dst') \<Rightarrow> Some (s\<lparr>xf_dst := dst', xf_conns := (xf_conns s)(k := dst_moved (xf_conns s k) ch)\<rparr>)
        | _ \<Rightarrow> None)
      else None)"
| "xfer_move h g contents C (Move_close k) s =
     (if k < C then (let c = xf_conns s k in
        Some (s\<lparr>xf_conns := (xf_conns s)(k := c\<lparr>cn_dst := (cn_dst c)\<lparr>dc_sock := non_thread_safe_close (dc_sock (cn_dst c))\<rparr>\<rparr>)\<rparr>))
      else None)"

fun xfer_run :: "endian \<Rightarrow> endian \<Rightarrow> (int \<Rightarrow> byte list option) \<Rightarrow> nat \<Rightarrow> move list \<Rightarrow> xfer \<Rightarrow> xfer option" where
  "xfer_run h g contents C [] s = Some s"
| "xfer_run h g contents C (m # ms) s =
     (case xfer_move h g contents C m s of None \<Rightarrow> None | Some s' \<Rightarrow> xfer_run h g contents C ms s')"

lemma xfer_move_step: "xfer_move h g contents C m s = Some s' \<Longrightarrow> xfer_step h g contents C s s'"
proof (cases m)
  case (Move_src k e)
  then show "xfer_move h g contents C m s = Some s' \<Longrightarrow> ?thesis"
    by (auto split: if_splits prod.splits outcome.splits intro: src_move)
next
  case (Move_dst k)
  then show "xfer_move h g contents C m s = Some s' \<Longrightarrow> ?thesis"
    by (auto split: if_splits prod.splits outcome.splits intro: dst_move)
next
  case (Move_close k)
  then show "xfer_move h g contents C m s = Some s' \<Longrightarrow> ?thesis"
    by (auto simp: Let_def split: if_splits intro: dst_close)
qed

lemma xfer_run_reachable:
  "xfer_run h g contents C ms s = Some s' \<Longrightarrow> xfer_reachable h g contents C info s
    \<Longrightarrow> xfer_reachable h g contents C info s'"
proof (induction ms arbitrary: s)
  case (Cons m ms)
  then obtain s1 where s1: "xfer_move h g contents C m s = Some s1" "xfer_run h g contents C ms s1 = Some s'"
    by (auto split: option.splits)
  show ?case by (rule Cons.IH [OF s1(2) xfer_next [OF Cons.prems(2) xfer_move_step [OF s1(1)]]])
qed simp

section \<open>An example transfer\<close>

text \<open>
  Two channels send a file of three bytes in blocks of two, from a little-endian host to a
  big-endian one.
\<close>

definition demo_contents :: "int \<Rightarrow> byte list option" where
  "demo_contents fd = (if fd = 5 then Some [10, 20, 30] else None)"

definition demo_info :: basic_transfer_info where
  "demo_info = \<lparr>source_is_directory = False, dirs_info = [],
     files_info = [\<lparr>file_path = ''a'', file_size = 3, file_perm = 420\<rparr>]\<rparr>"

definition demo_source :: transfer_source where
  "demo_source = \<lparr>is_transfer_block_size_fixed = True, init_transfer_block_size = 2,
     send_ctx = [\<lparr>curr_offset = 0, src_handle = 5\<rparr>], src_info = Some demo_info,
     src_transferred_size = 0, src_total_size = 3\<rparr>"

definition demo_destination :: transfer_destination where
  "demo_destination = \<lparr>requested_dst_path = ''b'',
     gate_all_channels_finished = \<lparr>mre = False, curr_signal_count = 0, at_least_signal = 2\<rparr>,
     recv_ctx = [\<lparr>received_size = 0, mapped_length = 3, dst_file_mapped = True, dst_handle = 6, dst_pages = [0, 0, 0]\<rparr>],
     dst_info = Some demo_info, dst_transferred_size = 0, dst_total_size = 3, dst_dispose_required = False\<rparr>"

definition demo_conn :: conn where
  "demo_conn = \<lparr>cn_src = \<lparr>sc_sock = \<lparr>sock_open = True, inbox = [], outbox = [], send_room = 100\<rparr>, sc_pc = Src_fetch 0 2\<rparr>,
     cn_dst = dest_channel_start \<lparr>sock_open = True, inbox = [], outbox = [], send_room = 100\<rparr>,
     cn_consumed = 0, cn_blocks = [], cn_got = 0\<rparr>"

definition demo_start :: xfer where
  "demo_start = \<lparr>xf_src = demo_source, xf_dst = demo_destination, xf_conns = (\<lambda>_. demo_conn)\<rparr>"

lemmas demo_state = demo_start_def demo_source_def demo_destination_def demo_info_def demo_conn_def demo_contents_def

lemmas demo_eval = source_channel_step_def fetch_add_offset_def dispensed_block_def socket_send_file_def socket_send_def
  socket_sendv_def internal_sendv_def sys_write_def sys_sendfile_def src_moved_def dst_moved_def dst_ready_def dst_enabled_def
  avail_def dest_channel_step_def dest_recv_header_def dest_recv_body_def dest_account_def dest_progress_def
  dest_channel_return_def socket_recv_def sys_recv_def src_sent_def src_returned_def Let_def close_recv_handle_def
  unmap_file_def poke_def INVALID_FILE_HANDLE_def dest_channel_start_def gate_signal_def seq_st_def assert_st_def
  gate_initialized_def INVALID_SIGNAL_COUNT_def non_thread_safe_close_def

lemma demo_initial: "xfer_initial demo_contents 2 demo_info demo_start"
  by (auto simp: xfer_initial_def demo_state Let_def source_channel_start_def MAX_TRANSFER_BLOCK_SIZE_def
      INVALID_FILE_HANDLE_def gate_valid_def gate_initialized_def gate_needed_def INVALID_SIGNAL_COUNT_def)

lemma demo_reachable: "xfer_reachable LittleEndian BigEndian demo_contents 2 demo_info demo_start"
  by (rule xfer_first [OF demo_initial])

text \<open>A run to the end, and a run in which the first destination socket is closed early.\<close>

definition demo_schedule :: "move list" where
  "demo_schedule = [Move_src 0 0, Move_src 1 0, Move_src 1 0, Move_src 0 0, Move_dst 1, Move_dst 0, Move_dst 1,
     Move_dst 1, Move_dst 1, Move_src 0 0, Move_src 0 0, Move_src 1 0, Move_src 1 0, Move_dst 1,
     Move_dst 0, Move_dst 0, Move_dst 0, Move_dst 0]"

definition demo_final :: xfer where
  "demo_final = the (xfer_run LittleEndian BigEndian demo_contents 2 demo_schedule demo_start)"

definition broken_schedule :: "move list" where
  "broken_schedule = [Move_close 0, Move_dst 0, Move_src 1 0, Move_src 1 0, Move_src 0 0, Move_src 0 0,
     Move_src 1 0, Move_src 1 0, Move_dst 1, Move_dst 1, Move_dst 1, Move_dst 1, Move_dst 1]"

definition broken_final :: xfer where
  "broken_final = the (xfer_run LittleEndian BigEndian demo_contents 2 broken_schedule demo_start)"

lemma demo_run:
  "\<exists>s. xfer_run LittleEndian BigEndian demo_contents 2 demo_schedule demo_start = Some s
    \<and> sc_pc (cn_src (xf_conns s 0)) = Src_returned True \<and> dc_pc (cn_dst (xf_conns s 0)) = Dst_returned True
    \<and> sc_pc (cn_src (xf_conns s 1)) = Src_returned True \<and> dc_pc (cn_dst (xf_conns s 1)) = Dst_returned True"
  by (simp add: demo_state demo_eval demo_schedule_def)

lemma demo_final_reachable: "xfer_reachable LittleEndian BigEndian demo_contents 2 demo_info demo_final"
  using demo_run xfer_run_reachable [OF _ demo_reachable] by (auto simp: demo_final_def)

lemma demo_final_returned:
  "k < 2 \<Longrightarrow> sc_pc (cn_src (xf_conns demo_final k)) = Src_returned True"
  "k < 2 \<Longrightarrow> dc_pc (cn_dst (xf_conns demo_final k)) = Dst_returned True"
  using demo_run by (auto simp: demo_final_def less_2_cases_iff)

definition sent_schedule :: "move list" where
  "sent_schedule = [Move_src 0 0, Move_src 0 0]"

definition demo_sent :: xfer where
  "demo_sent = the (xfer_run LittleEndian BigEndian demo_contents 2 sent_schedule demo_start)"

lemma demo_sent_run:
  "\<exists>s. xfer_run LittleEndian BigEndian demo_contents 2 sent_schedule demo_start = Some s \<and> dst_enabled (xf_conns s 0)"
  by (simp add: demo_state demo_eval sent_schedule_def)

lemma demo_sent_reachable: "xfer_reachable LittleEndian BigEndian demo_contents 2 demo_info demo_sent"
  using demo_sent_run xfer_run_reachable [OF _ demo_reachable] by (auto simp: demo_sent_def)

lemma demo_sent_enabled: "dst_enabled (xf_conns demo_sent 0)"
  using demo_sent_run by (auto simp: demo_sent_def)

lemma broken_run:
  "\<exists>s. xfer_run LittleEndian BigEndian demo_contents 2 broken_schedule demo_start = Some s
    \<and> dc_pc (cn_dst (xf_conns s 0)) = Dst_returned False \<and> dc_pc (cn_dst (xf_conns s 1)) = Dst_returned True
    \<and> dst_pages (recv_ctx (xf_dst s) ! 0) = [10, 20, 0]
    \<and> mre (gate_all_channels_finished (xf_dst s)) \<and> at_least_signal (gate_all_channels_finished (xf_dst s)) = 2"
  by (simp add: demo_state demo_eval broken_schedule_def)

section \<open>Safety\<close>

text \<open>C3: no step of either side fails: in every state that the interleaved channels can reach from a properly
  opened transfer, the next step of a source channel, and the next step of a destination channel
  that does not block, run to their end. No \<open>ASSERT\<close> of \<open>invoke_channel\<close> fails, no list is indexed out of
  range, and the destination never writes outside the mapped file or through an unmapped one.\<close>

theorem channels_safe:
  assumes "xfer_reachable h g contents C info s" and "k < C"
  shows "(\<exists>ch src'. source_channel_step h contents e (xf_src s) (cn_src (xf_conns s k)) = (Ret ch, src'))
    \<and> (dst_enabled (xf_conns s k) \<longrightarrow>
        (\<exists>ch dst'. dest_channel_step g (xf_dst s) (dst_ready (xf_conns s k)) = (Ret ch, dst')))"
proof -
  obtain data where inv: "xfer_inv h contents C info data s" using xfer_reachable_inv [OF assms(1)] by blast
  show ?thesis using source_step_inv [OF inv assms(2), of e] dest_step_inv [OF inv assms(2), of g] by blast
qed

theorem channels_safe_witness:
  "(\<exists>ch src'. source_channel_step LittleEndian demo_contents 0 (xf_src demo_sent) (cn_src (xf_conns demo_sent 0)) = (Ret ch, src'))
    \<and> (\<exists>ch dst'. dest_channel_step BigEndian (xf_dst demo_sent) (dst_ready (xf_conns demo_sent 0)) = (Ret ch, dst'))"
  using channels_safe [OF demo_sent_reachable, of 0 0] demo_sent_enabled by simp

section \<open>Every byte is handed out once\<close>

lemma held_blocks:
  "acc_blocks n c + mid_blocks n c + rest_blocks n c = of_file n (cn_blocks c @ src_sent (sc_pc (cn_src c)))"
proof -
  have "cn_blocks c = take (cn_got c) (cn_blocks c)
      @ take (landed c) (drop (cn_got c) (cn_blocks c)) @ drop (cn_got c + landed c) (cn_blocks c)"
    by (metis append_take_drop_id drop_drop add.commute)
  then have "of_file n (cn_blocks c) = of_file n (take (cn_got c) (cn_blocks c))
      + (of_file n (take (landed c) (drop (cn_got c) (cn_blocks c))) + of_file n (drop (cn_got c + landed c) (cn_blocks c)))"
    by (metis of_file_simps(2))
  then show ?thesis by (simp add: acc_blocks_def mid_blocks_def rest_blocks_def add.assoc)
qed

lemma blocks_of_file:
  "src_sent (sc_pc (cn_src c)) = [] \<Longrightarrow> acc_blocks n c + mid_blocks n c + rest_blocks n c = of_file n (cn_blocks c)"
  by (simp add: held_blocks)

lemma all_of_add: "all_of C f conns + all_of C g conns = all_of C (\<lambda>c. f c + g c) conns"
  by (simp add: all_of_def sum.distrib)

lemma handed_out_once:
  assumes inv: "xfer_inv h contents C info data s" and C: "0 < C"
    and ret: "\<forall>k<C. sc_pc (cn_src (xf_conns s k)) = Src_returned True" and n: "n < length (files_info info)"
  shows "tiling (\<Sum>k<C. of_file n (cn_blocks (xf_conns s k))) (unat (file_size (files_info info ! n)))"
proof -
  note fi = xfer_invD(14) [OF inv n]
  let ?A = "all_of C (acc_blocks n) (xf_conns s) + all_of C (mid_blocks n) (xf_conns s) + all_of C (rest_blocks n) (xf_conns s)"
  have "exhausted n (xf_conns s 0)" using ret C by (simp add: exhausted_def)
  with fi C have "length (data n) \<le> unat (curr_offset (send_ctx (xf_src s) ! n))"
    unfolding file_inv_def Let_def by blast
  then have m: "min (unat (curr_offset (send_ctx (xf_src s) ! n))) (length (data n)) = length (data n)" by simp
  have "tiling ?A (length (data n))"
    using fi m by (simp add: file_inv_def Let_def del: min.absorb_iff1 min.absorb_iff2)
  moreover have "?A = (\<Sum>k<C. of_file n (cn_blocks (xf_conns s k)))"
    unfolding all_of_add unfolding all_of_def
  proof (rule sum.cong)
    fix k assume "k \<in> {..<C}"
    then show "acc_blocks n (xf_conns s k) + mid_blocks n (xf_conns s k) + rest_blocks n (xf_conns s k)
        = of_file n (cn_blocks (xf_conns s k))"
      using ret by (intro blocks_of_file) simp
  qed simp
  ultimately show ?thesis using xfer_invD(7) [OF inv n] by simp
qed

text \<open>C4: the shared offsets hand out every byte exactly once: when all source channels have returned
  successfully, the blocks of a file that the channels have sent, all together and in some order,
  follow each other without gap or overlap from 0 to the file's size, whatever block sizes the
  channels used and however their \<open>fetch_add\<close> calls were interleaved.\<close>

theorem blocks_tile_file:
  assumes "xfer_reachable h g contents C info s" and "0 < C"
    and "\<forall>k<C. sc_pc (cn_src (xf_conns s k)) = Src_returned True" and "n < length (files_info info)"
  shows "\<exists>bs. mset bs = (\<Sum>k<C. mset (filter (\<lambda>b. fst b = n) (cn_blocks (xf_conns s k))))
    \<and> tiles 0 bs (unat (file_size (files_info info ! n)))"
  using xfer_reachable_inv [OF assms(1)] handed_out_once [OF _ assms(2-4)] by (auto simp: tiling_def of_file_def)

theorem blocks_tile_file_witness:
  "\<exists>bs. mset bs = (\<Sum>k<2. mset (filter (\<lambda>b. fst b = 0) (cn_blocks (xf_conns demo_final k)))) \<and> tiles 0 bs 3"
  using blocks_tile_file [OF demo_final_reachable, of 0] demo_final_returned by (simp add: demo_info_def)

section \<open>The files are equal\<close>

lemma returned_complete:
  assumes inv: "xfer_inv h contents C info data s" and k: "k < C"
    and ret: "dc_pc (cn_dst (xf_conns s k)) = Dst_returned True"
  shows "mid_blocks n (xf_conns s k) = {#} \<and> rest_blocks n (xf_conns s k) = {#} \<and> exhausted n (xf_conns s k)"
proof -
  have "dst_inv h data (xf_conns s k)" using xfer_invD(13) [OF inv k] .
  with ret have "cn_got (xf_conns s k) = length (cn_blocks (xf_conns s k))"
    "sc_pc (cn_src (xf_conns s k)) = Src_returned True" by (simp_all add: dst_inv_def)
  with ret show ?thesis by (simp add: mid_blocks_def rest_blocks_def exhausted_def landed_def)
qed

text \<open>The transfer is correct: when every destination channel has returned successfully, each file at the
  destination is, byte for byte, what the source's file descriptor reads, and as many bytes have
  been counted as the file is long.\<close>

theorem transfer_correct:
  assumes "xfer_reachable h g contents C info s" and "0 < C"
    and "\<forall>k<C. dc_pc (cn_dst (xf_conns s k)) = Dst_returned True" and "n < length (files_info info)"
  shows "contents (src_handle (send_ctx (xf_src s) ! n)) = Some (dst_pages (recv_ctx (xf_dst s) ! n))
    \<and> received_size (recv_ctx (xf_dst s) ! n) = file_size (files_info info ! n)"
proof -
  obtain data where inv: "xfer_inv h contents C info data s" using xfer_reachable_inv [OF assms(1)] by blast
  have "dst_pages (recv_ctx (xf_dst s) ! n) = data n
      \<and> unat (received_size (recv_ctx (xf_dst s) ! n)) = length (data n)"
    using returned_complete [OF inv] assms(3)
    by (intro file_inv_complete [OF xfer_invD(14) [OF inv assms(4)] _ assms(2)]) blast
  then show ?thesis using xfer_invD(6,7) [OF inv assms(4)] by (simp add: word_unat_eq_iff)
qed

theorem transfer_correct_witness:
  "demo_contents (src_handle (send_ctx (xf_src demo_final) ! 0)) = Some (dst_pages (recv_ctx (xf_dst demo_final) ! 0))
    \<and> received_size (recv_ctx (xf_dst demo_final) ! 0) = 3"
  using transfer_correct [OF demo_final_reachable, of 0] demo_final_returned by (simp add: demo_info_def)

section \<open>The gate\<close>

lemma dst_running_0: "dst_running c = 0 \<longleftrightarrow> (\<exists>ok. dc_pc (cn_dst c) = Dst_returned ok)"
  by (simp add: dst_running_def split: dest_pc.split)

lemma gate_wait_needed: "gate_valid g \<Longrightarrow> gate_wait g = Ret (if gate_needed g = 0 then Some () else None)"
  using gate.wait_needed by blast

text \<open>C7: the destination's portal is not stuck and does not report early: \<open>invoke_portal\<close> is still blocked exactly
  as long as some destination channel has not returned.\<close>

theorem portal_waits_for_channels:
  assumes "xfer_reachable h g contents C info s"
  shows "dest_invoke_portal g (xf_dst s) sock = (Ret None, sock)
    \<longleftrightarrow> (\<exists>k<C. \<forall>ok. dc_pc (cn_dst (xf_conns s k)) \<noteq> Dst_returned ok)"
proof -
  obtain data where inv: "xfer_inv h contents C info data s" using xfer_reachable_inv [OF assms(1)] by blast
  note i = xfer_invD [OF inv]
  have "gate_needed (gate_all_channels_finished (xf_dst s)) = 0 \<longleftrightarrow> (\<forall>k<C. dst_running (xf_conns s k) = 0)"
    unfolding i(10) by auto
  also have "\<dots> \<longleftrightarrow> \<not> (\<exists>k<C. \<forall>ok. dc_pc (cn_dst (xf_conns s k)) \<noteq> Dst_returned ok)"
    unfolding dst_running_0 by blast
  finally show ?thesis using gate_wait_needed [OF i(9)]
    by (auto simp: dest_invoke_portal_def split: outcome.splits prod.splits)
qed

definition demo_sock :: os_socket_t where
  "demo_sock = \<lparr>sock_open = True, inbox = [], outbox = [], send_room = 100\<rparr>"

theorem portal_waits_for_channels_witness:
  "dest_invoke_portal BigEndian (xf_dst demo_start) demo_sock = (Ret None, demo_sock)
    \<longleftrightarrow> (\<exists>k<2. \<forall>ok. dc_pc (cn_dst (xf_conns demo_start k)) \<noteq> Dst_returned ok)"
  by (rule portal_waits_for_channels [OF demo_reachable])

section \<open>The report\<close>

definition report :: message_transfer_destination_finished where
  "report = \<lparr>fin_error_code = 0, fin_error_message = []\<rparr>"

lemma report_archive: "\<exists>b. archive_of save_finished g report = Ret b \<and> length b = 13"
  by (simp add: report_def archive_of_def output_archive_def saveBinary_def out_convert_def cat_def save_finished_def
      save_as_def save_pair_def save_u32_def save_u64_def save_string_def save_uint_def)

lemma report_delivered:
  assumes "gate_wait (gate_all_channels_finished d) = Ret (Some ())" and "sock_open sock" and "21 \<le> send_room sock"
  shows "\<exists>sock'. dest_invoke_portal g d sock = (Ret (Some True), sock')
    \<and> (\<forall>r rest. sock_open r \<and> outbox sock @ inbox r = outbox sock' @ rest
        \<longrightarrow> source_invoke_portal h r = (Ret True, r\<lparr>inbox := rest\<rparr>))"
proof -
  obtain b where b: "archive_of save_finished g report = Ret b" "length b = 13" using report_archive by blast
  obtain sock' where snd: "message_send TRANSFER_DESTINATION_FINISHED save_finished g report sock = (Ret True, sock')"
    using message_send_enough [OF b(1) _ assms(2)] assms(3) b(2) by (auto simp: INT32_MAX_def)
  have "source_invoke_portal h r = (Ret True, r\<lparr>inbox := rest\<rparr>)"
    if "sock_open r" "outbox sock @ inbox r = outbox sock' @ rest" for r rest
    using finished_codec.message_round_trip [OF _ _ snd that, of h]
    by (simp add: source_invoke_portal_def finished_ok_def report_def)
  with snd assms(1) show ?thesis by (auto simp: dest_invoke_portal_def report_def [symmetric])
qed

lemma all_returned_open:
  assumes "xfer_inv h contents C info data s" and "\<forall>k<C. \<exists>ok. dc_pc (cn_dst (xf_conns s k)) = Dst_returned ok"
  shows "gate_wait (gate_all_channels_finished (xf_dst s)) = Ret (Some ())"
proof -
  note i = xfer_invD [OF assms(1)]
  have "gate_needed (gate_all_channels_finished (xf_dst s)) = 0"
    unfolding i(10) using assms(2) dst_running_0 by simp
  with gate_wait_needed [OF i(9)] show ?thesis by simp
qed

text \<open>The verdict arrives: once every destination channel has returned, the destination's portal sends
  its report, and a source on a host of any byte order that reads the report ends its portal with
  success, having consumed exactly the report.\<close>

theorem portal_report:
  assumes "xfer_reachable h g contents C info s"
    and "\<forall>k<C. \<exists>ok. dc_pc (cn_dst (xf_conns s k)) = Dst_returned ok"
    and "sock_open sock" and "21 \<le> send_room sock"
  shows "\<exists>sock'. dest_invoke_portal g (xf_dst s) sock = (Ret (Some True), sock')
    \<and> (\<forall>r rest. sock_open r \<and> outbox sock @ inbox r = outbox sock' @ rest
        \<longrightarrow> source_invoke_portal h r = (Ret True, r\<lparr>inbox := rest\<rparr>))"
  using xfer_reachable_inv [OF assms(1)] report_delivered [OF all_returned_open [OF _ assms(2)] assms(3,4)] by blast

theorem portal_report_witness:
  "\<exists>sock'. dest_invoke_portal BigEndian (xf_dst demo_final) demo_sock = (Ret (Some True), sock')
    \<and> source_invoke_portal LittleEndian (demo_sock\<lparr>inbox := outbox sock' @ [7]\<rparr>) = (Ret True, demo_sock\<lparr>inbox := [7]\<rparr>)"
proof -
  have "\<forall>k<2. \<exists>ok. dc_pc (cn_dst (xf_conns demo_final k)) = Dst_returned ok" using demo_final_returned by blast
  from portal_report [OF demo_final_reachable this, of demo_sock]
  obtain sock' where "dest_invoke_portal BigEndian (xf_dst demo_final) demo_sock = (Ret (Some True), sock')"
    and r: "\<And>r rest. sock_open r \<Longrightarrow> outbox demo_sock @ inbox r = outbox sock' @ rest
      \<Longrightarrow> source_invoke_portal LittleEndian r = (Ret True, r\<lparr>inbox := rest\<rparr>)"
    by (auto simp: demo_sock_def)
  moreover have "source_invoke_portal LittleEndian (demo_sock\<lparr>inbox := outbox sock' @ [7]\<rparr>) = (Ret True, demo_sock\<lparr>inbox := [7]\<rparr>)"
    using r [of "demo_sock\<lparr>inbox := outbox sock' @ [7]\<rparr>" "[7]"] by (simp add: demo_sock_def)
  ultimately show ?thesis by blast
qed

text \<open>C8: but the report is always a success: with one destination socket closed early (its channel returns false
  and its block is lost), a state is reached in which the file at the destination differs from the
  source's, and still the destination's portal reports error code 0 and the source's portal
  succeeds. The sweeper of \<open>invoke_channel\<close> signals the gate on every return and \<open>invoke_portal\<close> does
  not look at the channels' results.\<close>

theorem incomplete_file_reported_complete:
  "xfer_reachable LittleEndian BigEndian demo_contents 2 demo_info broken_final
    \<and> dc_pc (cn_dst (xf_conns broken_final 0)) = Dst_returned False
    \<and> demo_contents (src_handle (send_ctx (xf_src demo_start) ! 0)) = Some [10, 20, 30]
    \<and> dst_pages (recv_ctx (xf_dst broken_final) ! 0) = [10, 20, 0]
    \<and> (\<exists>sock'. dest_invoke_portal BigEndian (xf_dst broken_final) demo_sock = (Ret (Some True), sock')
        \<and> fst (source_invoke_portal LittleEndian (demo_sock\<lparr>inbox := outbox sock'\<rparr>)) = Ret True)"
proof -
  obtain s where s: "xfer_run LittleEndian BigEndian demo_contents 2 broken_schedule demo_start = Some s"
    and pc: "dc_pc (cn_dst (xf_conns s 0)) = Dst_returned False" and pg: "dst_pages (recv_ctx (xf_dst s) ! 0) = [10, 20, 0]"
    and g: "mre (gate_all_channels_finished (xf_dst s))" "at_least_signal (gate_all_channels_finished (xf_dst s)) = 2"
    using broken_run by blast
  have eq: "broken_final = s" using s by (simp add: broken_final_def)
  have "gate_wait (gate_all_channels_finished (xf_dst s)) = Ret (Some ())"
    using g by (simp add: gate_wait_def gate_initialized_def INVALID_SIGNAL_COUNT_def)
  from report_delivered [OF this, of demo_sock BigEndian LittleEndian]
  obtain sock' where sk: "dest_invoke_portal BigEndian (xf_dst s) demo_sock = (Ret (Some True), sock')"
    and r: "\<And>r rest. sock_open r \<Longrightarrow> outbox demo_sock @ inbox r = outbox sock' @ rest
      \<Longrightarrow> source_invoke_portal LittleEndian r = (Ret True, r\<lparr>inbox := rest\<rparr>)"
    by (auto simp: demo_sock_def)
  from r [of "demo_sock\<lparr>inbox := outbox sock'\<rparr>" "[]"]
  have "fst (source_invoke_portal LittleEndian (demo_sock\<lparr>inbox := outbox sock'\<rparr>)) = Ret True"
    by (simp add: demo_sock_def)
  moreover have "xfer_reachable LittleEndian BigEndian demo_contents 2 demo_info s"
    by (rule xfer_run_reachable [OF s demo_reachable])
  ultimately show ?thesis using sk pc pg unfolding eq by (simp add: demo_state)
qed

end
