(* ===== verification/Transfer_Ends.thy ===== *)
theory Transfer_Ends
  imports Transfer_Correct
begin

text \<open>
  The channels of a transfer finish: a measure that every step of an unfinished channel decreases,
  whatever block sizes the adaptation chooses and whatever the scheduler does, and the absence of a
  deadlock between the blocking receives.
\<close>

section \<open>The measure\<close>

definition remaining :: "transfer_source \<Rightarrow> basic_transfer_info \<Rightarrow> nat \<Rightarrow> nat" where
  "remaining src info n = unat (file_size (files_info info ! n)) - unat (curr_offset (send_ctx src ! n))"

fun src_rank :: "nat \<Rightarrow> source_pc \<Rightarrow> nat" where
  "src_rank F (Src_fetch n b) = F - n + 1"
| "src_rank F (Src_send n p l b) = F - n + 2"
| "src_rank F (Src_returned ok) = 0"

fun dst_rank :: "dest_pc \<Rightarrow> nat" where
  "dst_rank Dst_header = 4"
| "dst_rank (Dst_body p l n) = 3"
| "dst_rank (Dst_account l n) = 2"
| "dst_rank (Dst_progress l n f) = 5"
| "dst_rank (Dst_returned ok) = 0"

definition conn_work :: "nat \<Rightarrow> conn \<Rightarrow> nat" where
  "conn_work F c = 8 * src_rank F (sc_pc (cn_src c)) + 4 * (length (cn_blocks c) - cn_got c) + dst_rank (dc_pc (cn_dst c))"

definition xfer_work :: "nat \<Rightarrow> basic_transfer_info \<Rightarrow> xfer \<Rightarrow> nat" where
  "xfer_work C info s = 16 * (\<Sum>n<length (files_info info). remaining (xf_src s) info n)
     + (\<Sum>k<C. conn_work (length (files_info info)) (xf_conns s k))"

section \<open>Steps of unfinished channels\<close>

fun move_busy :: "move \<Rightarrow> xfer \<Rightarrow> bool" where
  "move_busy (Move_src k e) s \<longleftrightarrow> \<not> src_returned (cn_src (xf_conns s k))"
| "move_busy (Move_dst k) s \<longleftrightarrow> (\<forall>ok. dc_pc (cn_dst (xf_conns s k)) \<noteq> Dst_returned ok)"
| "move_busy (Move_close k) s \<longleftrightarrow> False"

fun busy_run :: "endian \<Rightarrow> endian \<Rightarrow> (int \<Rightarrow> byte list option) \<Rightarrow> nat \<Rightarrow> move list \<Rightarrow> xfer \<Rightarrow> bool" where
  "busy_run h g contents C [] s \<longleftrightarrow> True"
| "busy_run h g contents C (m # ms) s \<longleftrightarrow> move_busy m s
     \<and> (case xfer_move h g contents C m s of None \<Rightarrow> False | Some s' \<Rightarrow> busy_run h g contents C ms s')"

lemma src_step_cases:
  assumes step: "source_channel_step h contents e src ch = (Ret ch', src')" and info: "src_info src = Some info"
    and busy: "\<not> src_returned ch"
  obtains (fetch) n b cur where "sc_pc ch = Src_fetch n b" "n < length (files_info info)" "n < length (send_ctx src)"
      "fetch_add_offset n b src = (cur, src')"
      "sc_pc ch' = (case dispensed_block (file_size (files_info info ! n)) b cur of
         None \<Rightarrow> Src_fetch (n + 1) b | Some l \<Rightarrow> Src_send n cur l b)"
  | (tail) n b ok where "sc_pc ch = Src_fetch n b" "sc_pc ch' = Src_returned ok" "src' = src"
  | (send) n p l b where "sc_pc ch = Src_send n p l b" "send_ctx src' = send_ctx src"
      "(\<exists>b'. sc_pc ch' = Src_fetch n b') \<or> sc_pc ch' = Src_returned False"
proof (cases "sc_pc ch")
  case (Src_fetch n b)
  show thesis
  proof (cases "n < length (files_info info)")
    case True
    have len: "n < length (send_ctx src)"
    proof (rule ccontr)
      assume "\<not> ?thesis"
      with step info Src_fetch True show False by (simp add: source_channel_step_def)
    qed
    obtain cur s1 where f: "fetch_add_offset n b src = (cur, s1)" by force
    show thesis
    proof (cases "dispensed_block (file_size (files_info info ! n)) b cur")
      case None
      then have "source_channel_step h contents e src ch = (Ret (ch\<lparr>sc_pc := Src_fetch (n + 1) b\<rparr>), s1)"
        using info Src_fetch True len f by (simp add: source_channel_step_def)
      with step have "ch' = ch\<lparr>sc_pc := Src_fetch (n + 1) b\<rparr>" "s1 = src'" by simp_all
      with f None show thesis by - (rule fetch [where cur = cur, OF Src_fetch True len], simp_all)
    next
      case (Some l)
      then have "source_channel_step h contents e src ch = (Ret (ch\<lparr>sc_pc := Src_send n cur l b\<rparr>), s1)"
        using info Src_fetch True len f by (simp add: source_channel_step_def)
      with step have "ch' = ch\<lparr>sc_pc := Src_send n cur l b\<rparr>" "s1 = src'" by simp_all
      with f Some show thesis by - (rule fetch [where cur = cur, OF Src_fetch True len], simp_all)
    qed
  next
    case False
    obtain ok sock where "socket_send (final_tail h) (sc_sock ch) = (ok, sock)" by force
    with False step info Src_fetch have "ch' = \<lparr>sc_sock = sock, sc_pc = Src_returned ok\<rparr>" "src' = src"
      by (simp_all add: source_channel_step_def)
    then show thesis by - (rule tail [OF Src_fetch], simp_all)
  qed
next
  case (Src_send n p l b)
  obtain ok sock where s: "socket_send_file (contents (src_handle (send_ctx src ! n))) p l (Some (block_header h p l n)) (sc_sock ch)
    = (ok, sock)" by force
  show thesis
  proof (cases ok)
    case False
    with step info Src_send s have "ch' = \<lparr>sc_sock = sock, sc_pc = Src_returned False\<rparr>" "src' = src"
      by (simp_all add: source_channel_step_def)
    then show thesis by - (rule send [OF Src_send], simp_all)
  next
    case True
    with step info Src_send s have "\<exists>b'. ch' = \<lparr>sc_sock = sock, sc_pc = Src_fetch n b'\<rparr>
        \<and> src' = src\<lparr>src_transferred_size := src_transferred_size src + ucast l\<rparr>"
      by (cases "is_transfer_block_size_fixed src"; cases "adjust_block_size e b")
        (auto simp: source_channel_step_def Let_def)
    then show thesis by (elim exE conjE) (rule send [OF Src_send], simp_all)
  qed
next
  case (Src_returned ok)
  with busy show thesis by (simp add: src_returned_def)
qed

lemma remaining_fetch:
  assumes f: "fetch_add_offset n b src = (cur, src')" and len: "length (send_ctx src) = length (files_info info)"
    and n: "n < length (files_info info)" and b: "0 < unat b"
    and wrap: "unat (curr_offset (send_ctx src ! n) + ucast b) = unat (curr_offset (send_ctx src ! n)) + unat b"
  shows "(\<Sum>m<length (files_info info). remaining src' info m)
    + (case dispensed_block (file_size (files_info info ! n)) b cur of None \<Rightarrow> 0 | Some l \<Rightarrow> 1)
    \<le> (\<Sum>m<length (files_info info). remaining src info m)"
proof -
  let ?F = "length (files_info info)" and ?size = "file_size (files_info info ! n)"
  have cur: "cur = curr_offset (send_ctx src ! n)" and src': "src' = src\<lparr>send_ctx := (send_ctx src)[n :=
      (send_ctx src ! n)\<lparr>curr_offset := curr_offset (send_ctx src ! n) + ucast b\<rparr>]\<rparr>"
    using f by (auto simp: fetch_add_offset_def Let_def)
  have same: "remaining src' info m = remaining src info m" if "m \<noteq> n" for m
    using that by (simp add: remaining_def src')
  have here: "remaining src' info n + (case dispensed_block ?size b cur of None \<Rightarrow> 0 | Some l \<Rightarrow> 1) \<le> remaining src info n"
    using n len wrap b by (auto simp: remaining_def src' cur dispensed_block_def word_le_nat_alt)
  have N: "n \<in> {..<?F}" using n by simp
  have "(\<Sum>m\<in>{..<?F} - {n}. remaining src' info m) = (\<Sum>m\<in>{..<?F} - {n}. remaining src info m)"
    using same by (intro sum.cong) auto
  then show ?thesis
    using here by (simp only: sum.remove [OF finite_lessThan N])
qed

lemma src_move_work:
  assumes inv: "xfer_inv h contents C info data s" and k: "k < C"
    and step: "source_channel_step h contents e (xf_src s) (cn_src (xf_conns s k)) = (Ret ch, src')"
    and busy: "\<not> src_returned (cn_src (xf_conns s k))"
  shows "xfer_work C info (s\<lparr>xf_src := src', xf_conns := (xf_conns s)(k := src_moved (xf_conns s k) ch)\<rparr>) < xfer_work C info s"
proof -
  let ?F = "length (files_info info)" and ?c = "xf_conns s k"
  let ?R = "\<lambda>src. \<Sum>m<?F. remaining src info m"
  note d = xfer_invD [OF inv] and si = xfer_invD(12) [OF inv k] and di = xfer_invD(13) [OF inv k]
  have got: "cn_got ?c \<le> length (cn_blocks ?c)" using di by (simp add: dst_inv_def)
  obtain z where z: "(\<Sum>j<C. conn_work ?F (xf_conns s j)) = z + conn_work ?F ?c"
    "\<And>x. (\<Sum>j<C. conn_work ?F (((xf_conns s)(k := x)) j)) = z + conn_work ?F x"
    by (rule sum_channel [OF k, of "conn_work ?F" "xf_conns s"]) blast
  have "16 * ?R src' + conn_work ?F (src_moved ?c ch) < 16 * ?R (xf_src s) + conn_work ?F ?c"
    using step d(1) busy
  proof (cases rule: src_step_cases)
    case (fetch n b cur)
    have b: "block_size_ok b" using si fetch(1) by (simp add: src_inv_def)
    have w: "unat (curr_offset (send_ctx (xf_src s) ! n) + ucast b) = unat (curr_offset (send_ctx (xf_src s) ! n)) + unat b"
      by (rule fetch_no_wrap [OF d(14) [OF fetch(2)] k fetch(1) b d(8) [OF fetch(2)]])
    note r = remaining_fetch [OF fetch(4) d(4) fetch(2) _ w]
    have m: "src_moved ?c ch = ?c\<lparr>cn_src := ch\<rparr>" by (rule src_moved_fetch [OF fetch(1)])
    show ?thesis
    proof (cases "dispensed_block (file_size (files_info info ! n)) b cur")
      case None
      with r fetch b show ?thesis by (simp add: m conn_work_def block_size_ok_def)
    next
      case (Some l)
      with r b have "?R src' + 1 \<le> ?R (xf_src s)" by (simp add: block_size_ok_def)
      with Some fetch show ?thesis by (simp add: m conn_work_def)
    qed
  next
    case (tail n b ok)
    have m: "src_moved ?c ch = ?c\<lparr>cn_src := ch\<rparr>" by (rule src_moved_fetch [OF tail(1)])
    show ?thesis using tail by (simp add: m conn_work_def)
  next
    case (send n p l b)
    have "n < ?F" using si send(1) by (simp add: src_inv_def)
    moreover have "?R src' = ?R (xf_src s)" using send(2) by (simp add: remaining_def)
    ultimately show ?thesis using send got by (auto simp: conn_work_def src_moved_def)
  qed
  then show ?thesis unfolding xfer_work_def using z by simp
qed

lemma dst_step_rank:
  assumes step: "dest_channel_step g dst ch = (Ret ch', dst')" and busy: "\<forall>ok. dc_pc ch \<noteq> Dst_returned ok"
  shows "dst_rank (dc_pc ch') < dst_rank (dc_pc ch)
    \<or> (\<exists>l n f. dc_pc ch = Dst_account l n \<and> dc_pc ch' = Dst_progress l n f)"
  using assms
  by (auto simp: dest_channel_step_def dest_recv_header_def dest_recv_body_def dest_account_def dest_channel_return_def Let_def
      split: dest_pc.splits prod.splits bool.splits if_splits outcome.splits option.splits)

lemma dst_move_work:
  assumes inv: "xfer_inv h contents C info data s" and k: "k < C"
    and step: "dest_channel_step g (xf_dst s) (dst_ready (xf_conns s k)) = (Ret ch, dst')"
    and busy: "\<forall>ok. dc_pc (cn_dst (xf_conns s k)) \<noteq> Dst_returned ok"
  shows "xfer_work C info (s\<lparr>xf_dst := dst', xf_conns := (xf_conns s)(k := dst_moved (xf_conns s k) ch)\<rparr>) < xfer_work C info s"
proof -
  let ?F = "length (files_info info)" and ?c = "xf_conns s k"
  note di = xfer_invD(13) [OF inv k]
  obtain z where z: "(\<Sum>j<C. conn_work ?F (xf_conns s j)) = z + conn_work ?F ?c"
    "\<And>x. (\<Sum>j<C. conn_work ?F (((xf_conns s)(k := x)) j)) = z + conn_work ?F x"
    by (rule sum_channel [OF k, of "conn_work ?F" "xf_conns s"]) blast
  have pc: "dc_pc (dst_ready ?c) = dc_pc (cn_dst ?c)" by (simp add: dst_ready_def)
  from dst_step_rank [OF step] busy pc
  consider "dst_rank (dc_pc ch) < dst_rank (dc_pc (cn_dst ?c))"
    | l n f where "dc_pc (cn_dst ?c) = Dst_account l n" "dc_pc ch = Dst_progress l n f" by auto
  then have "conn_work ?F (dst_moved ?c ch) < conn_work ?F ?c"
  proof cases
    case 1
    then show ?thesis by (cases "dc_pc (cn_dst ?c)") (auto simp: conn_work_def dst_moved_def)
  next
    case 2
    then have "cn_got ?c < length (cn_blocks ?c)" using di by (auto simp: dst_inv_def Let_def)
    with 2 show ?thesis by (simp add: conn_work_def dst_moved_def)
  qed
  then show ?thesis unfolding xfer_work_def using z by simp
qed

lemma busy_move_work:
  assumes "xfer_inv h contents C info data s" and "move_busy m s" and "xfer_move h g contents C m s = Some s'"
  shows "xfer_work C info s' < xfer_work C info s"
  using assms(2,3) src_move_work [OF assms(1)] dst_move_work [OF assms(1)]
  by (cases m) (auto split: if_splits prod.splits outcome.splits)

lemma busy_run_bound:
  "xfer_inv h contents C info data s \<Longrightarrow> busy_run h g contents C ms s \<Longrightarrow> length ms \<le> xfer_work C info s"
proof (induction ms arbitrary: s)
  case (Cons m ms)
  then obtain s' where m: "move_busy m s" "xfer_move h g contents C m s = Some s'" "busy_run h g contents C ms s'"
    by (auto split: option.splits)
  have "xfer_inv h contents C info data s'" by (rule xfer_step_inv [OF xfer_move_step [OF m(2)] Cons.prems(1)])
  with Cons.IH [OF _ m(3)] busy_move_work [OF Cons.prems(1) m(1,2)] show ?case by fastforce
qed simp

text \<open>C5: the loops of \<open>invoke_channel\<close> end: from any reachable state the channels that have not returned can
  take, all together and in any interleaving, at most \<open>xfer_work\<close> further steps; the bound is
  computed from the bytes not yet handed out, the files left and the blocks in flight.\<close>

theorem transfer_terminates:
  assumes "xfer_reachable h g contents C info s" and "busy_run h g contents C ms s"
  shows "length ms \<le> xfer_work C info s"
  using xfer_reachable_inv [OF assms(1)] busy_run_bound [OF _ assms(2)] by blast

theorem transfer_terminates_witness:
  "length [Move_src 0 0, Move_src 0 0] \<le> xfer_work 2 demo_info demo_start"
  by (rule transfer_terminates [OF demo_reachable]) (simp add: demo_state demo_eval)

section \<open>No deadlock\<close>

lemma not_stuck:
  assumes inv: "xfer_inv h contents C info data s" and k: "k < C"
    and open': "\<not> src_returned (cn_src (xf_conns s k)) \<or> (\<forall>ok. dc_pc (cn_dst (xf_conns s k)) \<noteq> Dst_returned ok)"
  shows "\<exists>m s'. move_busy m s \<and> xfer_move h g contents C m s = Some s'"
proof (cases "src_returned (cn_src (xf_conns s k))")
  case False
  obtain ch src' where "source_channel_step h contents 0 (xf_src s) (cn_src (xf_conns s k)) = (Ret ch, src')"
    using source_step_inv [OF inv k, of 0] by blast
  with False k have "move_busy (Move_src k 0) s
    \<and> xfer_move h g contents C (Move_src k 0) s = Some (s\<lparr>xf_src := src', xf_conns := (xf_conns s)(k := src_moved (xf_conns s k) ch)\<rparr>)"
    by simp
  then show ?thesis by blast
next
  case True
  then have en: "dst_enabled (xf_conns s k)" by (simp add: dst_enabled_def)
  obtain ch dst' where "dest_channel_step g (xf_dst s) (dst_ready (xf_conns s k)) = (Ret ch, dst')"
    using dest_step_inv [OF inv k en, of g] by blast
  with True open' k en have "move_busy (Move_dst k) s
    \<and> xfer_move h g contents C (Move_dst k) s = Some (s\<lparr>xf_dst := dst', xf_conns := (xf_conns s)(k := dst_moved (xf_conns s k) ch)\<rparr>)"
    by simp
  then show ?thesis by blast
qed

lemma can_finish:
  assumes "xfer_inv h contents C info data s"
  shows "\<exists>ms s'. busy_run h g contents C ms s \<and> xfer_run h g contents C ms s = Some s'
    \<and> (\<forall>k<C. src_returned (cn_src (xf_conns s' k)) \<and> (\<exists>ok. dc_pc (cn_dst (xf_conns s' k)) = Dst_returned ok))"
  using assms
proof (induction "xfer_work C info s" arbitrary: s rule: less_induct)
  case less
  show ?case
  proof (cases "\<forall>k<C. src_returned (cn_src (xf_conns s k)) \<and> (\<exists>ok. dc_pc (cn_dst (xf_conns s k)) = Dst_returned ok)")
    case True
    then have "busy_run h g contents C [] s \<and> xfer_run h g contents C [] s = Some s" by simp
    with True show ?thesis by blast
  next
    case False
    then obtain k where k: "k < C" and o: "\<not> src_returned (cn_src (xf_conns s k))
        \<or> (\<forall>ok. dc_pc (cn_dst (xf_conns s k)) \<noteq> Dst_returned ok)" by blast
    obtain m s1 where m: "move_busy m s" "xfer_move h g contents C m s = Some s1"
      using not_stuck [OF less.prems k o, of g] by blast
    have inv1: "xfer_inv h contents C info data s1" by (rule xfer_step_inv [OF xfer_move_step [OF m(2)] less.prems])
    obtain ms s' where ms: "busy_run h g contents C ms s1" "xfer_run h g contents C ms s1 = Some s'"
      and fin: "\<forall>k<C. src_returned (cn_src (xf_conns s' k)) \<and> (\<exists>ok. dc_pc (cn_dst (xf_conns s' k)) = Dst_returned ok)"
      using less.hyps [OF busy_move_work [OF less.prems m] inv1] by blast
    have "busy_run h g contents C (m # ms) s \<and> xfer_run h g contents C (m # ms) s = Some s'" using m ms by simp
    with fin show ?thesis by blast
  qed
qed

text \<open>C6: the blocking receives never deadlock: from any reachable state, steps of the channels that have not
  returned lead to a state in which all channels of both sides have returned.\<close>

theorem transfer_can_finish:
  assumes "xfer_reachable h g contents C info s"
  shows "\<exists>ms s'. busy_run h g contents C ms s \<and> xfer_run h g contents C ms s = Some s'
    \<and> (\<forall>k<C. src_returned (cn_src (xf_conns s' k)) \<and> (\<exists>ok. dc_pc (cn_dst (xf_conns s' k)) = Dst_returned ok))"
  using xfer_reachable_inv [OF assms] can_finish by blast

theorem transfer_can_finish_witness:
  "\<exists>ms s'. busy_run LittleEndian BigEndian demo_contents 2 ms demo_start
    \<and> xfer_run LittleEndian BigEndian demo_contents 2 ms demo_start = Some s'
    \<and> src_returned (cn_src (xf_conns s' 1)) \<and> (\<exists>ok. dc_pc (cn_dst (xf_conns s' 1)) = Dst_returned ok)"
proof -
  have "(1 :: nat) < 2" by simp
  with transfer_can_finish [OF demo_reachable] show ?thesis by meson
qed

end
