(* ===== verification/Paths.thy ===== *)
theory Paths
  imports Xcp_Prelude
begin

text \<open>
  The operations of \<open>std::filesystem::path\<close> the source uses, for POSIX paths: \<open>operator /\<close>,
  \<open>filename\<close>, \<open>is_relative\<close>, and the kinds of file \<open>std::filesystem::status\<close> distinguishes.
\<close>

datatype file_type = Ft_none | Ft_not_found | Ft_regular | Ft_directory | Ft_symlink
  | Ft_block | Ft_character | Ft_fifo | Ft_socket | Ft_unknown

definition is_absolute :: "string \<Rightarrow> bool" where
  "is_absolute p \<longleftrightarrow> p \<noteq> [] \<and> hd p = CHR ''/''"

definition is_relative :: "string \<Rightarrow> bool" where
  "is_relative p \<longleftrightarrow> \<not> is_absolute p"

definition path_filename :: "string \<Rightarrow> string" where
  "path_filename p = rev (takeWhile (\<lambda>c. c \<noteq> CHR ''/'') (rev p))"

definition path_append :: "string \<Rightarrow> string \<Rightarrow> string" where
  "path_append a b =
     (if is_absolute b then b
      else if path_filename a = [] then a @ b
      else a @ ''/'' @ b)"

lemma path_append_absolute [simp]: "is_absolute b \<Longrightarrow> path_append a b = b"
  by (simp add: path_append_def)

lemma path_append_below: "is_relative b \<Longrightarrow> \<exists>sep. path_append a b = a @ sep @ b"
  by (auto simp: path_append_def is_relative_def)

lemma path_filename_no_slash: "CHR ''/'' \<notin> set (path_filename p)"
  by (auto simp: path_filename_def dest: set_takeWhileD)

end
