(* ===== verification/Transfer_Open.thy ===== *)
theory Transfer_Open
  imports Block_Channel Disposable Paths
begin

text \<open>
  Opening and closing the files of a transfer (\<open>transfer.cpp\<close>, the Linux branches): the constructor
  of \<open>transfer_source\<close>, \<open>transfer_destination::init_transfer_info\<close>, what they call, and both
  \<open>dispose_impl\<close>. The file system is a parameter: a record of its calls over an abstract state
  \<open>'w\<close>. A call fails with an \<open>errno\<close>.
\<close>

section \<open>The file system\<close>

record dir_entry =
  entry_path :: string
  entry_relative :: string \<comment> \<open>\<open>stdfs::relative\<close> to the directory that is walked\<close>
  entry_type :: file_type
  entry_perm :: u32

text \<open>
  \<open>px_walk\<close> is a \<open>recursive_directory_iterator\<close>: the entries it gives before it ends or throws.
\<close>

record 'w posix =
  px_status :: "string \<Rightarrow> 'w \<Rightarrow> int + file_type \<times> u32"
  px_weakly_canonical :: "string \<Rightarrow> 'w \<Rightarrow> int + string"
  px_walk :: "string \<Rightarrow> 'w \<Rightarrow> dir_entry list \<times> int option"
  px_open_read :: "string \<Rightarrow> 'w \<Rightarrow> (c_int + int) \<times> 'w"
  px_fstat :: "int \<Rightarrow> 'w \<Rightarrow> c_int + u64 \<times> u32"
  px_open_write :: "string \<Rightarrow> u32 \<Rightarrow> 'w \<Rightarrow> (c_int + int) \<times> 'w"
  px_fchmod :: "int \<Rightarrow> u32 \<Rightarrow> 'w \<Rightarrow> c_int option \<times> 'w"
  px_ftruncate :: "int \<Rightarrow> u64 \<Rightarrow> 'w \<Rightarrow> c_int option \<times> 'w"
  px_mmap :: "int \<Rightarrow> u64 \<Rightarrow> 'w \<Rightarrow> c_int option \<times> 'w"
  px_close :: "int \<Rightarrow> 'w \<Rightarrow> 'w"
  px_create_directories :: "string \<Rightarrow> 'w \<Rightarrow> int option \<times> 'w"
  px_create_directory :: "string \<Rightarrow> 'w \<Rightarrow> int option \<times> 'w"
  px_permissions :: "string \<Rightarrow> u32 \<Rightarrow> 'w \<Rightarrow> int option \<times> 'w"

definition EINVAL :: c_int where
  "EINVAL = 22"

definition ENOENT :: c_int where
  "ENOENT = 2"

definition ENOSYS :: c_int where
  "ENOSYS = 38"

definition PERM_MASK :: u32 where
  "PERM_MASK = 4095"

section \<open>The source\<close>

type_synonym 'w source_st = "transfer_source \<times> 'w"

definition source_open_regular_file ::
  "'w posix \<Rightarrow> string \<Rightarrow> 'w source_st \<Rightarrow> (send_file_context \<times> basic_file_info) outcome \<times> 'w source_st" where
  "source_open_regular_file px path s = (case s of (src, w) \<Rightarrow>
     (case px_open_read px path w of
        (Inl errno, w1) \<Rightarrow> (Throw (Transfer_error errno (''open() '' @ path @ '' for read failed'')), (src, w1))
      | (Inr fd, w1) \<Rightarrow> (case px_fstat px fd w1 of
          Inl errno \<Rightarrow> (Throw (Transfer_error errno (''fstat64() '' @ path @ '' failed'')), (src, w1))
        | Inr (st_size, st_mode) \<Rightarrow>
            (Ret (\<lparr>curr_offset = 0, src_handle = fd\<rparr>,
                  \<lparr>file_path = path_filename path, file_size = st_size, file_perm = st_mode AND PERM_MASK\<rparr>),
             (src\<lparr>src_total_size := src_total_size src + st_size\<rparr>, w1)))))"

definition add_source_file :: "send_file_context \<Rightarrow> basic_file_info \<Rightarrow> transfer_source \<Rightarrow> transfer_source" where
  "add_source_file ctx fi src = src\<lparr>
     src_info := map_option (\<lambda>i. i\<lparr>files_info := files_info i @ [fi]\<rparr>) (src_info src),
     send_ctx := send_ctx src @ [ctx]\<rparr>"

definition add_source_dir :: "basic_directory_info \<Rightarrow> transfer_source \<Rightarrow> transfer_source" where
  "add_source_dir di src = src\<lparr>
     src_info := map_option (\<lambda>i. i\<lparr>dirs_info := dirs_info i @ [di]\<rparr>) (src_info src)\<rparr>"

definition source_prepare_regular_file :: "'w posix \<Rightarrow> string \<Rightarrow> 'w source_st \<Rightarrow> unit outcome \<times> 'w source_st" where
  "source_prepare_regular_file px path = seq_st (\<lambda>s. assert_st (src_info (fst s) = None) s)
     (\<lambda>_ s. seq_st (source_open_regular_file px path)
        (\<lambda>(ctx, fi) s. (Ret (), (add_source_file ctx fi (fst s), snd s)))
        ((fst s)\<lparr>src_info := Some \<lparr>source_is_directory = False, dirs_info = [], files_info = []\<rparr>\<rparr>, snd s))"

fun source_walk :: "'w posix \<Rightarrow> string \<Rightarrow> dir_entry list \<times> int option \<Rightarrow> 'w source_st \<Rightarrow> unit outcome \<times> 'w source_st" where
  "source_walk px dir_name ([], None) s = (Ret (), s)"
| "source_walk px dir_name ([], Some err) s = (Throw (Filesystem_error err), s)"
| "source_walk px dir_name (e # es, err) s =
     (let relative_path = path_append dir_name (entry_relative e) in
      if entry_type e = Ft_directory then
        source_walk px dir_name (es, err)
          (add_source_dir \<lparr>dir_path = relative_path, dir_perm = entry_perm e AND PERM_MASK\<rparr> (fst s), snd s)
      else if entry_type e = Ft_regular then
        seq_st (source_open_regular_file px (entry_path e))
          (\<lambda>(ctx, fi) s. source_walk px dir_name (es, err)
             (add_source_file ctx (fi\<lparr>file_path := relative_path\<rparr>) (fst s), snd s)) s
      else (Throw (Transfer_error ENOSYS (''Can't transfer special file: '' @ entry_path e)), s))"

text \<open>
  \<open>stdfs::status\<close> inside \<open>prepare_transfer_directory\<close> and the constructor throws when it has no
  answer.
\<close>

definition source_prepare_directory :: "'w posix \<Rightarrow> string \<Rightarrow> 'w source_st \<Rightarrow> unit outcome \<times> 'w source_st" where
  "source_prepare_directory px path = seq_st (\<lambda>s. assert_st (src_info (fst s) = None) s)
     (\<lambda>_ (src, w).
        let src1 = src\<lparr>src_info := Some \<lparr>source_is_directory = True, dirs_info = [], files_info = []\<rparr>\<rparr>;
            dir_name = path_filename path
        in if dir_name \<noteq> [] then
             (case px_status px path w of
                Inl err \<Rightarrow> (Throw (Filesystem_error err), (src1, w))
              | Inr (_, perm) \<Rightarrow> source_walk px dir_name (px_walk px path w)
                  (add_source_dir \<lparr>dir_path = dir_name, dir_perm = perm AND PERM_MASK\<rparr> src1, w))
           else source_walk px dir_name (px_walk px path w) (src1, w))"

definition close_send_handle :: "'w posix \<Rightarrow> send_file_context \<Rightarrow> 'w \<Rightarrow> send_file_context \<times> 'w" where
  "close_send_handle px ctx w =
     (if src_handle ctx \<noteq> INVALID_FILE_HANDLE
      then (ctx\<lparr>src_handle := INVALID_FILE_HANDLE\<rparr>, px_close px (src_handle ctx) w) else (ctx, w))"

fun close_send_handles :: "'w posix \<Rightarrow> send_file_context list \<Rightarrow> 'w \<Rightarrow> send_file_context list \<times> 'w" where
  "close_send_handles px [] w = ([], w)"
| "close_send_handles px (c # cs) w = (case close_send_handle px c w of (c', w1) \<Rightarrow>
     (case close_send_handles px cs w1 of (cs', w2) \<Rightarrow> (c' # cs', w2)))"

definition source_dispose_impl :: "'w posix \<Rightarrow> 'w source_st \<Rightarrow> 'w source_st" where
  "source_dispose_impl px s = (case s of (src, w) \<Rightarrow>
     if src_info src \<noteq> None
     then (case close_send_handles px (send_ctx src) w of (cs, w') \<Rightarrow> (src\<lparr>send_ctx := cs\<rparr>, w'))
     else (src, w))"

fun source_type_error :: "file_type \<Rightarrow> string \<Rightarrow> cpp_exception" where
  "source_type_error Ft_not_found p = Transfer_error ENOENT (''File not found: '' @ p)"
| "source_type_error Ft_block p = Transfer_error ENOSYS (''Transfer a block device is not supported: '' @ p)"
| "source_type_error Ft_character p = Transfer_error ENOSYS (''Transfer a character device is not supported: '' @ p)"
| "source_type_error Ft_fifo p = Transfer_error ENOSYS (''Transfer a FIFO file is not supported: '' @ p)"
| "source_type_error Ft_socket p = Transfer_error ENOSYS (''Transfer a socket file is not supported: '' @ p)"
| "source_type_error _ p = Transfer_error ENOSYS (''Unknown file type: '' @ p)"

definition source_open :: "'w posix \<Rightarrow> string \<Rightarrow> bool \<Rightarrow> 'w source_st \<Rightarrow> unit outcome \<times> 'w source_st" where
  "source_open px src_path recursive s = (case px_status px src_path (snd s) of
       Inl err \<Rightarrow> (Throw (Filesystem_error err), s)
     | Inr (ty, _) \<Rightarrow>
         if ty = Ft_regular then source_prepare_regular_file px src_path s
         else if ty = Ft_directory then
           if \<not> recursive then (Throw (Transfer_error EINVAL
             (''Trying to transfer a directory without specifying \"-r\": '' @ src_path)), s)
           else source_prepare_directory px src_path s
         else (Throw (source_type_error ty src_path), s))"

definition source_new :: "u64 \<Rightarrow> transfer_source" where
  "source_new block_arg = \<lparr>is_transfer_block_size_fixed = (block_arg \<noteq> 0),
     init_transfer_block_size = (if block_arg \<noteq> 0 then ucast block_arg else TRANSFER_BLOCK_SIZE_INIT),
     send_ctx = [], src_info = None, src_transferred_size = 0, src_total_size = 0\<rparr>"

definition transfer_source_ctor ::
  "'w posix \<Rightarrow> string \<Rightarrow> u64 \<Rightarrow> bool \<Rightarrow> 'w \<Rightarrow> unit outcome \<times> 'w source_st" where
  "transfer_source_ctor px src_path block_arg recursive w =
     seq_st (\<lambda>s. assert_st (init_transfer_block_size (fst s) > 0) s)
       (\<lambda>_. seq_st (assert_st (block_arg \<le> ucast MAX_TRANSFER_BLOCK_SIZE))
         (\<lambda>_. sweep_scope (source_dispose_impl px)
            (seq_st (source_open px src_path recursive) (\<lambda>_ s. (Ret ((), True), s)))))
       (source_new block_arg, w)"

section \<open>The destination\<close>

type_synonym 'w dest_st = "transfer_destination \<times> 'w"

text \<open>\<open>O_TRUNC\<close> and \<open>ftruncate64\<close> leave a file of zero bytes.\<close>

definition dest_map_file ::
  "'w posix \<Rightarrow> string \<Rightarrow> basic_file_info \<Rightarrow> int \<Rightarrow> 'w \<Rightarrow> unit outcome \<times> 'w" where
  "dest_map_file px path fi fd w =
     (if file_size fi > 0 then
        if file_size fi > -1 then
          (Throw (Transfer_error ENOSYS (''File size is too large for this platform: ''
             @ string_of_nat (unat (file_size fi)))), w)
        else (case px_ftruncate px fd (file_size fi) w of
            (Some errno, w1) \<Rightarrow> (Throw (Transfer_error errno (''ftruncate64() '' @ path @ '' to ''
               @ string_of_nat (unat (file_size fi)) @ '' failed'')), w1)
          | (None, w1) \<Rightarrow> (case px_mmap px fd (file_size fi) w1 of
              (Some errno, w2) \<Rightarrow> (Throw (Transfer_error errno (''mmap() '' @ path @ '' for write failed'')), w2)
            | (None, w2) \<Rightarrow> (Ret (), w2)))
      else (Ret (), w))"

definition dest_open_regular_file ::
  "'w posix \<Rightarrow> string \<Rightarrow> basic_file_info \<Rightarrow> 'w dest_st \<Rightarrow> recv_file_context outcome \<times> 'w dest_st" where
  "dest_open_regular_file px path fi s = (case s of (dst, w) \<Rightarrow>
     if file_perm fi \<noteq> 0 \<and> \<not> (file_perm fi AND PERM_MASK) = file_perm fi then (Abort, s)
     else let perm = (if file_perm fi = 0 then 420 else file_perm fi) in
       (case px_open_write px path perm w of
          (Inl errno, w1) \<Rightarrow> (Throw (Transfer_error errno (''open() '' @ path @ '' for write failed'')), (dst, w1))
        | (Inr fd, w1) \<Rightarrow> (case px_fchmod px fd perm w1 of
            (Some errno, w2) \<Rightarrow> (Throw (Transfer_error errno (''fchmod() '' @ path @ '' failed'')), (dst, w2))
          | (None, w2) \<Rightarrow> (case dest_map_file px path fi fd w2 of
              (Ret _, w3) \<Rightarrow>
                (Ret \<lparr>received_size = 0, mapped_length = file_size fi, dst_file_mapped = (file_size fi > 0),
                      dst_handle = fd, dst_pages = replicate (unat (file_size fi)) 0\<rparr>,
                 (dst\<lparr>dst_total_size := dst_total_size dst + file_size fi\<rparr>, w3))
            | (Throw e, w3) \<Rightarrow> (Throw e, (dst, w3))
            | (Abort, w3) \<Rightarrow> (Abort, (dst, w3))
            | (Undefined, w3) \<Rightarrow> (Undefined, (dst, w3))))))"

definition add_recv_ctx :: "recv_file_context \<Rightarrow> 'w dest_st \<Rightarrow> unit outcome \<times> 'w dest_st" where
  "add_recv_ctx ctx s = (Ret (), ((fst s)\<lparr>recv_ctx := recv_ctx (fst s) @ [ctx]\<rparr>, snd s))"

definition dest_prepare_regular_file :: "'w posix \<Rightarrow> 'w dest_st \<Rightarrow> unit outcome \<times> 'w dest_st" where
  "dest_prepare_regular_file px s = (case dst_info (fst s) of
       None \<Rightarrow> (Abort, s)
     | Some info \<Rightarrow>
         if length (files_info info) \<noteq> 1 then (Abort, s)
         else seq_st (dest_open_regular_file px (requested_dst_path (fst s)) (files_info info ! 0)) add_recv_ctx s)"

fun dest_create_dirs :: "'w posix \<Rightarrow> string \<Rightarrow> basic_directory_info list \<Rightarrow> 'w \<Rightarrow> unit outcome \<times> 'w" where
  "dest_create_dirs px base [] w = (Ret (), w)"
| "dest_create_dirs px base (d # ds) w =
     (case px_create_directories px (path_append base (dir_path d)) w of
        (Some err, w1) \<Rightarrow> (Throw (Filesystem_error err), w1)
      | (None, w1) \<Rightarrow> (case px_permissions px (path_append base (dir_path d)) (dir_perm d) w1 of
          (Some err, w2) \<Rightarrow> (Throw (Filesystem_error err), w2)
        | (None, w2) \<Rightarrow> dest_create_dirs px base ds w2))"

fun dest_open_files :: "'w posix \<Rightarrow> string \<Rightarrow> basic_file_info list \<Rightarrow> 'w dest_st \<Rightarrow> unit outcome \<times> 'w dest_st" where
  "dest_open_files px base [] s = (Ret (), s)"
| "dest_open_files px base (fi # fis) s =
     seq_st (dest_open_regular_file px (path_append base (file_path fi)) fi)
       (\<lambda>ctx. seq_st (add_recv_ctx ctx) (\<lambda>_. dest_open_files px base fis)) s"

definition dest_prepare_directory :: "'w posix \<Rightarrow> 'w dest_st \<Rightarrow> unit outcome \<times> 'w dest_st" where
  "dest_prepare_directory px s = (case dst_info (fst s) of
       None \<Rightarrow> (Abort, s)
     | Some info \<Rightarrow> (case dest_create_dirs px (requested_dst_path (fst s)) (dirs_info info) (snd s) of
           (Ret _, w) \<Rightarrow> dest_open_files px (requested_dst_path (fst s)) (files_info info) (fst s, w)
         | (Throw e, w) \<Rightarrow> (Throw e, (fst s, w))
         | (Abort, w) \<Rightarrow> (Abort, (fst s, w))
         | (Undefined, w) \<Rightarrow> (Undefined, (fst s, w))))"

definition transfer_destination_ctor :: "string \<Rightarrow> transfer_destination" where
  "transfer_destination_ctor dst_path = \<lparr>requested_dst_path = dst_path, gate_all_channels_finished = gate_new,
     recv_ctx = [], dst_info = None, dst_transferred_size = 0, dst_total_size = 0, dst_dispose_required = False\<rparr>"

fun dest_type_error :: "file_type \<Rightarrow> string \<Rightarrow> cpp_exception" where
  "dest_type_error Ft_block p = Transfer_error ENOSYS (''Transfer to a block device is not supported: '' @ p)"
| "dest_type_error Ft_character p = Transfer_error ENOSYS (''Transfer to a character device is not supported: '' @ p)"
| "dest_type_error Ft_fifo p = Transfer_error ENOSYS (''Transfer to a FIFO file is not supported: '' @ p)"
| "dest_type_error Ft_socket p = Transfer_error ENOSYS (''Transfer to a socket file is not supported: '' @ p)"
| "dest_type_error _ p = Transfer_error ENOSYS (''Unknown file type: '' @ p)"

definition dest_open :: "'w posix \<Rightarrow> basic_transfer_info \<Rightarrow> file_type \<Rightarrow> 'w dest_st \<Rightarrow> unit outcome \<times> 'w dest_st" where
  "dest_open px info ty s =
     (let path = requested_dst_path (fst s);
          one_file = (\<lambda>s. if length (files_info info) = 1 then dest_prepare_regular_file px s else (Abort, s))
      in if ty = Ft_regular then
           if source_is_directory info
           then (Throw (Transfer_error ENOSYS (''Transfer source directory to a file: '' @ path)), s)
           else one_file s
         else if ty = Ft_directory then
           if source_is_directory info then dest_prepare_directory px s else one_file s
         else if ty = Ft_not_found then
           if source_is_directory info then
             (case px_create_directory px path (snd s) of
                (Some err, w) \<Rightarrow> (Throw (Filesystem_error err), (fst s, w))
              | (None, w) \<Rightarrow> dest_prepare_directory px (fst s, w))
           else one_file s
         else (Throw (dest_type_error ty path), s))"

definition dest_init_transfer_info ::
  "'w posix \<Rightarrow> basic_transfer_info \<Rightarrow> u64 \<Rightarrow> 'w dest_st \<Rightarrow> unit outcome \<times> 'w dest_st" where
  "dest_init_transfer_info px info total_channel_repeats_count s =
     (if \<not> total_channel_repeats_count > 0 then (Abort, s)
      else (case gate_init total_channel_repeats_count (gate_all_channels_finished (fst s)) of
          (Ret _, g) \<Rightarrow>
            let dst = (fst s)\<lparr>gate_all_channels_finished := g\<rparr> in
            if dst_info dst \<noteq> None then (Abort, (dst, snd s))
            else let dst1 = dst\<lparr>dst_info := Some info\<rparr> in
              (case px_weakly_canonical px (requested_dst_path dst) (snd s) of
                 Inl err \<Rightarrow> (Throw (Filesystem_error err), (dst1, snd s))
               | Inr real_path \<Rightarrow> (case px_status px real_path (snd s) of
                   Inl err \<Rightarrow> (Throw (Filesystem_error err), (dst1, snd s))
                 | Inr (ty, _) \<Rightarrow> dest_open px info ty (dst1, snd s)))
        | (Throw e, g) \<Rightarrow> (Throw e, s)
        | (Abort, g) \<Rightarrow> (Abort, s)
        | (Undefined, g) \<Rightarrow> (Undefined, s)))"

text \<open>\<open>dispose_impl\<close>: closing the handle comes first, so the Linux \<open>unmap_file\<close> does nothing.\<close>

fun dispose_recv_ctxs :: "'w posix \<Rightarrow> recv_file_context list \<Rightarrow> 'w \<Rightarrow> recv_file_context list \<times> 'w" where
  "dispose_recv_ctxs px [] w = ([], w)"
| "dispose_recv_ctxs px (c # cs) w =
     (let w1 = (if dst_handle c \<noteq> INVALID_FILE_HANDLE then px_close px (dst_handle c) w else w)
      in (case dispose_recv_ctxs px cs w1 of (cs', w2) \<Rightarrow> (unmap_file (close_recv_handle c) # cs', w2)))"

definition dest_dispose_impl :: "'w posix \<Rightarrow> 'w dest_st \<Rightarrow> unit outcome \<times> 'w dest_st" where
  "dest_dispose_impl px s = (case s of (dst, w) \<Rightarrow>
     let (cs, w1) = (if dst_info dst \<noteq> None then dispose_recv_ctxs px (recv_ctx dst) w else (recv_ctx dst, w));
         dst1 = dst\<lparr>recv_ctx := cs\<rparr>
     in if gate_initialized (gate_all_channels_finished dst1)
        then (case gate_force_signal_all (gate_all_channels_finished dst1) of
                (r, g) \<Rightarrow> (r, (dst1\<lparr>gate_all_channels_finished := g\<rparr>, w1)))
        else (Ret (), (dst1, w1)))"

section \<open>What a constructed source looks like\<close>

text \<open>\<open>open\<close> returns \<open>-1\<close> only to report an error.\<close>

definition opens_valid :: "'w posix \<Rightarrow> bool" where
  "opens_valid px \<longleftrightarrow> (\<forall>p perm w fd w'. px_open_write px p perm w = (Inr fd, w') \<longrightarrow> fd \<noteq> INVALID_FILE_HANDLE)"

text \<open>A file system with one readable file of three bytes and room for another.\<close>

definition copy_px :: "unit posix" where
  "copy_px = \<lparr>px_status = (\<lambda>p w. Inr (if p = ''a'' then Ft_regular else Ft_not_found, 420)),
     px_weakly_canonical = (\<lambda>p w. Inr p), px_walk = (\<lambda>p w. ([], None)),
     px_open_read = (\<lambda>p w. (Inr 5, w)), px_fstat = (\<lambda>fd w. Inr (3, 420)),
     px_open_write = (\<lambda>p perm w. (Inr 6, w)), px_fchmod = (\<lambda>fd p w. (None, w)),
     px_ftruncate = (\<lambda>fd n w. (None, w)), px_mmap = (\<lambda>fd n w. (None, w)), px_close = (\<lambda>fd w. w),
     px_create_directories = (\<lambda>p w. (None, w)), px_create_directory = (\<lambda>p w. (None, w)),
     px_permissions = (\<lambda>p perm w. (None, w))\<rparr>"

lemma copy_px_valid: "opens_valid copy_px"
  by (simp add: opens_valid_def copy_px_def INVALID_FILE_HANDLE_def)

definition source_wf :: "transfer_source \<Rightarrow> bool" where
  "source_wf src \<longleftrightarrow> (\<exists>info. src_info src = Some info \<and> length (send_ctx src) = length (files_info info)
     \<and> list_all (\<lambda>c. curr_offset c = 0) (send_ctx src)
     \<and> src_total_size src = sum_list (map file_size (files_info info)))"

text \<open>The members that only the constructor's initialisers set.\<close>

definition source_fixed :: "transfer_source \<Rightarrow> transfer_source \<Rightarrow> bool" where
  "source_fixed src src' \<longleftrightarrow> is_transfer_block_size_fixed src' = is_transfer_block_size_fixed src
     \<and> init_transfer_block_size src' = init_transfer_block_size src"

lemma source_fixed_refl [simp]: "source_fixed src src"
  by (simp add: source_fixed_def)

lemma source_fixed_trans: "source_fixed a b \<Longrightarrow> source_fixed b c \<Longrightarrow> source_fixed a c"
  by (simp add: source_fixed_def)

lemma source_open_file_Ret:
  assumes "source_open_regular_file px path s = (Ret (ctx, fi), s')"
  obtains fd w1 size mode where "px_open_read px path (snd s) = (Inr fd, w1)" "px_fstat px fd w1 = Inr (size, mode)"
    "ctx = \<lparr>curr_offset = 0, src_handle = fd\<rparr>"
    "fi = \<lparr>file_path = path_filename path, file_size = size, file_perm = mode AND PERM_MASK\<rparr>"
    "s' = ((fst s)\<lparr>src_total_size := src_total_size (fst s) + size\<rparr>, w1)"
  using assms by (auto simp: source_open_regular_file_def split: prod.splits sum.splits)

lemma add_source_file_wf:
  "source_wf src \<Longrightarrow> curr_offset ctx = 0
    \<Longrightarrow> source_wf (add_source_file ctx (fi\<lparr>file_path := p\<rparr>) (src\<lparr>src_total_size := src_total_size src + file_size fi\<rparr>))"
  by (auto simp: source_wf_def add_source_file_def)

lemma add_source_dir_wf [simp]: "source_wf (add_source_dir d src) = source_wf src"
  by (cases "src_info src") (simp_all add: source_wf_def add_source_dir_def)

lemma add_source_fixed [simp]:
  "source_fixed src0 (add_source_dir d src) = source_fixed src0 src"
  "source_fixed src0 (add_source_file c f src) = source_fixed src0 src"
  "source_fixed (add_source_dir d src) src0 = source_fixed src src0"
  "source_fixed (add_source_file c f src) src0 = source_fixed src src0"
  by (simp_all add: source_fixed_def add_source_dir_def add_source_file_def)

lemma source_walk_wf:
  "source_walk px d es s = (Ret (), s') \<Longrightarrow> source_wf (fst s) \<Longrightarrow> source_wf (fst s') \<and> source_fixed (fst s) (fst s')"
proof (induction px d es s rule: source_walk.induct)
  case (3 px d e es err s)
  show ?case
  proof (cases "entry_type e = Ft_directory")
    case True
    with "3.prems" show ?thesis by (auto dest: "3.IH"(1) [OF refl True] simp: Let_def)
  next
    case False
    with "3.prems"(1) have reg: "entry_type e = Ft_regular" by (auto simp: Let_def split: if_splits)
    with False "3.prems"(1) obtain ctx fi s1 where o: "source_open_regular_file px (entry_path e) s = (Ret (ctx, fi), s1)"
      and w: "source_walk px d (es, err) (add_source_file ctx (fi\<lparr>file_path := path_append d (entry_relative e)\<rparr>) (fst s1), snd s1) = (Ret (), s')"
      by (auto simp: seq_st_Ret_iff Let_def)
    obtain fd w1 size mode where f: "ctx = \<lparr>curr_offset = 0, src_handle = fd\<rparr>"
      "fi = \<lparr>file_path = path_filename (entry_path e), file_size = size, file_perm = mode AND PERM_MASK\<rparr>"
      "s1 = ((fst s)\<lparr>src_total_size := src_total_size (fst s) + size\<rparr>, w1)"
      by (rule source_open_file_Ret [OF o])
    have wf: "source_wf (add_source_file ctx (fi\<lparr>file_path := path_append d (entry_relative e)\<rparr>) (fst s1))"
      using add_source_file_wf [OF "3.prems"(2), where ctx = ctx and fi = fi] f by simp
    have "source_fixed (fst s) (fst s1)" using f by (simp add: source_fixed_def)
    with "3.IH"(2) [OF refl False reg w] wf show ?thesis using source_fixed_trans by auto
  qed
qed simp_all

lemma source_open_wf:
  assumes "source_open px path r (source_new b, w) = (Ret (), s')"
  shows "source_wf (fst s') \<and> source_fixed (source_new b) (fst s')"
proof -
  let ?src = "source_new b"
  have none: "src_info ?src = None" and empty: "send_ctx ?src = []" and tot: "src_total_size ?src = 0" by (simp_all add: source_new_def)
  obtain ty pm where st: "px_status px path w = Inr (ty, pm)"
    using assms by (auto simp: source_open_def split: sum.splits)
  consider "ty = Ft_regular" "source_prepare_regular_file px path (?src, w) = (Ret (), s')"
    | "ty = Ft_directory" "source_prepare_directory px path (?src, w) = (Ret (), s')"
    using assms st by (auto simp: source_open_def split: if_splits)
  then show ?thesis
  proof cases
    case 1
    let ?s1 = "?src\<lparr>src_info := Some \<lparr>source_is_directory = False, dirs_info = [], files_info = []\<rparr>\<rparr>"
    from 1(2) none obtain ctx fi s2 where o: "source_open_regular_file px path (?s1, w) = (Ret (ctx, fi), s2)"
      and s': "s' = (add_source_file ctx fi (fst s2), snd s2)"
      by (auto simp: source_prepare_regular_file_def seq_st_Ret_iff)
    obtain fd w1 size mode where "ctx = \<lparr>curr_offset = 0, src_handle = fd\<rparr>"
      "fi = \<lparr>file_path = path_filename path, file_size = size, file_perm = mode AND PERM_MASK\<rparr>"
      "s2 = (?s1\<lparr>src_total_size := src_total_size ?s1 + size\<rparr>, w1)"
      using source_open_file_Ret [OF o] by (metis fst_conv)
    then show ?thesis using s' empty tot by (simp add: source_wf_def add_source_file_def source_fixed_def)
  next
    case 2
    let ?s1 = "?src\<lparr>src_info := Some \<lparr>source_is_directory = True, dirs_info = [], files_info = []\<rparr>\<rparr>"
    have wf: "source_wf ?s1" using empty tot by (simp add: source_wf_def)
    have fx: "source_fixed ?src ?s1" by (simp add: source_fixed_def)
    from 2(2) none obtain d s0 where "source_walk px d (px_walk px path w) (s0, w) = (Ret (), s')" "s0 = ?s1 \<or> (\<exists>di. s0 = add_source_dir di ?s1)"
      by (auto simp: source_prepare_directory_def seq_st_def Let_def split: if_splits sum.splits)
    with source_walk_wf [of px d "px_walk px path w" "(s0, w)" s'] wf fx show ?thesis
      using source_fixed_trans [OF fx] by auto
  qed
qed

lemma transfer_source_ctor_Ret:
  assumes "transfer_source_ctor px path b r w = (Ret (), (src, w'))"
  shows "source_wf src \<and> source_fixed (source_new b) src
    \<and> 0 < init_transfer_block_size src \<and> init_transfer_block_size src \<le> MAX_TRANSFER_BLOCK_SIZE"
proof -
  from assms have pos: "0 < init_transfer_block_size (source_new b)" and le: "b \<le> ucast MAX_TRANSFER_BLOCK_SIZE"
    and "source_open px path r (source_new b, w) = (Ret (), (src, w'))"
    by (auto simp: transfer_source_ctor_def seq_st_def assert_st_def sweep_scope_def split: if_splits prod.splits outcome.splits)
  with source_open_wf [of px path r b w "(src, w')"] have wf: "source_wf src" "source_fixed (source_new b) src" by simp_all
  have "unat b \<le> 1073741824" using le by (simp add: MAX_TRANSFER_BLOCK_SIZE_def word_le_nat_alt)
  then have "unat (ucast b :: u32) = unat b" by (simp add: unat_word_of_nat_small unsigned_ucast_eq take_bit_eq_mod)
  then have "init_transfer_block_size (source_new b) \<le> MAX_TRANSFER_BLOCK_SIZE"
    using \<open>unat b \<le> 1073741824\<close> by (simp add: source_new_def MAX_TRANSFER_BLOCK_SIZE_def TRANSFER_BLOCK_SIZE_INIT_def word_le_nat_alt)
  with wf pos show ?thesis by (simp add: source_fixed_def)
qed

text \<open>C9: a constructed source is ready to send: it has a description with one file context per file, no byte handed
  out yet, the total size adds up the files, and the block size of its channels is positive, at most
  1 GB, and the requested one or, when none was requested, 1 MB to be adapted.\<close>

theorem transfer_source_ready:
  assumes "transfer_source_ctor px path b recursive w = (Ret (), (src, w'))"
  shows "\<exists>info. src_info src = Some info \<and> length (send_ctx src) = length (files_info info)
    \<and> list_all (\<lambda>c. curr_offset c = 0) (send_ctx src) \<and> src_total_size src = sum_list (map file_size (files_info info))
    \<and> 0 < init_transfer_block_size src \<and> init_transfer_block_size src \<le> MAX_TRANSFER_BLOCK_SIZE
    \<and> (is_transfer_block_size_fixed src \<longleftrightarrow> b \<noteq> 0)
    \<and> init_transfer_block_size src = (if b = 0 then TRANSFER_BLOCK_SIZE_INIT else ucast b)"
  using transfer_source_ctor_Ret [OF assms] unfolding source_wf_def
  by (elim conjE exE) (simp add: source_fixed_def source_new_def)

lemma copy_px_source_ctor:
  "transfer_source_ctor copy_px ''a'' 2 False () = (Ret (),
     (\<lparr>is_transfer_block_size_fixed = True, init_transfer_block_size = 2, send_ctx = [\<lparr>curr_offset = 0, src_handle = 5\<rparr>],
       src_info = Some \<lparr>source_is_directory = False, dirs_info = [], files_info = [\<lparr>file_path = ''a'', file_size = 3, file_perm = 420\<rparr>]\<rparr>,
       src_transferred_size = 0, src_total_size = 3\<rparr>, ()))"
  by (simp add: transfer_source_ctor_def source_open_def source_prepare_regular_file_def source_open_regular_file_def
      source_new_def add_source_file_def copy_px_def seq_st_def assert_st_def sweep_scope_def
      path_filename_def PERM_MASK_def MAX_TRANSFER_BLOCK_SIZE_def)

theorem transfer_source_ready_witness:
  "\<exists>src info. transfer_source_ctor copy_px ''a'' 2 False () = (Ret (), (src, ())) \<and> src_info src = Some info
    \<and> length (send_ctx src) = length (files_info info) \<and> init_transfer_block_size src = 2"
  using transfer_source_ready [OF copy_px_source_ctor] copy_px_source_ctor by auto

text \<open>A block size above 1 GB aborts the process before anything is opened, whatever the file system is; on
  the server the value comes from the client's request.\<close>

theorem oversized_block_aborts:
  assumes "ucast MAX_TRANSFER_BLOCK_SIZE < b"
  shows "fst (transfer_source_ctor px path b recursive w) = Abort"
  using assms by (auto simp: transfer_source_ctor_def seq_st_def assert_st_def)

theorem oversized_block_aborts_witness:
  "fst (transfer_source_ctor copy_px ''a'' (2 ^ 31) False ()) = Abort"
  by (rule oversized_block_aborts) (simp add: MAX_TRANSFER_BLOCK_SIZE_def)

section \<open>What an initialised destination looks like\<close>

definition recv_ok :: "basic_file_info \<Rightarrow> recv_file_context \<Rightarrow> bool" where
  "recv_ok fi c \<longleftrightarrow> received_size c = 0 \<and> mapped_length c = file_size fi \<and> dst_file_mapped c = (0 < file_size fi)
     \<and> dst_pages c = replicate (unat (file_size fi)) 0 \<and> dst_handle c \<noteq> INVALID_FILE_HANDLE"

lemma opens_validD: "opens_valid px \<Longrightarrow> px_open_write px p perm w = (Inr fd, w') \<Longrightarrow> fd \<noteq> INVALID_FILE_HANDLE"
  unfolding opens_valid_def by blast

lemma dest_map_file_cases: "dest_map_file px path fi fd w = (r, w') \<Longrightarrow> r = Ret () \<or> (\<exists>e. r = Throw e)"
  by (auto simp: dest_map_file_def split: if_splits prod.splits option.splits)

lemma dest_open_file_Ret:
  assumes "dest_open_regular_file px path fi s = (Ret ctx, s')" and "opens_valid px"
  shows "recv_ok fi ctx \<and> fst s' = (fst s)\<lparr>dst_total_size := dst_total_size (fst s) + file_size fi\<rparr>"
  using assms
  by (auto simp: dest_open_regular_file_def recv_ok_def Let_def dest: opens_validD [OF assms(2)]
      split: prod.splits if_splits sum.splits option.splits outcome.splits)

definition dest_same :: "transfer_destination \<Rightarrow> transfer_destination \<Rightarrow> bool" where
  "dest_same d d' \<longleftrightarrow> dst_info d' = dst_info d \<and> gate_all_channels_finished d' = gate_all_channels_finished d
     \<and> dst_dispose_required d' = dst_dispose_required d"

lemma dest_open_files_Ret:
  "dest_open_files px base fis s = (Ret (), s') \<Longrightarrow> opens_valid px
    \<Longrightarrow> \<exists>cs. recv_ctx (fst s') = recv_ctx (fst s) @ cs \<and> list_all2 recv_ok fis cs \<and> dest_same (fst s) (fst s')
      \<and> dst_total_size (fst s') = dst_total_size (fst s) + sum_list (map file_size fis)"
proof (induction fis arbitrary: s)
  case Nil
  then show ?case by (simp add: dest_same_def)
next
  case (Cons fi fis)
  from Cons.prems(1) obtain ctx s1 where o: "dest_open_regular_file px (path_append base (file_path fi)) fi s = (Ret ctx, s1)"
    and r: "dest_open_files px base fis ((fst s1)\<lparr>recv_ctx := recv_ctx (fst s1) @ [ctx]\<rparr>, snd s1) = (Ret (), s')"
    by (auto simp: seq_st_Ret_iff add_recv_ctx_def)
  from dest_open_file_Ret [OF o Cons.prems(2)] have c: "recv_ok fi ctx"
    and s1: "fst s1 = (fst s)\<lparr>dst_total_size := dst_total_size (fst s) + file_size fi\<rparr>" by simp_all
  from Cons.IH [OF r Cons.prems(2)] obtain cs where "recv_ctx (fst s') = recv_ctx (fst s1) @ [ctx] @ cs" "list_all2 recv_ok fis cs"
    "dest_same (fst s1) (fst s')" "dst_total_size (fst s') = dst_total_size (fst s1) + sum_list (map file_size fis)"
    by (auto simp: dest_same_def)
  with c s1 show ?case by (intro exI [of _ "ctx # cs"]) (auto simp: dest_same_def add.assoc)
qed

lemma dest_open_Ret:
  assumes "dest_open px info ty s = (Ret (), s')" and "dst_info (fst s) = Some info" and "opens_valid px"
  shows "\<exists>cs. recv_ctx (fst s') = recv_ctx (fst s) @ cs \<and> list_all2 recv_ok (files_info info) cs \<and> dest_same (fst s) (fst s')
    \<and> dst_total_size (fst s') = dst_total_size (fst s) + sum_list (map file_size (files_info info))"
proof -
  have one: ?thesis if "dest_prepare_regular_file px s = (Ret (), s')"
  proof -
    have len: "length (files_info info) = 1"
      using that assms(2) by (auto simp: dest_prepare_regular_file_def split: if_splits)
    then obtain fi where fi: "files_info info = [fi]" by (cases "files_info info") auto
    from that assms(2) len fi obtain ctx s1 where o: "dest_open_regular_file px (requested_dst_path (fst s)) fi s = (Ret ctx, s1)"
      and s': "s' = ((fst s1)\<lparr>recv_ctx := recv_ctx (fst s1) @ [ctx]\<rparr>, snd s1)"
      by (auto simp: dest_prepare_regular_file_def seq_st_Ret_iff add_recv_ctx_def)
    from dest_open_file_Ret [OF o assms(3)] s' fi show ?thesis
      by (intro exI [of _ "[ctx]"]) (auto simp: dest_same_def)
  qed
  have dir: ?thesis if "dest_prepare_directory px (fst s, w) = (Ret (), s')" for w
  proof -
    from that assms(2) obtain w1 where "dest_open_files px (requested_dst_path (fst s)) (files_info info) (fst s, w1) = (Ret (), s')"
      by (auto simp: dest_prepare_directory_def split: outcome.splits prod.splits)
    from dest_open_files_Ret [OF this assms(3)] show ?thesis by simp
  qed
  from assms(1) consider "dest_prepare_regular_file px s = (Ret (), s')"
    | w where "dest_prepare_directory px (fst s, w) = (Ret (), s')"
    by (cases s) (auto simp: dest_open_def Let_def split: if_splits prod.splits option.splits)
  then show ?thesis using one dir by cases
qed

lemma dest_init_Ret:
  assumes i: "dest_init_transfer_info px info n_channels (transfer_destination_ctor path, w) = (Ret (), (dst, w'))" and v: "opens_valid px"
  shows "dst_info dst = Some info \<and> list_all2 recv_ok (files_info info) (recv_ctx dst)
    \<and> gate_valid (gate_all_channels_finished dst) \<and> gate_needed (gate_all_channels_finished dst) = unat n_channels
    \<and> \<not> dst_dispose_required dst \<and> dst_total_size dst = sum_list (map file_size (files_info info))"
proof -
  let ?d = "transfer_destination_ctor path"
  have t: "0 < n_channels" using i by (auto simp: dest_init_transfer_info_def split: if_splits)
  obtain r g where g: "gate_init n_channels gate_new = (r, g)" by force
  with i t have gr: "r = Ret ()"
    by (auto simp: dest_init_transfer_info_def transfer_destination_ctor_def split: outcome.splits)
  have gv: "gate_valid g \<and> gate_needed g = unat n_channels"
    using g gr t by (auto simp: gate_init_def gate_new_def seq_st_def assert_st_def gate_valid_def gate_needed_def
        gate_initialized_def split: if_splits)
  let ?d1 = "?d\<lparr>gate_all_channels_finished := g, dst_info := Some info\<rparr>"
  from i g gr t obtain ty where o: "dest_open px info ty (?d1, w) = (Ret (), (dst, w'))"
    by (auto simp: dest_init_transfer_info_def transfer_destination_ctor_def Let_def split: sum.splits)
  from dest_open_Ret [OF o _ v] obtain cs where "recv_ctx dst = recv_ctx ?d1 @ cs" "list_all2 recv_ok (files_info info) cs"
    "dest_same ?d1 dst" "dst_total_size dst = dst_total_size ?d1 + sum_list (map file_size (files_info info))" by auto
  with gv show ?thesis by (simp add: dest_same_def transfer_destination_ctor_def)
qed

text \<open>An initialised destination is ready to receive: it has one context per file of the source's description,
  each open and mapped, unless it is empty, over a file of its final size that holds zeros, nothing
  counted as received, and the gate of its portal waits for exactly the given number of channels.\<close>

theorem transfer_destination_ready:
  assumes "dest_init_transfer_info px info n_channels (transfer_destination_ctor path, w) = (Ret (), (dst, w'))" and "opens_valid px"
  shows "list_all2 recv_ok (files_info info) (recv_ctx dst) \<and> dst_info dst = Some info
    \<and> gate_needed (gate_all_channels_finished dst) = unat n_channels
    \<and> dst_total_size dst = sum_list (map file_size (files_info info))"
  using dest_init_Ret [OF assms] by simp

definition copy_info :: basic_transfer_info where
  "copy_info = \<lparr>source_is_directory = False, dirs_info = [], files_info = [\<lparr>file_path = ''a'', file_size = 3, file_perm = 420\<rparr>]\<rparr>"

definition copy_destination :: transfer_destination where
  "copy_destination = \<lparr>requested_dst_path = ''b'',
     gate_all_channels_finished = \<lparr>mre = False, curr_signal_count = 0, at_least_signal = 2\<rparr>,
     recv_ctx = [\<lparr>received_size = 0, mapped_length = 3, dst_file_mapped = True, dst_handle = 6, dst_pages = [0, 0, 0]\<rparr>],
     dst_info = Some copy_info, dst_transferred_size = 0, dst_total_size = 3, dst_dispose_required = False\<rparr>"

lemma copy_px_file:
  "dest_open_regular_file copy_px ''b'' (files_info copy_info ! 0) (d, ()) =
     (Ret (recv_ctx copy_destination ! 0), (d\<lparr>dst_total_size := dst_total_size d + 3\<rparr>, ()))"
proof -
  have r: "replicate 3 0 = [0, 0, 0 :: byte]" by (simp add: numeral_3_eq_3)
  show ?thesis by (simp add: r copy_px_def dest_open_regular_file_def dest_map_file_def copy_info_def copy_destination_def PERM_MASK_def)
qed

lemma copy_px_dest_init:
  "dest_init_transfer_info copy_px copy_info 2 (transfer_destination_ctor ''b'', ()) = (Ret (), (copy_destination, ()))"
proof -
  have p: "px_weakly_canonical copy_px = (\<lambda>p w. Inr p)" "px_status copy_px = (\<lambda>p w. Inr (if p = ''a'' then Ft_regular else Ft_not_found, 420))"
    by (simp_all add: copy_px_def)
  have i: "length (files_info copy_info) = 1" "\<not> source_is_directory copy_info" by (simp_all add: copy_info_def)
  have "gate_init 2 gate_new = (Ret (), gate_all_channels_finished copy_destination)"
    by (simp add: gate_init_def gate_new_def seq_st_def assert_st_def INVALID_SIGNAL_COUNT_def copy_destination_def)
  then show ?thesis
    by (simp add: dest_init_transfer_info_def transfer_destination_ctor_def p i dest_open_def dest_prepare_regular_file_def
        seq_st_def copy_px_file add_recv_ctx_def)
      (simp add: copy_destination_def)
qed

theorem transfer_destination_ready_witness:
  "list_all2 recv_ok (files_info copy_info) (recv_ctx copy_destination)
    \<and> gate_needed (gate_all_channels_finished copy_destination) = 2 \<and> dst_total_size copy_destination = 3"
  using transfer_destination_ready [OF copy_px_dest_init copy_px_valid] by (simp add: copy_info_def)

end
