(* ===== verification/Transfer_Copy.thy ===== *)
theory Transfer_Copy
  imports Transfer_Ends Transfer_Open
begin

text \<open>
  A copy from end to end: the constructor of the source, the initialisation of the destination with
  the source's description, and any run of the channels of both.
\<close>

section \<open>From opened files to running channels\<close>

text \<open>Channel \<open>k\<close> of the source sends on \<open>ss k\<close>, that of the destination receives on \<open>ds k\<close>.\<close>

definition transfer_start ::
  "transfer_source \<Rightarrow> transfer_destination \<Rightarrow> (nat \<Rightarrow> os_socket_t) \<Rightarrow> (nat \<Rightarrow> os_socket_t) \<Rightarrow> xfer" where
  "transfer_start src dst ss ds = \<lparr>xf_src = src, xf_dst = dst,
     xf_conns = (\<lambda>k. \<lparr>cn_src = \<lparr>sc_sock = ss k, sc_pc = Src_fetch 0 (init_transfer_block_size src)\<rparr>,
       cn_dst = dest_channel_start (ds k), cn_consumed = 0, cn_blocks = [], cn_got = 0\<rparr>)\<rparr>"

text \<open>The files still have the size \<open>fstat64\<close> told, and sizes stay away from the counters' limit.\<close>

definition files_stable :: "(int \<Rightarrow> byte list option) \<Rightarrow> nat \<Rightarrow> basic_transfer_info \<Rightarrow> transfer_source \<Rightarrow> bool" where
  "files_stable contents C info src \<longleftrightarrow> length (files_info info) < 2 ^ 32 \<and> (\<forall>n<length (files_info info).
     \<exists>d. contents (src_handle (send_ctx src ! n)) = Some d \<and> length d = unat (file_size (files_info info ! n))
       \<and> length d + (C + 1) * 2 ^ 30 < 2 ^ 64)"

text \<open>What the two ends of a transfer are when it starts.\<close>

definition source_ready :: "transfer_source \<Rightarrow> bool" where
  "source_ready src \<longleftrightarrow> source_wf src \<and> 0 < init_transfer_block_size src \<and> init_transfer_block_size src \<le> MAX_TRANSFER_BLOCK_SIZE"

definition dest_ready :: "basic_transfer_info \<Rightarrow> nat \<Rightarrow> transfer_destination \<Rightarrow> bool" where
  "dest_ready info C dst \<longleftrightarrow> dst_info dst = Some info \<and> list_all2 recv_ok (files_info info) (recv_ctx dst)
     \<and> gate_valid (gate_all_channels_finished dst) \<and> gate_needed (gate_all_channels_finished dst) = C
     \<and> \<not> dst_dispose_required dst \<and> 0 < C"

text \<open>Running the channels needs less: the mapped files have their sizes, whatever bytes they hold.\<close>

definition recv_sized :: "basic_file_info \<Rightarrow> recv_file_context \<Rightarrow> bool" where
  "recv_sized fi c \<longleftrightarrow> received_size c = 0 \<and> dst_file_mapped c = (0 < file_size fi)
     \<and> length (dst_pages c) = unat (file_size fi) \<and> dst_handle c \<noteq> INVALID_FILE_HANDLE"

definition dest_sized :: "basic_transfer_info \<Rightarrow> nat \<Rightarrow> transfer_destination \<Rightarrow> bool" where
  "dest_sized info C dst \<longleftrightarrow> dst_info dst = Some info \<and> list_all2 recv_sized (files_info info) (recv_ctx dst)
     \<and> gate_valid (gate_all_channels_finished dst) \<and> gate_needed (gate_all_channels_finished dst) = C
     \<and> \<not> dst_dispose_required dst \<and> 0 < C"

lemma dest_ready_sized: "dest_ready info C dst \<Longrightarrow> dest_sized info C dst"
  by (auto simp: dest_ready_def dest_sized_def recv_ok_def recv_sized_def elim: list_all2_mono)

lemma transfer_start_initial:
  assumes S: "source_ready src" and info: "src_info src = Some info" and D: "dest_sized info C dst"
    and st: "files_stable contents C info src" and out: "\<forall>k<C. outbox (ss k) = []"
  shows "xfer_initial contents C info (transfer_start src dst ss ds)"
proof -
  note S = S [unfolded source_ready_def] and D = D [unfolded dest_sized_def]
  have len: "length (send_ctx src) = length (files_info info)" and z: "list_all (\<lambda>c. curr_offset c = 0) (send_ctx src)"
    using S info by (auto simp: source_wf_def)
  have ld: "length (recv_ctx dst) = length (files_info info)"
    using D list_all2_lengthD [of recv_sized "files_info info" "recv_ctx dst"] by simp
  have f: "curr_offset (send_ctx src ! n) = 0" "recv_sized (files_info info ! n) (recv_ctx dst ! n)"
    if "n < length (files_info info)" for n
    using that z len D by (simp_all add: list_all_length list_all2_conv_all_nth)
  have files: "let fsize = unat (file_size (files_info info ! n)); r = recv_ctx dst ! n in
      curr_offset (send_ctx src ! n) = 0
      \<and> (\<exists>d. contents (src_handle (send_ctx src ! n)) = Some d \<and> length d = fsize)
      \<and> fsize + (C + 1) * 2 ^ 30 < 2 ^ 64 \<and> received_size r = 0 \<and> length (dst_pages r) = fsize
      \<and> (0 < fsize \<longrightarrow> dst_file_mapped r \<and> dst_handle r \<noteq> INVALID_FILE_HANDLE)"
    if n: "n < length (files_info info)" for n
    using st n f [OF n] unfolding files_stable_def Let_def by (auto simp: recv_sized_def word_less_nat_alt)
  have start: "source_channel_start src (ss k) = Ret \<lparr>sc_sock = ss k, sc_pc = Src_fetch 0 (init_transfer_block_size src)\<rparr>" for k
    using S info by (simp add: source_channel_start_def)
  have "length (files_info info) < 2 ^ 32" using st by (simp add: files_stable_def)
  then show ?thesis
    unfolding xfer_initial_def Let_def transfer_start_def xfer.simps conn.simps
    using info D len ld files [unfolded Let_def] start out
    by (intro conjI allI impI) (auto intro!: exI)
qed

lemma xfer_run_inv:
  "xfer_run h g contents C ms s = Some s' \<Longrightarrow> xfer_inv h contents C info data s \<Longrightarrow> xfer_inv h contents C info data s'"
proof (induction ms arbitrary: s)
  case (Cons m ms)
  then obtain s1 where s1: "xfer_move h g contents C m s = Some s1" "xfer_run h g contents C ms s1 = Some s'"
    by (auto split: option.splits)
  show ?case by (rule Cons.IH [OF s1(2) xfer_step_inv [OF xfer_move_step [OF s1(1)] Cons.prems(2)]])
qed simp

lemma source_ctor_ready: "transfer_source_ctor px path b r w = (Ret (), (src, w')) \<Longrightarrow> source_ready src"
  by (auto simp: source_ready_def dest: transfer_source_ctor_Ret)

lemma dest_init_ready:
  "dest_init_transfer_info px info n_channels (transfer_destination_ctor path, w) = (Ret (), (dst, w')) \<Longrightarrow> opens_valid px
    \<Longrightarrow> dest_ready info (unat n_channels) dst"
  using dest_init_Ret [of px info n_channels path w dst w'] unfolding dest_ready_def
  by (auto simp: dest_init_transfer_info_def word_less_nat_alt split: if_splits)

lemma ready_copy:
  assumes S: "source_ready src" and info: "src_info src = Some info" and D: "dest_sized info C dst"
    and st: "files_stable contents C info src" and out: "\<forall>k<C. outbox (ss k) = []"
    and run: "xfer_run h g contents C ms (transfer_start src dst ss ds) = Some s"
    and ret: "\<forall>k<C. dc_pc (cn_dst (xf_conns s k)) = Dst_returned True" and n: "n < length (files_info info)"
  shows "contents (src_handle (send_ctx src ! n)) = Some (dst_pages (recv_ctx (xf_dst s) ! n))"
proof -
  let ?s0 = "transfer_start src dst ss ds"
  have i0: "xfer_inv h contents C info (file_data contents src) ?s0"
    using xfer_initial_inv [OF transfer_start_initial [OF S info D st out], where h = h] by (simp add: transfer_start_def)
  have i: "xfer_inv h contents C info (file_data contents src) s" by (rule xfer_run_inv [OF run i0])
  have "0 < C" using D by (simp add: dest_sized_def)
  then have "dst_pages (recv_ctx (xf_dst s) ! n) = file_data contents src n"
    using file_inv_complete [OF xfer_invD(14) [OF i n]] returned_complete [OF i] ret by blast
  moreover have "contents (src_handle (send_ctx src ! n)) = Some (file_data contents src n)"
    using xfer_invD(6) [OF i0 n] by (simp add: transfer_start_def)
  ultimately show ?thesis by simp
qed

text \<open>A copy is a copy: let a source be constructed from a path, a destination be initialised with the source's
  description for \<open>C\<close> channels, and the channels of both run in any interleaving, with any block sizes
  and between hosts of any byte order. If every destination channel returns successfully, then each
  destination file is what the source's descriptor for it reads, byte for byte.\<close>

theorem copy_correct:
  assumes "transfer_source_ctor pxs path b recursive ws = (Ret (), (src, ws'))" and "src_info src = Some info"
    and "dest_init_transfer_info pxd info n_channels (transfer_destination_ctor dst_path, wd) = (Ret (), (dst, wd'))"
    and "opens_valid pxd" and "files_stable contents (unat n_channels) info src"
    and "\<forall>k<unat n_channels. outbox (ss k) = []"
    and "xfer_run h g contents (unat n_channels) ms (transfer_start src dst ss ds) = Some s"
    and "\<forall>k<unat n_channels. dc_pc (cn_dst (xf_conns s k)) = Dst_returned True" and "n < length (files_info info)"
  shows "contents (src_handle (send_ctx src ! n)) = Some (dst_pages (recv_ctx (xf_dst s) ! n))"
  by (rule ready_copy [OF source_ctor_ready [OF assms(1)] assms(2) dest_ready_sized [OF dest_init_ready [OF assms(3,4)]] assms(5-9)])

lemma copy_px_source:
  "transfer_source_ctor copy_px ''a'' 2 False () = (Ret (), (demo_source, ()))"
  by (simp add: copy_px_source_ctor demo_source_def demo_info_def)

lemma copy_px_destination:
  "dest_init_transfer_info copy_px demo_info 2 (transfer_destination_ctor ''b'', ()) = (Ret (), (demo_destination, ()))"
  using copy_px_dest_init by (simp add: demo_info_def demo_destination_def copy_info_def copy_destination_def)

lemma demo_start_eq: "transfer_start demo_source demo_destination (\<lambda>_. sc_sock (cn_src demo_conn)) (\<lambda>_. dc_sock (cn_dst demo_conn)) = demo_start"
  by (simp add: transfer_start_def demo_state dest_channel_start_def)

theorem copy_correct_witness:
  "demo_contents (src_handle (send_ctx demo_source ! 0)) = Some (dst_pages (recv_ctx (xf_dst demo_final) ! 0))"
proof (rule copy_correct [OF copy_px_source _ copy_px_destination copy_px_valid])
  show "src_info demo_source = Some demo_info" by (simp add: demo_source_def)
  show "files_stable demo_contents (unat (2 :: u64)) demo_info demo_source"
    by (simp add: files_stable_def demo_source_def demo_info_def demo_contents_def)
  show "\<forall>k<unat (2 :: u64). outbox ((\<lambda>_. sc_sock (cn_src demo_conn)) k) = []" by (simp add: demo_conn_def)
  obtain s where "xfer_run LittleEndian BigEndian demo_contents 2 demo_schedule demo_start = Some s" using demo_run by blast
  then show "xfer_run LittleEndian BigEndian demo_contents (unat (2 :: u64)) demo_schedule
      (transfer_start demo_source demo_destination (\<lambda>_. sc_sock (cn_src demo_conn)) (\<lambda>_. dc_sock (cn_dst demo_conn))) = Some demo_final"
    unfolding demo_start_eq by (simp add: demo_final_def)
  show "\<forall>k<unat (2 :: u64). dc_pc (cn_dst (xf_conns demo_final k)) = Dst_returned True" using demo_final_returned by simp
qed (simp add: demo_info_def)

end
