(* ===== verification/Sock_Setup.thy ===== *)
theory Sock_Setup
  imports Sockaddr Disposable
begin

text \<open>
  Setting up sockets on Linux (\<open>infra/network.cpp\<close>): creating, binding, listening, accepting and
  connecting, and the loops over resolved addresses in \<open>server_channel_state::init\<close>,
  \<open>server_portal_state::init\<close> (\<open>server.cpp\<close>) and \<open>client_portal_state::init\<close> (\<open>client.cpp\<close>). The
  system's calls are a parameter over an abstract state \<open>'w\<close>.
\<close>

section \<open>System calls\<close>

definition INVALID_SOCKET_VALUE :: int where
  "INVALID_SOCKET_VALUE = -1"

datatype sock_option = SO_REUSEADDR | SO_REUSEPORT | TCP_NODELAY | SO_KEEPALIVE | TCP_FASTOPEN | IPV6_V6ONLY

text \<open>A Boolean result says that the call returned 0. \<open>sa_close\<close> is \<open>shutdown\<close> and \<open>close\<close>.\<close>

record 'w sock_api =
  sa_socket :: "u16 \<Rightarrow> 'w \<Rightarrow> int \<times> 'w"
  sa_setsockopt :: "int \<Rightarrow> sock_option \<Rightarrow> c_int \<Rightarrow> 'w \<Rightarrow> bool \<times> 'w"
  sa_bind :: "int \<Rightarrow> tcp_sockaddr \<Rightarrow> 'w \<Rightarrow> bool \<times> 'w"
  sa_getsockname :: "int \<Rightarrow> 'w \<Rightarrow> tcp_sockaddr option"
  sa_getpeername :: "int \<Rightarrow> 'w \<Rightarrow> tcp_sockaddr option"
  sa_listen :: "int \<Rightarrow> c_int \<Rightarrow> 'w \<Rightarrow> bool \<times> 'w"
  sa_accept :: "int \<Rightarrow> 'w \<Rightarrow> (int \<times> tcp_sockaddr) \<times> 'w"
  sa_connect :: "int \<Rightarrow> tcp_sockaddr \<Rightarrow> 'w \<Rightarrow> bool \<times> 'w"
  sa_sendto :: "int \<Rightarrow> byte list \<Rightarrow> tcp_sockaddr \<Rightarrow> 'w \<Rightarrow> int \<times> 'w"
  sa_close :: "int \<Rightarrow> 'w \<Rightarrow> 'w"

section \<open>Operations of a socket\<close>

text \<open>The state is the descriptor \<open>_sock\<close> and the system's.\<close>

type_synonym 'w sock_st = "int \<times> 'w"

definition close_socket :: "'w sock_api \<Rightarrow> 'w sock_st \<Rightarrow> 'w sock_st" where
  "close_socket api s = (if fst s \<noteq> INVALID_SOCKET_VALUE
     then (INVALID_SOCKET_VALUE, sa_close api (fst s) (snd s)) else s)"

fun set_options :: "'w sock_api \<Rightarrow> sock_option list \<Rightarrow> 'w sock_st \<Rightarrow> bool \<times> 'w sock_st" where
  "set_options api [] s = (True, s)"
| "set_options api (opt # opts) s = (case sa_setsockopt api (fst s) opt 1 (snd s) of
     (True, w) \<Rightarrow> set_options api opts (fst s, w)
   | (False, w) \<Rightarrow> (False, (fst s, w)))"

definition init_tcp :: "'w sock_api \<Rightarrow> u16 \<Rightarrow> 'w sock_st \<Rightarrow> bool outcome \<times> 'w sock_st" where
  "init_tcp api fam s =
     (if fst s \<noteq> INVALID_SOCKET_VALUE then (Abort, s)
      else (case sa_socket api fam (snd s) of (fd, w) \<Rightarrow>
        if fd = INVALID_SOCKET_VALUE then (Ret False, (fd, w))
        else sweep_scope (close_socket api)
          (\<lambda>s. case set_options api [SO_REUSEADDR, SO_REUSEPORT, TCP_NODELAY, SO_KEEPALIVE] s of
             (ok, s') \<Rightarrow> (Ret (ok, ok), s')) (fd, w)))"

definition enable_dual_stack_if_inet6 :: "'w sock_api \<Rightarrow> u16 \<Rightarrow> 'w sock_st \<Rightarrow> 'w sock_st" where
  "enable_dual_stack_if_inet6 api fam s =
     (if fam \<noteq> AF_INET6 then s else (fst s, snd (sa_setsockopt api (fst s) IPV6_V6ONLY 0 (snd s))))"

text \<open>\<open>bind\<close> and \<open>connect_and_send\<close> also write the address of their last argument, the first component.\<close>

type_synonym 'w addr_st = "tcp_sockaddr \<times> 'w sock_st"

definition socket_bind :: "'w sock_api \<Rightarrow> tcp_sockaddr \<Rightarrow> 'w addr_st \<Rightarrow> bool outcome \<times> 'w addr_st" where
  "socket_bind api addr st = (case st of (bound, s) \<Rightarrow>
     if fst s = INVALID_SOCKET_VALUE then (Abort, st)
     else let s1 = enable_dual_stack_if_inet6 api (family addr) s in
       (case socklen addr of
          Ret len \<Rightarrow> (case sa_bind api (fst s1) addr (snd s1) of
              (False, w) \<Rightarrow> (Ret False, (bound, (fst s1, w)))
            | (True, w) \<Rightarrow> (case sa_getsockname api (fst s1) w of
                None \<Rightarrow> (Ret False, (addr, (fst s1, w)))
              | Some a \<Rightarrow> (Ret True, (a, (fst s1, w)))))
        | _ \<Rightarrow> (Abort, (bound, s1))))"

definition socket_listen :: "'w sock_api \<Rightarrow> c_int \<Rightarrow> 'w sock_st \<Rightarrow> bool outcome \<times> 'w sock_st" where
  "socket_listen api backlog s =
     (if fst s = INVALID_SOCKET_VALUE then (Abort, s)
      else let w1 = snd (sa_setsockopt api (fst s) TCP_FASTOPEN 1 (snd s)) in
        (case sa_listen api (fst s) backlog w1 of (ok, w2) \<Rightarrow> (Ret ok, (fst s, w2))))"

text \<open>\<open>None\<close> is the null pointer.\<close>

definition socket_accept :: "'w sock_api \<Rightarrow> 'w sock_st \<Rightarrow> (int \<times> tcp_sockaddr) option \<times> 'w sock_st" where
  "socket_accept api s = (case sa_accept api (fst s) (snd s) of ((new_sock, peer), w) \<Rightarrow>
     (if new_sock = INVALID_SOCKET_VALUE then None else Some (new_sock, peer), (fst s, w)))"

text \<open>\<open>connect\<close> with the remote address asked for, as its callers do.\<close>

definition socket_connect :: "'w sock_api \<Rightarrow> tcp_sockaddr \<Rightarrow> 'w addr_st \<Rightarrow> bool outcome \<times> 'w addr_st" where
  "socket_connect api addr st = (case st of (remote, s) \<Rightarrow>
     if fst s = INVALID_SOCKET_VALUE then (Abort, st)
     else let s1 = enable_dual_stack_if_inet6 api (family addr) s in
       (case socklen addr of
          Ret len \<Rightarrow> (case sa_connect api (fst s1) addr (snd s1) of
              (False, w) \<Rightarrow> (Ret False, (remote, (fst s1, w)))
            | (True, w) \<Rightarrow> (case sa_getpeername api (fst s1) w of
                None \<Rightarrow> (Ret False, (remote, (fst s1, w)))
              | Some a \<Rightarrow> (Ret True, (a, (fst s1, w)))))
        | _ \<Rightarrow> (Abort, (remote, s1))))"

text \<open>
  The branch for TCP fast open on Linux: the result is compared as a 64 bit number. No caller asks
  for the local address; \<open>want_remote\<close> is whether the remote one is asked for.
\<close>

definition connect_and_send ::
  "'w sock_api \<Rightarrow> bool \<Rightarrow> tcp_sockaddr \<Rightarrow> byte list \<Rightarrow> 'w addr_st \<Rightarrow> bool outcome \<times> 'w addr_st" where
  "connect_and_send api want_remote addr bs st = (case st of (remote, s) \<Rightarrow> (case socklen addr of
       Ret len \<Rightarrow> (case sa_sendto api (fst s) bs addr (snd s) of (ret, w) \<Rightarrow>
           if ret < 0 \<or> (word_of_int ret :: u64) \<noteq> word_of_nat (length bs) then (Ret False, (remote, (fst s, w)))
           else if \<not> want_remote then (Ret True, (remote, (fst s, w)))
           else (case sa_getpeername api (fst s) w of
               None \<Rightarrow> (Ret False, (remote, (fst s, w)))
             | Some a \<Rightarrow> (Ret True, (a, (fst s, w)))))
     | _ \<Rightarrow> (Abort, st)))"

section \<open>Trying the resolved addresses\<close>

text \<open>Disposing the socket of an attempt closes it.\<close>

definition drop_attempt :: "'w sock_api \<Rightarrow> 'w addr_st \<Rightarrow> 'w addr_st" where
  "drop_attempt api st = (fst st, close_socket api (snd st))"

text \<open>A step on the socket alone.\<close>

definition on_socket :: "('w sock_st \<Rightarrow> 'a outcome \<times> 'w sock_st) \<Rightarrow> 'w addr_st \<Rightarrow> 'a outcome \<times> 'w addr_st" where
  "on_socket m st = (case m (snd st) of (r, s) \<Rightarrow> (r, (fst st, s)))"

text \<open>\<open>continue\<close> leaves the scope of the sweeper without suppressing it.\<close>

definition and_then :: "('s \<Rightarrow> bool outcome \<times> 's) \<Rightarrow> ('s \<Rightarrow> (bool \<times> bool) outcome \<times> 's) \<Rightarrow> 's \<Rightarrow> (bool \<times> bool) outcome \<times> 's" where
  "and_then m k = seq_st m (\<lambda>ok s. if ok then k s else (Ret (False, False), s))"

definition try_listen :: "'w sock_api \<Rightarrow> tcp_sockaddr \<Rightarrow> 'w addr_st \<Rightarrow> bool outcome \<times> 'w addr_st" where
  "try_listen api addr = sweep_scope (drop_attempt api)
     (and_then (on_socket (init_tcp api (family addr)))
       (and_then (socket_bind api addr)
         (and_then (on_socket (socket_listen api 256)) (\<lambda>s. (Ret (True, True), s)))))"

definition try_connect :: "'w sock_api \<Rightarrow> byte list \<Rightarrow> tcp_sockaddr \<Rightarrow> 'w addr_st \<Rightarrow> bool outcome \<times> 'w addr_st" where
  "try_connect api header addr = sweep_scope (drop_attempt api)
     (and_then (on_socket (init_tcp api (family addr)))
       (and_then (connect_and_send api True addr header) (\<lambda>s. (Ret (True, True), s))))"

text \<open>Each round of the loop starts with a new socket; the first that works is kept.\<close>

fun try_addresses ::
  "(tcp_sockaddr \<Rightarrow> 'w addr_st \<Rightarrow> bool outcome \<times> 'w addr_st) \<Rightarrow> tcp_sockaddr list \<Rightarrow> 'w addr_st \<Rightarrow> bool outcome \<times> 'w addr_st" where
  "try_addresses attempt [] st = (Ret False, st)"
| "try_addresses attempt (a # as) st =
     seq_st (attempt a) (\<lambda>ok st'. if ok then (Ret True, st') else try_addresses attempt as st')
       (fst st, (INVALID_SOCKET_VALUE, snd (snd st)))"

definition portal_listen :: "'w sock_api \<Rightarrow> tcp_sockaddr list \<Rightarrow> 'w addr_st \<Rightarrow> bool outcome \<times> 'w addr_st" where
  "portal_listen api addrs = try_addresses (try_listen api) addrs"

definition channel_listen :: "'w sock_api \<Rightarrow> tcp_sockaddr list \<Rightarrow> 'w addr_st \<Rightarrow> bool outcome \<times> 'w addr_st" where
  "channel_listen api addrs st = (if addrs = [] then (Abort, st) else try_addresses (try_listen api) addrs st)"

definition portal_connect :: "'w sock_api \<Rightarrow> byte list \<Rightarrow> tcp_sockaddr list \<Rightarrow> 'w addr_st \<Rightarrow> bool outcome \<times> 'w addr_st" where
  "portal_connect api header addrs = try_addresses (try_connect api header) addrs"

text \<open>
  A channel of the client (\<open>client_channel_state::fn_thread_work\<close>) tries its one address and leaves
  the socket to the disposal of the channel.
\<close>

definition client_channel_connect :: "'w sock_api \<Rightarrow> byte list \<Rightarrow> tcp_sockaddr \<Rightarrow> 'w addr_st \<Rightarrow> bool outcome \<times> 'w addr_st" where
  "client_channel_connect api header addr st =
     seq_st (on_socket (init_tcp api (family addr)))
       (\<lambda>ok s. if ok then connect_and_send api False addr header s else (Ret False, s))
       (fst st, (INVALID_SOCKET_VALUE, snd (snd st)))"

section \<open>No descriptor leaks\<close>

text \<open>What the system promises of the descriptors that are open: a call opens, closes or keeps them.\<close>

definition api_fds :: "'w sock_api \<Rightarrow> ('w \<Rightarrow> int set) \<Rightarrow> bool" where
  "api_fds api fds \<longleftrightarrow>
     (\<forall>fam w. case sa_socket api fam w of (fd, w') \<Rightarrow>
        if fd = INVALID_SOCKET_VALUE then fds w' = fds w else fd \<notin> fds w \<and> fds w' = insert fd (fds w))
     \<and> (\<forall>fd w. fds (sa_close api fd w) = fds w - {fd})
     \<and> (\<forall>fd opt v w. fds (snd (sa_setsockopt api fd opt v w)) = fds w)
     \<and> (\<forall>fd a w. fds (snd (sa_bind api fd a w)) = fds w) \<and> (\<forall>fd n w. fds (snd (sa_listen api fd n w)) = fds w)
     \<and> (\<forall>fd a w. fds (snd (sa_connect api fd a w)) = fds w) \<and> (\<forall>fd bs a w. fds (snd (sa_sendto api fd bs a w)) = fds w)"

lemma api_socketD:
  "api_fds api fds \<Longrightarrow> sa_socket api fam w = (fd, w') \<Longrightarrow>
    if fd = INVALID_SOCKET_VALUE then fds w' = fds w else fd \<notin> fds w \<and> fds w' = insert fd (fds w)"
  unfolding api_fds_def by (elim conjE) (drule spec [of _ fam], drule spec [of _ w], simp)

lemma api_keep:
  assumes "api_fds api fds"
  shows "fds (sa_close api fd w) = fds w - {fd}" "fds (snd (sa_setsockopt api fd opt v w)) = fds w"
    "fds (snd (sa_bind api fd a w)) = fds w" "fds (snd (sa_listen api fd n w)) = fds w"
    "fds (snd (sa_connect api fd a w)) = fds w" "fds (snd (sa_sendto api fd bs a w)) = fds w"
  using assms unfolding api_fds_def by simp_all

text \<open>The state while an attempt from \<open>F\<close> open descriptors goes on: its own is the only other one.\<close>

definition owns :: "('w \<Rightarrow> int set) \<Rightarrow> int set \<Rightarrow> 'w sock_st \<Rightarrow> bool" where
  "owns fds F s \<longleftrightarrow> (if fst s = INVALID_SOCKET_VALUE then fds (snd s) = F else fst s \<notin> F \<and> fds (snd s) = insert (fst s) F)"

lemma owns_close:
  assumes "api_fds api fds" and "owns fds F s"
  shows "owns fds F (close_socket api s) \<and> fst (close_socket api s) = INVALID_SOCKET_VALUE"
proof (cases "fst s = INVALID_SOCKET_VALUE")
  case True
  with assms(2) show ?thesis by (simp add: close_socket_def)
next
  case False
  with assms(2) have "fds (snd s) - {fst s} = F" by (simp add: owns_def)
  then have "fds (sa_close api (fst s) (snd s)) = F" by (simp only: api_keep(1) [OF assms(1)])
  with False show ?thesis by (simp add: owns_def close_socket_def)
qed

lemma owns_same: "owns fds F s \<Longrightarrow> fst s' = fst s \<Longrightarrow> fds (snd s') = fds (snd s) \<Longrightarrow> owns fds F s'"
  by (simp add: owns_def)

lemma set_options_owns:
  "api_fds api fds \<Longrightarrow> owns fds F s \<Longrightarrow> set_options api opts s = (ok, s') \<Longrightarrow> owns fds F s' \<and> fst s' = fst s"
proof (induction api opts s rule: set_options.induct)
  case (2 api opt opts s)
  obtain b w where b: "sa_setsockopt api (fst s) opt 1 (snd s) = (b, w)" by force
  have "fds w = fds (snd s)" using api_keep(2) [OF "2.prems"(1), of "fst s" opt 1 "snd s"] b by simp
  then have o: "owns fds F (fst s, w)" using "2.prems"(2) by (simp add: owns_def)
  show ?case using "2.IH" [OF b [symmetric] _ "2.prems"(1) o] "2.prems"(3) b o by (cases b) auto
qed simp

lemma init_tcp_owns:
  assumes "api_fds api fds" and "owns fds F s" and "init_tcp api fam s = (Ret ok, s')"
  shows "owns fds F s' \<and> (ok \<longrightarrow> fst s' \<noteq> INVALID_SOCKET_VALUE)"
proof -
  from assms(3) have inv: "fst s = INVALID_SOCKET_VALUE" by (auto simp: init_tcp_def split: if_splits)
  with assms(2) have F: "fds (snd s) = F" by (simp add: owns_def)
  obtain fd w where so: "sa_socket api fam (snd s) = (fd, w)" by force
  have w: "owns fds F (fd, w)" using api_socketD [OF assms(1) so] F by (simp add: owns_def split: if_splits)
  show ?thesis
  proof (cases "fd = INVALID_SOCKET_VALUE")
    case True
    with assms(3) inv so w show ?thesis by (auto simp: init_tcp_def)
  next
    case False
    obtain b s1 where b: "set_options api [SO_REUSEADDR, SO_REUSEPORT, TCP_NODELAY, SO_KEEPALIVE] (fd, w) = (b, s1)"
      by (rule prod.exhaust)
    from set_options_owns [OF assms(1) w b] have s1: "owns fds F s1" "fst s1 = fd" by simp_all
    with owns_close [OF assms(1) s1(1)] assms(3) inv so False b show ?thesis
      by (auto simp: init_tcp_def sweep_scope_def split: if_splits)
  qed
qed

lemma dual_stack_same:
  assumes "api_fds api fds"
  shows "fst (enable_dual_stack_if_inet6 api fam s) = fst s \<and> fds (snd (enable_dual_stack_if_inet6 api fam s)) = fds (snd s)"
  using api_keep(2) [OF assms, of "fst s" IPV6_V6ONLY 0 "snd s"] by (simp add: enable_dual_stack_if_inet6_def)

lemma socket_bind_same:
  assumes "api_fds api fds" and "socket_bind api addr st = (Ret ok, st')"
  shows "fst (snd st') = fst (snd st) \<and> fds (snd (snd st')) = fds (snd (snd st))"
proof -
  let ?s1 = "enable_dual_stack_if_inet6 api (family addr) (snd st)"
  obtain b w where b: "sa_bind api (fst ?s1) addr (snd ?s1) = (b, w)" by force
  with assms(2) have "snd st' = (fst ?s1, w)"
    by (cases st) (auto simp: socket_bind_def Let_def split: if_splits bool.splits option.splits outcome.splits)
  with b api_keep(3) [OF assms(1), of "fst ?s1" addr "snd ?s1"] dual_stack_same [OF assms(1), of "family addr" "snd st"]
  show ?thesis by simp
qed

lemma socket_listen_same:
  assumes "api_fds api fds" and "socket_listen api n s = (Ret ok, s')"
  shows "fst s' = fst s \<and> fds (snd s') = fds (snd s) \<and> fst s \<noteq> INVALID_SOCKET_VALUE"
proof -
  let ?w1 = "snd (sa_setsockopt api (fst s) TCP_FASTOPEN 1 (snd s))"
  obtain b w where b: "sa_listen api (fst s) n ?w1 = (b, w)" by force
  with assms(2) have "s' = (fst s, w)" "fst s \<noteq> INVALID_SOCKET_VALUE"
    by (auto simp: socket_listen_def Let_def split: if_splits)
  with b api_keep(4) [OF assms(1), of "fst s" n ?w1] api_keep(2) [OF assms(1), of "fst s" TCP_FASTOPEN 1 "snd s"]
  show ?thesis by simp
qed

lemma connect_and_send_same:
  assumes "api_fds api fds" and "connect_and_send api want_remote addr bs st = (Ret ok, st')"
  shows "fst (snd st') = fst (snd st) \<and> fds (snd (snd st')) = fds (snd (snd st))"
proof -
  obtain r w where r: "sa_sendto api (fst (snd st)) bs addr (snd (snd st)) = (r, w)" by force
  with assms(2) have "snd st' = (fst (snd st), w)"
    by (cases st) (auto simp: connect_and_send_def split: if_splits option.splits outcome.splits)
  with r api_keep(6) [OF assms(1), of "fst (snd st)" bs addr "snd (snd st)"] show ?thesis by simp
qed

lemma and_then_Ret:
  "and_then m k s = (Ret x, s') \<longleftrightarrow> (\<exists>s1. m s = (Ret True, s1) \<and> k s1 = (Ret x, s')) \<or> m s = (Ret False, s') \<and> x = (False, False)"
proof -
  have "and_then m k s = (Ret x, s') \<longleftrightarrow> (\<exists>ok s1. m s = (Ret ok, s1) \<and> (if ok then k s1 else (Ret (False, False), s1)) = (Ret x, s'))"
    by (simp add: and_then_def seq_st_Ret_iff)
  then show ?thesis by (auto split: if_splits)
qed

lemma on_socket_Ret: "on_socket m st = (Ret ok, st') \<longleftrightarrow> m (snd st) = (Ret ok, snd st') \<and> fst st' = fst st"
  by (cases "m (snd st)"; cases st') (auto simp: on_socket_def)

lemma sweep_scope_Ret:
  "sweep_scope f body s = (Ret a, s') \<longleftrightarrow> (\<exists>sup s1. body s = (Ret (a, sup), s1) \<and> s' = (if sup then s1 else f s1))"
  by (auto simp: sweep_scope_def split: prod.splits outcome.splits)

text \<open>An attempt that fails closes its socket; one that succeeds keeps it.\<close>

definition attempt_fds ::
  "('w \<Rightarrow> int set) \<Rightarrow> (tcp_sockaddr \<Rightarrow> 'w addr_st \<Rightarrow> bool outcome \<times> 'w addr_st) \<Rightarrow> bool" where
  "attempt_fds fds attempt \<longleftrightarrow> (\<forall>a b w ok st. attempt a (b, (INVALID_SOCKET_VALUE, w)) = (Ret ok, st)
     \<longrightarrow> owns fds (fds w) (snd st) \<and> (fst (snd st) \<noteq> INVALID_SOCKET_VALUE \<longleftrightarrow> ok))"

lemma try_listen_fds:
  assumes "api_fds api fds"
  shows "attempt_fds fds (try_listen api)"
  unfolding attempt_fds_def
proof (intro allI impI)
  fix a b w ok st
  assume "try_listen api a (b, (INVALID_SOCKET_VALUE, w)) = (Ret ok, st)"
  then obtain sup st1 where body: "and_then (on_socket (init_tcp api (family a))) (and_then (socket_bind api a)
      (and_then (on_socket (socket_listen api 256)) (\<lambda>s. (Ret (True, True), s)))) (b, (INVALID_SOCKET_VALUE, w)) = (Ret (ok, sup), st1)"
    and st: "st = (if sup then st1 else drop_attempt api st1)"
    unfolding try_listen_def sweep_scope_Ret by blast
  have o0: "owns fds (fds w) (INVALID_SOCKET_VALUE, w)" by (simp add: owns_def)
  have fin: "ok = sup \<and> owns fds (fds w) (snd st1) \<and> (ok \<longrightarrow> fst (snd st1) \<noteq> INVALID_SOCKET_VALUE)"
  proof -
    from body consider "init_tcp api (family a) (INVALID_SOCKET_VALUE, w) = (Ret False, snd st1)" "\<not> ok" "\<not> sup"
      | s1 where "init_tcp api (family a) (INVALID_SOCKET_VALUE, w) = (Ret True, snd s1)"
        "and_then (socket_bind api a) (and_then (on_socket (socket_listen api 256)) (\<lambda>s. (Ret (True, True), s))) s1 = (Ret (ok, sup), st1)"
      by (subst (asm) and_then_Ret) (auto simp: on_socket_Ret)
    then show ?thesis
    proof cases
      case 1
      with init_tcp_owns [OF assms o0 1(1)] show ?thesis by simp
    next
      case 2
      note s1 = init_tcp_owns [OF assms o0 2(1)]
      from 2(2) consider "socket_bind api a s1 = (Ret False, st1)" "\<not> ok" "\<not> sup"
        | s2 where "socket_bind api a s1 = (Ret True, s2)" "and_then (on_socket (socket_listen api 256)) (\<lambda>s. (Ret (True, True), s)) s2 = (Ret (ok, sup), st1)"
        unfolding and_then_Ret [of "socket_bind api a"] by blast
      then show ?thesis
      proof cases
        case 1
        with s1 owns_same [of fds _ "snd s1"] socket_bind_same [OF assms 1(1)] show ?thesis by simp
      next
        case 2
        from 2(2) have l: "socket_listen api 256 (snd s2) = (Ret ok, snd st1)" "ok = sup"
          by (auto simp: and_then_Ret on_socket_Ret)
        with s1 owns_same [of fds _ "snd s1"] socket_bind_same [OF assms 2(1)] socket_listen_same [OF assms l(1)] show ?thesis by simp
      qed
    qed
  qed
  with st owns_close [OF assms, of "fds w" "snd st1"]
  show "owns fds (fds w) (snd st) \<and> (fst (snd st) \<noteq> INVALID_SOCKET_VALUE \<longleftrightarrow> ok)"
    by (auto simp: drop_attempt_def)
qed

lemma try_connect_fds:
  assumes "api_fds api fds"
  shows "attempt_fds fds (try_connect api header)"
  unfolding attempt_fds_def
proof (intro allI impI)
  fix a b w ok st
  assume "try_connect api header a (b, (INVALID_SOCKET_VALUE, w)) = (Ret ok, st)"
  then obtain sup st1 where body: "and_then (on_socket (init_tcp api (family a))) (and_then (connect_and_send api True a header)
      (\<lambda>s. (Ret (True, True), s))) (b, (INVALID_SOCKET_VALUE, w)) = (Ret (ok, sup), st1)"
    and st: "st = (if sup then st1 else drop_attempt api st1)"
    unfolding try_connect_def sweep_scope_Ret by blast
  have o0: "owns fds (fds w) (INVALID_SOCKET_VALUE, w)" by (simp add: owns_def)
  have fin: "ok = sup \<and> owns fds (fds w) (snd st1) \<and> (ok \<longrightarrow> fst (snd st1) \<noteq> INVALID_SOCKET_VALUE)"
  proof -
    from body consider "init_tcp api (family a) (INVALID_SOCKET_VALUE, w) = (Ret False, snd st1)" "\<not> ok" "\<not> sup"
      | s1 where "init_tcp api (family a) (INVALID_SOCKET_VALUE, w) = (Ret True, snd s1)"
        "connect_and_send api True a header s1 = (Ret ok, st1)" "ok = sup"
      by (subst (asm) and_then_Ret) (auto simp: on_socket_Ret and_then_Ret)
    then show ?thesis
    proof cases
      case 1
      with init_tcp_owns [OF assms o0 1(1)] show ?thesis by simp
    next
      case 2
      with init_tcp_owns [OF assms o0 2(1)] owns_same [of fds _ "snd s1"] connect_and_send_same [OF assms 2(2)] show ?thesis by simp
    qed
  qed
  with st owns_close [OF assms, of "fds w" "snd st1"]
  show "owns fds (fds w) (snd st) \<and> (fst (snd st) \<noteq> INVALID_SOCKET_VALUE \<longleftrightarrow> ok)"
    by (auto simp: drop_attempt_def)
qed

lemma try_addresses_fds:
  "attempt_fds fds attempt \<Longrightarrow> try_addresses attempt as st = (Ret ok, st') \<Longrightarrow>
    if ok then fst (snd st') \<noteq> INVALID_SOCKET_VALUE \<and> fst (snd st') \<notin> fds (snd (snd st))
      \<and> fds (snd (snd st')) = insert (fst (snd st')) (fds (snd (snd st)))
    else fds (snd (snd st')) = fds (snd (snd st))"
proof (induction as arbitrary: st)
  case (Cons a as)
  from Cons.prems(2) obtain b st1 where at: "attempt a (fst st, (INVALID_SOCKET_VALUE, snd (snd st))) = (Ret b, st1)"
    and rest: "(if b then (Ret True, st1) else try_addresses attempt as st1) = (Ret ok, st')"
    by (auto simp: seq_st_Ret_iff)
  from Cons.prems(1) at have o: "owns fds (fds (snd (snd st))) (snd st1)" "fst (snd st1) \<noteq> INVALID_SOCKET_VALUE \<longleftrightarrow> b"
    unfolding attempt_fds_def by blast+
  show ?case
  proof (cases b)
    case True
    with rest o show ?thesis by (auto simp: owns_def split: if_splits)
  next
    case False
    then have "fds (snd (snd st1)) = fds (snd (snd st))" using o by (simp add: owns_def)
    with Cons.IH [OF Cons.prems(1), of st1] rest False show ?thesis by (simp split: if_splits)
  qed
qed simp

text \<open>Setting up the portal of the server or connecting that of the client leaks no descriptor, however many
  addresses fail and at whichever call: with a socket there is exactly one more open descriptor than
  before, that of the socket, and without one there are the same.\<close>

theorem setup_leaks_nothing:
  assumes "api_fds api fds"
    and "portal_listen api addrs (b, (fd, w)) = (Ret ok, (b', (fd', w'))) \<or> portal_connect api header addrs (b, (fd, w)) = (Ret ok, (b', (fd', w')))"
  shows "if ok then fd' \<noteq> INVALID_SOCKET_VALUE \<and> fd' \<notin> fds w \<and> fds w' = insert fd' (fds w) else fds w' = fds w"
  using assms(2) try_addresses_fds [OF try_listen_fds [OF assms(1)], of addrs "(b, (fd, w))" ok "(b', (fd', w'))"]
    try_addresses_fds [OF try_connect_fds [OF assms(1)], of header addrs "(b, (fd, w))" ok "(b', (fd', w'))"]
  unfolding portal_listen_def portal_connect_def by auto

text \<open>An example: a host without IPv6, whose sockets are numbered from 3.\<close>

definition demo_api :: "int set sock_api" where
  "demo_api = \<lparr>sa_socket = (\<lambda>fam w. if 3 \<in> w then (-1, w) else (3, insert 3 w)), sa_setsockopt = (\<lambda>fd opt v w. (True, w)),
     sa_bind = (\<lambda>fd a w. (family a \<noteq> AF_INET6, w)), sa_getsockname = (\<lambda>fd w. Some (Addr_ipv4 \<lparr>sin_port = 5, sin_addr = 0\<rparr>)),
     sa_getpeername = (\<lambda>fd w. None), sa_listen = (\<lambda>fd n w. (True, w)), sa_accept = (\<lambda>fd w. ((-1, zero_sockaddr), w)),
     sa_connect = (\<lambda>fd a w. (False, w)), sa_sendto = (\<lambda>fd bs a w. (-1, w)), sa_close = (\<lambda>fd w. w - {fd})\<rparr>"

lemma demo_api_fds: "api_fds demo_api (\<lambda>w. w)"
  by (simp add: api_fds_def demo_api_def INVALID_SOCKET_VALUE_def)

lemma demo_listen:
  "portal_listen demo_api [Addr_ipv6 \<lparr>sin6_port = 5, sin6_flowinfo = 0, sin6_addr = in6addr_any, sin6_scope_id = 0\<rparr>,
      Addr_ipv4 \<lparr>sin_port = 5, sin_addr = 0\<rparr>] (zero_sockaddr, (-1, {0})) = (Ret True, (Addr_ipv4 \<lparr>sin_port = 5, sin_addr = 0\<rparr>, (3, {0, 3})))"
  by (simp add: portal_listen_def try_listen_def sweep_scope_def and_then_def seq_st_def on_socket_def init_tcp_def socket_bind_def
      socket_listen_def enable_dual_stack_if_inet6_def drop_attempt_def close_socket_def demo_api_def INVALID_SOCKET_VALUE_def
      AF_INET_def AF_INET6_def insert_commute Let_def)

theorem setup_leaks_nothing_witness:
  "\<exists>b fd w. portal_listen demo_api [Addr_ipv6 \<lparr>sin6_port = 5, sin6_flowinfo = 0, sin6_addr = in6addr_any, sin6_scope_id = 0\<rparr>,
      Addr_ipv4 \<lparr>sin_port = 5, sin_addr = 0\<rparr>] (zero_sockaddr, (-1, {0})) = (Ret True, (b, (fd, w))) \<and> fd \<notin> {0} \<and> w = insert fd {0}"
  using setup_leaks_nothing [OF demo_api_fds disjI1 [OF demo_listen]] demo_listen by auto

end
