(* ===== verification/Ecma_Regex.thy ===== *)
theory Ecma_Regex
  imports Xcp_Prelude
begin

text \<open>
  What the source uses of \<open>std::regex\<close>: the ECMAScript grammar with character classes, sequences,
  ordered alternatives, greedy counted repetition, capture groups and the assertions \<open>^\<close> and \<open>$\<close>,
  matched by backtracking. \<open>rx_run\<close> lists the ways to match a prefix in the order a backtracking
  matcher tries them, so \<open>regex_match\<close> is the first of them that consumes the whole input. The
  language of an expression (\<open>rx_lang\<close>) says which words match; the lemmas relate the two.
\<close>

section \<open>Expressions and the backtracking matcher\<close>

datatype rx =
    Rx_eps
  | Rx_class "char \<Rightarrow> bool"
  | Rx_seq rx rx
  | Rx_alt rx rx
  | Rx_rep nat "nat option" rx \<comment> \<open>\<open>{m,n}\<close> or, with \<open>None\<close>, \<open>{m,}\<close>\<close>
  | Rx_group nat rx \<comment> \<open>a capture group with its number\<close>
  | Rx_bol
  | Rx_eol

abbreviation Rx_star :: "rx \<Rightarrow> rx" where
  "Rx_star \<equiv> Rx_rep 0 None"

abbreviation Rx_plus :: "rx \<Rightarrow> rx" where
  "Rx_plus \<equiv> Rx_rep 1 None"

abbreviation Rx_opt :: "rx \<Rightarrow> rx" where
  "Rx_opt \<equiv> Rx_rep 0 (Some 1)"

definition Rx_char :: "char \<Rightarrow> rx" where
  "Rx_char c = Rx_class (\<lambda>x. x = c)"

fun Rx_seqs :: "rx list \<Rightarrow> rx" where
  "Rx_seqs [] = Rx_eps"
| "Rx_seqs [r] = r"
| "Rx_seqs (r # rs) = Rx_seq r (Rx_seqs rs)"

fun Rx_alts :: "rx list \<Rightarrow> rx" where
  "Rx_alts [] = Rx_class (\<lambda>_. False)"
| "Rx_alts [r] = r"
| "Rx_alts (r # rs) = Rx_alt r (Rx_alts rs)"

text \<open>A state of the matcher: the input not yet consumed and the text of each group, empty if unset.\<close>

type_synonym rx_state = "string \<times> (nat \<Rightarrow> string)"

text \<open>
  A repetition that has its minimum tries one more iteration before it stops, and refuses an
  iteration that consumes nothing; the fuel of the iterations is the minimum and the input left.
\<close>

fun rx_iter :: "nat \<Rightarrow> (rx_state \<Rightarrow> rx_state list) \<Rightarrow> nat \<Rightarrow> nat option \<Rightarrow> rx_state \<Rightarrow> rx_state list" where
  "rx_iter 0 f m M st = (if m = 0 then [st] else [])"
| "rx_iter (Suc k) f m M st =
     (if M = Some 0 then []
      else concat (map (\<lambda>st'. if m = 0 \<and> fst st' = fst st then []
             else rx_iter k f (m - 1) (map_option (\<lambda>n. n - 1) M) st') (f st)))
     @ (if m = 0 then [st] else [])"

fun rx_run :: "nat \<Rightarrow> rx \<Rightarrow> rx_state \<Rightarrow> rx_state list" where
  "rx_run n Rx_eps st = [st]"
| "rx_run n (Rx_class p) st = (case fst st of [] \<Rightarrow> [] | c # s \<Rightarrow> if p c then [(s, snd st)] else [])"
| "rx_run n (Rx_seq a b) st = concat (map (rx_run n b) (rx_run n a st))"
| "rx_run n (Rx_alt a b) st = rx_run n a st @ rx_run n b st"
| "rx_run n (Rx_rep m M r) st = rx_iter (m + length (fst st)) (rx_run n r) m M st"
| "rx_run n (Rx_group i r) st =
     map (\<lambda>st'. (fst st', (snd st')(i := take (length (fst st) - length (fst st')) (fst st)))) (rx_run n r st)"
| "rx_run n Rx_bol st = (if length (fst st) = n then [st] else [])"
| "rx_run n Rx_eol st = (if fst st = [] then [st] else [])"

definition regex_match :: "rx \<Rightarrow> string \<Rightarrow> (nat \<Rightarrow> string) option" where
  "regex_match r s = map_option snd (find (\<lambda>st. fst st = []) (rx_run (length s) r (s, \<lambda>_. [])))"

lemma regex_match_Some:
  assumes "regex_match r s = Some g"
  shows "([], g) \<in> set (rx_run (length s) r (s, \<lambda>_. []))"
proof -
  let ?xs = "rx_run (length s) r (s, \<lambda>_. [])"
  from assms obtain st where st: "find (\<lambda>st. fst st = []) ?xs = Some st" "snd st = g"
    unfolding regex_match_def by blast
  from st(1) have "st \<in> set ?xs" "fst st = []" by (auto simp: find_Some_iff)
  with st(2) show ?thesis by (cases st) simp
qed

lemma regex_match_None:
  "regex_match r s = None \<Longrightarrow> ([], g) \<notin> set (rx_run (length s) r (s, \<lambda>_. []))"
  unfolding regex_match_def by (auto simp: find_None_iff)

text \<open>When all full matches agree on the groups, the order of the alternatives does not matter.\<close>

lemma regex_match_unique:
  assumes "([], g) \<in> set (rx_run (length s) r (s, \<lambda>_. []))"
    and "\<And>g'. ([], g') \<in> set (rx_run (length s) r (s, \<lambda>_. [])) \<Longrightarrow> P g'"
  shows "\<exists>g'. regex_match r s = Some g' \<and> P g'"
  using assms regex_match_Some regex_match_None by (cases "regex_match r s") blast+

section \<open>The language of an expression\<close>

fun rx_lang :: "rx \<Rightarrow> string set" where
  "rx_lang Rx_eps = {[]}"
| "rx_lang (Rx_class p) = {[c] | c. p c}"
| "rx_lang (Rx_seq a b) = {u @ v | u v. u \<in> rx_lang a \<and> v \<in> rx_lang b}"
| "rx_lang (Rx_alt a b) = rx_lang a \<union> rx_lang b"
| "rx_lang (Rx_rep m M r) = {concat ws | ws. set ws \<subseteq> rx_lang r \<and> m \<le> length ws
     \<and> (case M of None \<Rightarrow> True | Some n \<Rightarrow> length ws \<le> n)}"
| "rx_lang (Rx_group i r) = rx_lang r"
| "rx_lang Rx_bol = {[]}"
| "rx_lang Rx_eol = {[]}"

fun rx_pure :: "rx \<Rightarrow> bool" where \<comment> \<open>no assertion and no group\<close>
  "rx_pure (Rx_seq a b) \<longleftrightarrow> rx_pure a \<and> rx_pure b"
| "rx_pure (Rx_alt a b) \<longleftrightarrow> rx_pure a \<and> rx_pure b"
| "rx_pure (Rx_rep m M r) \<longleftrightarrow> rx_pure r"
| "rx_pure (Rx_group i r) \<longleftrightarrow> False"
| "rx_pure Rx_bol \<longleftrightarrow> False"
| "rx_pure Rx_eol \<longleftrightarrow> False"
| "rx_pure _ \<longleftrightarrow> True"

fun rx_chars :: "rx \<Rightarrow> char \<Rightarrow> bool" where
  "rx_chars (Rx_class p) = p"
| "rx_chars (Rx_seq a b) = (\<lambda>c. rx_chars a c \<or> rx_chars b c)"
| "rx_chars (Rx_alt a b) = (\<lambda>c. rx_chars a c \<or> rx_chars b c)"
| "rx_chars (Rx_rep m M r) = rx_chars r"
| "rx_chars (Rx_group i r) = rx_chars r"
| "rx_chars _ = (\<lambda>c. False)"

lemma rx_lang_chars: "w \<in> rx_lang r \<Longrightarrow> c \<in> set w \<Longrightarrow> rx_chars r c"
proof (induction r arbitrary: w)
  case (Rx_seq a b)
  then obtain u v where "w = u @ v" "u \<in> rx_lang a" "v \<in> rx_lang b" by auto
  with Rx_seq show ?case by (cases "c \<in> set u") auto
next
  case (Rx_rep m M r)
  then obtain ws v where "set ws \<subseteq> rx_lang r" "v \<in> set ws" "c \<in> set v" by auto
  with Rx_rep.IH show ?case by auto
qed auto

section \<open>The matcher is sound\<close>

text \<open>A matcher consumes a word of a language and keeps the groups.\<close>

definition rx_sound :: "(rx_state \<Rightarrow> rx_state list) \<Rightarrow> string set \<Rightarrow> bool" where
  "rx_sound f L \<longleftrightarrow> (\<forall>st st'. st' \<in> set (f st) \<longrightarrow> (\<exists>w\<in>L. fst st = w @ fst st'))"

lemma rx_soundD: "rx_sound f L \<Longrightarrow> st' \<in> set (f st) \<Longrightarrow> \<exists>w\<in>L. fst st = w @ fst st'"
  unfolding rx_sound_def by blast

lemma rx_iter_sound:
  assumes "rx_sound f L" and "st' \<in> set (rx_iter k f m M st)"
  shows "\<exists>ws. set ws \<subseteq> L \<and> m \<le> length ws \<and> (case M of None \<Rightarrow> True | Some n \<Rightarrow> length ws \<le> n) \<and> fst st = concat ws @ fst st'"
  using assms(2)
proof (induction k arbitrary: m M st)
  case 0
  then show ?case by (intro exI [of _ "[]"]) (auto split: if_splits option.splits)
next
  case (Suc k)
  from Suc.prems consider "m = 0" "st' = st"
    | st1 where "st1 \<in> set (f st)" "M \<noteq> Some 0" "st' \<in> set (rx_iter k f (m - 1) (map_option (\<lambda>n. n - 1) M) st1)"
    by (auto split: if_splits)
  then show ?case
  proof cases
    case 1
    then show ?thesis by (intro exI [of _ "[]"]) (auto split: option.splits)
  next
    case 2
    obtain w where w: "w \<in> L" "fst st = w @ fst st1" using rx_soundD [OF assms(1) 2(1)] by blast
    obtain ws where ws: "set ws \<subseteq> L" "m - 1 \<le> length ws" "fst st1 = concat ws @ fst st'"
      "case map_option (\<lambda>n. n - 1) M of None \<Rightarrow> True | Some n \<Rightarrow> length ws \<le> n"
      using Suc.IH [OF 2(3)] by blast
    with w 2(2) show ?thesis by (intro exI [of _ "w # ws"]) (auto split: option.splits)
  qed
qed

lemma rx_soundI: "(\<And>st st'. st' \<in> set (f st) \<Longrightarrow> \<exists>w\<in>L. fst st = w @ fst st') \<Longrightarrow> rx_sound f L"
  unfolding rx_sound_def by blast

lemma rx_run_sound: "rx_sound (rx_run n r) (rx_lang r)"
proof (induction r)
  case (Rx_seq a b)
  show ?case
  proof (rule rx_soundI)
    fix st st' assume "st' \<in> set (rx_run n (Rx_seq a b) st)"
    then obtain st1 where "st1 \<in> set (rx_run n a st)" "st' \<in> set (rx_run n b st1)" by auto
    then obtain u v where "u \<in> rx_lang a" "fst st = u @ fst st1" "v \<in> rx_lang b" "fst st1 = v @ fst st'"
      using Rx_seq by (meson rx_soundD)
    then show "\<exists>w\<in>rx_lang (Rx_seq a b). fst st = w @ fst st'" by (intro bexI [of _ "u @ v"]) auto
  qed
next
  case (Rx_alt a b)
  show ?case
  proof (rule rx_soundI)
    fix st st' assume "st' \<in> set (rx_run n (Rx_alt a b) st)"
    then consider "st' \<in> set (rx_run n a st)" | "st' \<in> set (rx_run n b st)" by auto
    then show "\<exists>w\<in>rx_lang (Rx_alt a b). fst st = w @ fst st'"
      by cases (use rx_soundD [OF Rx_alt(1), of st' st] rx_soundD [OF Rx_alt(2), of st' st] in auto)
  qed
next
  case (Rx_rep m M r)
  show ?case
  proof (rule rx_soundI)
    fix st st' assume "st' \<in> set (rx_run n (Rx_rep m M r) st)"
    then have "st' \<in> set (rx_iter (m + length (fst st)) (rx_run n r) m M st)" by simp
    then obtain ws where "set ws \<subseteq> rx_lang r" "m \<le> length ws" "fst st = concat ws @ fst st'"
      "case M of None \<Rightarrow> True | Some n \<Rightarrow> length ws \<le> n"
      using rx_iter_sound [OF Rx_rep] by blast
    then show "\<exists>w\<in>rx_lang (Rx_rep m M r). fst st = w @ fst st'" by (intro bexI [of _ "concat ws"]) auto
  qed
next
  case (Rx_group i r)
  show ?case
  proof (rule rx_soundI)
    fix st st' assume "st' \<in> set (rx_run n (Rx_group i r) st)"
    then obtain st1 where "st1 \<in> set (rx_run n r st)" "fst st' = fst st1" by auto
    then show "\<exists>w\<in>rx_lang (Rx_group i r). fst st = w @ fst st'" using rx_soundD [OF Rx_group] by simp
  qed
next
  case (Rx_class p)
  show ?case by (rule rx_soundI) (auto split: list.splits if_splits)
qed (rule rx_soundI, simp split: if_splits)+

text \<open>A group-free expression keeps the groups, a group sets its own to what it consumed.\<close>

lemma rx_iter_groups:
  assumes "\<And>st st'. st' \<in> set (f st) \<Longrightarrow> snd st' = snd st"
  shows "st' \<in> set (rx_iter k f m M st) \<Longrightarrow> snd st' = snd st"
proof (induction k arbitrary: m M st)
  case (Suc k)
  from Suc.prems consider "st' = st"
    | st1 where "st1 \<in> set (f st)" "st' \<in> set (rx_iter k f (m - 1) (map_option (\<lambda>n. n - 1) M) st1)"
    by (auto split: if_splits)
  then show ?case using Suc.IH assms by cases auto
qed (simp split: if_splits)

lemma rx_run_groups: "rx_pure r \<Longrightarrow> st' \<in> set (rx_run n r st) \<Longrightarrow> snd st' = snd st"
proof (induction r arbitrary: st st')
  case (Rx_seq a b)
  then obtain st1 where "st1 \<in> set (rx_run n a st)" "st' \<in> set (rx_run n b st1)" by auto
  with Rx_seq show ?case by simp
next
  case (Rx_rep m M r)
  have f: "\<And>st st'. st' \<in> set (rx_run n r st) \<Longrightarrow> snd st' = snd st" using Rx_rep by simp
  show ?case using rx_iter_groups [OF f] Rx_rep.prems by simp
qed (auto split: list.splits if_splits)

lemma rx_group_sound:
  assumes "rx_pure r" and "(s', g') \<in> set (rx_run n (Rx_group i r) (s, g))"
  shows "\<exists>w\<in>rx_lang r. s = w @ s' \<and> g' = g(i := w)"
proof -
  obtain g1 where st: "(s', g1) \<in> set (rx_run n r (s, g))" "g' = g1(i := take (length s - length s') s)"
    using assms(2) by auto
  have "g1 = g" using rx_run_groups [OF assms(1) st(1)] by simp
  moreover obtain w where "w \<in> rx_lang r" "s = w @ s'" using rx_soundD [OF rx_run_sound st(1)] by auto
  ultimately show ?thesis using st(2) by (intro bexI [of _ w]) simp_all
qed

lemma rx_pure_sound:
  assumes "rx_pure r" and "(s', g') \<in> set (rx_run n r (s, g))"
  shows "\<exists>w\<in>rx_lang r. s = w @ s' \<and> g' = g"
  using rx_soundD [OF rx_run_sound assms(2)] rx_run_groups [OF assms] by simp

section \<open>The matcher is complete\<close>

lemma rx_iter_complete:
  assumes "\<And>w s g. w \<in> L \<Longrightarrow> (s, g) \<in> set (f (w @ s, g))"
    and "set ws \<subseteq> L" and "m \<le> length ws" and "case M of None \<Rightarrow> True | Some n \<Rightarrow> length ws \<le> n"
    and "m + length (concat ws) \<le> k"
  shows "(s, g) \<in> set (rx_iter k f m M (concat ws @ s, g))"
  using assms(2-)
proof (induction ws arbitrary: m M k)
  case Nil
  then show ?case by (cases k) simp_all
next
  case (Cons w ws)
  show ?case
  proof (cases "m = 0 \<and> w = []")
    case True
    with Cons.prems have "case M of None \<Rightarrow> True | Some n \<Rightarrow> length ws \<le> n" by (auto split: option.splits)
    with True Cons show ?thesis by simp
  next
    case False
    have st1: "(concat ws @ s, g) \<in> set (f (concat (w # ws) @ s, g))"
      using assms(1) [of w "concat ws @ s" g] Cons.prems(1) by simp
    obtain j where k: "k = Suc j" using False Cons.prems(4) by (cases k) auto
    have M: "M \<noteq> Some 0" "case map_option (\<lambda>n. n - 1) M of None \<Rightarrow> True | Some n \<Rightarrow> length ws \<le> n"
      using Cons.prems(3) by (auto split: option.splits)
    have "m - 1 + length (concat ws) \<le> j" using False Cons.prems(4) k by (cases w) auto
    then have "(s, g) \<in> set (rx_iter j f (m - 1) (map_option (\<lambda>n. n - 1) M) (concat ws @ s, g))"
      using Cons.IH [of "m - 1" "map_option (\<lambda>n. n - 1) M" j] Cons.prems M by simp
    then show ?thesis using False st1 k M(1) by (auto intro!: bexI [of _ "(concat ws @ s, g)"])
  qed
qed

lemma rx_run_complete: "rx_pure r \<Longrightarrow> w \<in> rx_lang r \<Longrightarrow> (s, g) \<in> set (rx_run n r (w @ s, g))"
proof (induction r arbitrary: w s g)
  case (Rx_seq a b)
  then obtain u v where w: "w = u @ v" "u \<in> rx_lang a" "v \<in> rx_lang b" by auto
  have "(v @ s, g) \<in> set (rx_run n a (w @ s, g))" using Rx_seq w by simp
  moreover have "(s, g) \<in> set (rx_run n b (v @ s, g))" using Rx_seq w by simp
  ultimately show ?case by auto
next
  case (Rx_rep m M r)
  then obtain ws where ws: "w = concat ws" "set ws \<subseteq> rx_lang r" "m \<le> length ws"
    "case M of None \<Rightarrow> True | Some n \<Rightarrow> length ws \<le> n" by auto
  have "(s, g) \<in> set (rx_iter (m + length (w @ s)) (rx_run n r) m M (concat ws @ s, g))"
    by (rule rx_iter_complete [OF _ ws(2-4)]) (use Rx_rep ws(1) in auto)
  then show ?case using ws(1) by simp
qed auto

lemma rx_group_complete:
  assumes "rx_pure r" and "w \<in> rx_lang r"
  shows "(s, g(i := w)) \<in> set (rx_run n (Rx_group i r) (w @ s, g))"
  using rx_run_complete [OF assms, of s g n] by (auto simp: image_iff intro!: bexI [of _ "(s, g)"])

text \<open>An optional part is skipped or matched once.\<close>

lemma rx_iter_done: "rx_iter k f 0 (Some 0) st = [st]"
  by (cases k) simp_all

lemma rx_run_opt_list: "rx_run n (Rx_opt r) st = filter (\<lambda>st'. fst st' \<noteq> fst st) (rx_run n r st) @ [st]"
proof (cases "fst st")
  case Nil
  have "filter (\<lambda>st'. fst st' \<noteq> fst st) (rx_run n r st) = []"
    using rx_soundD [OF rx_run_sound, of _ n r st] Nil by (auto simp: filter_empty_conv)
  with Nil show ?thesis by simp
next
  case (Cons c s)
  have "concat (map (\<lambda>st'. if fst st' = fst st then [] else [st']) xs) = filter (\<lambda>st'. fst st' \<noteq> fst st) xs" for xs
    by (induction xs) simp_all
  with Cons show ?thesis by (simp add: rx_iter_done cong: if_cong)
qed

lemma rx_run_opt: "set (rx_run n (Rx_opt r) st) = insert st {st' \<in> set (rx_run n r st). fst st' \<noteq> fst st}"
  unfolding rx_run_opt_list by auto

text \<open>Whole words.\<close>

definition rx_accepts :: "rx \<Rightarrow> string \<Rightarrow> bool" where
  "rx_accepts r w \<longleftrightarrow> regex_match r w \<noteq> None"

lemma rx_accepts_iff: "rx_pure r \<Longrightarrow> rx_accepts r w \<longleftrightarrow> w \<in> rx_lang r"
proof
  assume "rx_pure r" "rx_accepts r w"
  then obtain g where "([], g) \<in> set (rx_run (length w) r (w, \<lambda>_. []))"
    using regex_match_Some unfolding rx_accepts_def by blast
  then show "w \<in> rx_lang r" using rx_soundD [OF rx_run_sound] by fastforce
next
  assume "rx_pure r" "w \<in> rx_lang r"
  then show "rx_accepts r w"
    using rx_run_complete [of r w "[]" "\<lambda>_. []" "length w"] regex_match_None unfolding rx_accepts_def by auto
qed

lemma rx_lang_rep_class:
  "rx_lang (Rx_rep m M (Rx_class p)) = {s. list_all p s \<and> m \<le> length s \<and> (case M of None \<Rightarrow> True | Some n \<Rightarrow> length s \<le> n)}"
proof (intro set_eqI iffI)
  fix s assume "s \<in> rx_lang (Rx_rep m M (Rx_class p))"
  then obtain ws where ws: "s = concat ws" "set ws \<subseteq> {[c] | c. p c}" "m \<le> length ws"
    "case M of None \<Rightarrow> True | Some n \<Rightarrow> length ws \<le> n" by auto
  from ws(2) have "list_all p (concat ws) \<and> length (concat ws) = length ws" by (induction ws) auto
  with ws show "s \<in> {s. list_all p s \<and> m \<le> length s \<and> (case M of None \<Rightarrow> True | Some n \<Rightarrow> length s \<le> n)}"
    by (simp split: option.splits)
next
  fix s assume "s \<in> {s. list_all p s \<and> m \<le> length s \<and> (case M of None \<Rightarrow> True | Some n \<Rightarrow> length s \<le> n)}"
  moreover have "concat (map (\<lambda>c. [c]) s) = s" by (induction s) simp_all
  ultimately show "s \<in> rx_lang (Rx_rep m M (Rx_class p))"
    by (auto simp: list_all_iff split: option.splits intro!: exI [of _ "map (\<lambda>c. [c]) s"])
qed

end
