(* ===== verification/Endpoint.thy ===== *)
theory Endpoint
  imports Sockaddr Ecma_Regex
begin

text \<open>
  \<open>infra::tcp_endpoint\<close> (\<open>infra/network.h\<close>, \<open>infra/network.cpp\<close>): how an endpoint given on the
  command line is parsed with a regular expression, printed and resolved. \<open>getaddrinfo\<close> is a
  parameter; the addresses it lists carry the family that \<open>ai_family\<close> tells.
\<close>

section \<open>The expressions for hosts\<close>

definition in_range :: "char \<Rightarrow> char \<Rightarrow> char \<Rightarrow> bool" where
  "in_range a b c \<longleftrightarrow> (of_char a :: nat) \<le> of_char c \<and> of_char c \<le> (of_char b :: nat)"

definition is_digit :: "char \<Rightarrow> bool" where
  "is_digit c \<longleftrightarrow> in_range CHR ''0'' CHR ''9'' c"

definition is_alnum :: "char \<Rightarrow> bool" where
  "is_alnum c \<longleftrightarrow> in_range CHR ''a'' CHR ''z'' c \<or> in_range CHR ''A'' CHR ''Z'' c \<or> is_digit c"

definition is_hex :: "char \<Rightarrow> bool" where
  "is_hex c \<longleftrightarrow> is_digit c \<or> in_range CHR ''a'' CHR ''f'' c \<or> in_range CHR ''A'' CHR ''F'' c"

lemmas class_defs = in_range_def is_digit_def is_alnum_def is_hex_def

text \<open>A label \<open>[a-zA-Z0-9]|[a-zA-Z0-9][a-zA-Z0-9\-]*[a-zA-Z0-9]\<close>, and labels separated by dots.\<close>

definition re_label :: rx where
  "re_label = Rx_alt (Rx_class is_alnum)
     (Rx_seqs [Rx_class is_alnum, Rx_star (Rx_class (\<lambda>c. is_alnum c \<or> c = CHR ''-'')), Rx_class is_alnum])"

definition re_dotted :: rx where
  "re_dotted = Rx_seq (Rx_star (Rx_seq re_label (Rx_char CHR ''.''))) re_label"

text \<open>The parts of an IPv6 address: \<open>[0-9a-fA-F]{1,4}\<close>, and an octet of an embedded IPv4 address.\<close>

definition re_h16 :: rx where
  "re_h16 = Rx_rep 1 (Some 4) (Rx_class is_hex)"

definition re_h16_colon :: rx where
  "re_h16_colon = Rx_seq re_h16 (Rx_char CHR '':'')"

definition re_colon_h16 :: rx where
  "re_colon_h16 = Rx_seq (Rx_char CHR '':'') re_h16"

definition re_octet :: rx where
  "re_octet = Rx_alt (Rx_seqs [Rx_char CHR ''2'', Rx_char CHR ''5'', Rx_class (in_range CHR ''0'' CHR ''5'')])
     (Rx_seq (Rx_opt (Rx_alt (Rx_seq (Rx_char CHR ''2'') (Rx_class (in_range CHR ''0'' CHR ''4'')))
         (Rx_seq (Rx_opt (Rx_char CHR ''1'')) (Rx_class is_digit)))) (Rx_class is_digit))"

definition re_ipv4 :: rx where
  "re_ipv4 = Rx_seq (Rx_rep 3 (Some 3) (Rx_seq re_octet (Rx_char CHR ''.''))) re_octet"

definition re_ipv6_body :: rx where
  "re_ipv6_body = Rx_alts [
     Rx_seq (Rx_rep 7 (Some 7) re_h16_colon) re_h16,
     Rx_seq (Rx_rep 1 (Some 7) re_h16_colon) (Rx_char CHR '':''),
     Rx_seqs [Rx_rep 1 (Some 6) re_h16_colon, Rx_char CHR '':'', re_h16],
     Rx_seq (Rx_rep 1 (Some 5) re_h16_colon) (Rx_rep 1 (Some 2) re_colon_h16),
     Rx_seq (Rx_rep 1 (Some 4) re_h16_colon) (Rx_rep 1 (Some 3) re_colon_h16),
     Rx_seq (Rx_rep 1 (Some 3) re_h16_colon) (Rx_rep 1 (Some 4) re_colon_h16),
     Rx_seq (Rx_rep 1 (Some 2) re_h16_colon) (Rx_rep 1 (Some 5) re_colon_h16),
     Rx_seqs [re_h16, Rx_char CHR '':'', Rx_rep 1 (Some 6) re_colon_h16],
     Rx_seq (Rx_char CHR '':'') (Rx_alt (Rx_rep 1 (Some 7) re_colon_h16) (Rx_char CHR '':'')),
     Rx_seqs [Rx_char CHR '':'', Rx_char CHR '':'',
       Rx_opt (Rx_seqs [Rx_rep 4 (Some 4) (Rx_class (\<lambda>c. c = CHR ''F'' \<or> c = CHR ''f'')),
         Rx_opt (Rx_seq (Rx_char CHR '':'') (Rx_rep 1 (Some 4) (Rx_char CHR ''0''))), Rx_char CHR '':'']),
       re_ipv4],
     Rx_seqs [Rx_rep 1 (Some 4) re_h16_colon, Rx_char CHR '':'', re_ipv4]]"

definition re_valid_ipv6 :: rx where
  "re_valid_ipv6 = Rx_seqs [Rx_char CHR ''['', re_ipv6_body, Rx_char CHR '']'']"

text \<open>The host of an endpoint may also be a star.\<close>

definition re_endpoint_host :: rx where
  "re_endpoint_host = Rx_alt (Rx_alt re_dotted (Rx_char CHR ''*'')) re_valid_ipv6"

definition re_port :: rx where
  "re_port = Rx_alt (Rx_plus (Rx_class is_digit)) (Rx_char CHR ''*'')"

definition re_repeats :: rx where
  "re_repeats = Rx_seq (Rx_class (in_range CHR ''1'' CHR ''9'')) (Rx_star (Rx_class is_digit))"

definition re_valid_endpoint :: rx where
  "re_valid_endpoint = Rx_seqs [Rx_bol, Rx_group 1 re_endpoint_host,
     Rx_opt (Rx_seq (Rx_char CHR '':'') (Rx_group 2 re_port)),
     Rx_opt (Rx_seq (Rx_char CHR ''@'') (Rx_group 3 re_repeats)), Rx_eol]"

section \<open>Parsing\<close>

record tcp_endpoint =
  ep_host :: string
  ep_port :: "u16 option"
  ep_repeats :: "u64 option"
  resolved_sockaddrs :: "tcp_sockaddr list"

definition endpoint_new :: tcp_endpoint where
  "endpoint_new = \<lparr>ep_host = [], ep_port = None, ep_repeats = None, resolved_sockaddrs = []\<rparr>"

text \<open>\<open>std::stoi\<close> on the strings the expressions let through, which are digits.\<close>

fun digits_value :: "string \<Rightarrow> nat \<Rightarrow> nat" where
  "digits_value [] acc = acc"
| "digits_value (c # cs) acc = digits_value cs (10 * acc + (of_char c - 48))"

definition stoi :: "string \<Rightarrow> int outcome" where
  "stoi s = (let ds = takeWhile is_digit s in
     if ds = [] then Throw Invalid_argument
     else if 2 ^ 31 \<le> digits_value ds 0 then Throw Out_of_range
     else Ret (int (digits_value ds 0)))"

text \<open>The blocks of \<open>parse\<close> for the port and the repeats; \<open>None\<close> makes \<open>parse\<close> return false.\<close>

definition parse_port :: "string \<Rightarrow> u16 option option" where
  "parse_port port_str =
     (if port_str = [] then Some None
      else if port_str = ''*'' then Some (Some 0)
      else (case stoi port_str of
          Ret port_int \<Rightarrow> if port_int < 0 \<or> port_int \<ge> 65536 then None else Some (Some (word_of_int port_int))
        | _ \<Rightarrow> None))"

definition parse_repeats :: "string \<Rightarrow> u64 option option" where
  "parse_repeats repeats_str =
     (if repeats_str = [] then Some None
      else (case stoi repeats_str of
          Ret repeats_int \<Rightarrow> if repeats_int \<le> 0 then None else Some (Some (word_of_int repeats_int))
        | _ \<Rightarrow> None))"

text \<open>\<open>parse\<close> returns whether it succeeded and the object, whose members it fills one after the other.\<close>

definition endpoint_parse :: "string \<Rightarrow> tcp_endpoint \<Rightarrow> bool \<times> tcp_endpoint" where
  "endpoint_parse v ep = (case regex_match re_valid_endpoint v of
       None \<Rightarrow> (False, ep)
     | Some g \<Rightarrow> let ep1 = ep\<lparr>ep_host := g 1\<rparr> in
         (case parse_port (g 2) of
            None \<Rightarrow> (False, ep1)
          | Some p \<Rightarrow> let ep2 = ep1\<lparr>ep_port := p\<rparr> in
              (case parse_repeats (g 3) of
                 None \<Rightarrow> (False, ep2)
               | Some r \<Rightarrow> (True, ep2\<lparr>ep_repeats := r\<rparr>))))"

definition endpoint_to_string :: "tcp_endpoint \<Rightarrow> string" where
  "endpoint_to_string ep = ep_host ep
     @ (case ep_port ep of Some p \<Rightarrow> '':'' @ string_of_nat (unat p) | None \<Rightarrow> [])
     @ (case ep_repeats ep of Some r \<Rightarrow> ''@'' @ string_of_nat (unat r) | None \<Rightarrow> [])"

section \<open>Resolving\<close>

fun resolved_entries :: "endian \<Rightarrow> u16 \<Rightarrow> tcp_sockaddr list \<Rightarrow> tcp_sockaddr list" where
  "resolved_entries h p [] = []"
| "resolved_entries h p (Addr_ipv4 a # as) = Addr_ipv4 (a\<lparr>sin_port := htons h p\<rparr>) # resolved_entries h p as"
| "resolved_entries h p (Addr_ipv6 a # as) = Addr_ipv6 (a\<lparr>sin6_port := htons h p\<rparr>) # resolved_entries h p as"
| "resolved_entries h p (Addr_other f # as) = resolved_entries h p as"

definition trimmed_host :: "string \<Rightarrow> string" where
  "trimmed_host s = (if hd s = CHR ''['' \<and> last s = CHR '']'' then take (length s - 2) (drop 1 s) else s)"

definition endpoint_resolve ::
  "(string \<Rightarrow> c_int + tcp_sockaddr list) \<Rightarrow> endian \<Rightarrow> tcp_endpoint \<Rightarrow> bool outcome \<times> tcp_endpoint" where
  "endpoint_resolve getaddrinfo h ep =
     (if ep_host ep = ''*'' then
        (case ep_port ep of
           None \<Rightarrow> (Throw Bad_optional_access, ep)
         | Some p \<Rightarrow> (Ret True, ep\<lparr>resolved_sockaddrs :=
             [Addr_ipv6 \<lparr>sin6_port = htons h p, sin6_flowinfo = 0, sin6_addr = in6addr_any, sin6_scope_id = 0\<rparr>,
              Addr_ipv4 \<lparr>sin_port = htons h p, sin_addr = INADDR_ANY\<rparr>]\<rparr>))
      else if ep_host ep = [] then (Undefined, ep)
      else (case getaddrinfo (trimmed_host (ep_host ep)) of
          Inl ret \<Rightarrow> (Ret False, ep)
        | Inr results \<Rightarrow> (case ep_port ep of
            None \<Rightarrow> (Abort, ep)
          | Some p \<Rightarrow> (Ret True, ep\<lparr>resolved_sockaddrs := resolved_entries h p results\<rparr>))))"

section \<open>The shape of a host\<close>

lemmas host_exprs = re_label_def re_dotted_def re_h16_def re_h16_colon_def re_colon_h16_def re_octet_def re_ipv4_def

lemma re_dotted_chars: "rx_chars re_dotted c \<Longrightarrow> is_alnum c \<or> c = CHR ''-'' \<or> c = CHR ''.''"
  by (auto simp: re_dotted_def re_label_def Rx_char_def)

lemma re_pure [simp]:
  "rx_pure re_dotted" "rx_pure re_ipv6_body" "rx_pure re_valid_ipv6" "rx_pure re_endpoint_host" "rx_pure re_port" "rx_pure re_repeats"
  by (simp_all add: host_exprs Rx_char_def re_ipv6_body_def re_valid_ipv6_def re_endpoint_host_def re_port_def re_repeats_def)

lemma re_dotted_nonempty: "w \<in> rx_lang re_dotted \<Longrightarrow> w \<noteq> []"
  by (auto simp: re_dotted_def re_label_def)

definition ipv6_body_chars :: "char \<Rightarrow> bool" where
  "ipv6_body_chars c \<longleftrightarrow> is_hex c \<or> c = CHR '':'' \<or> c = CHR ''.''"

lemma part_chars:
  "rx_chars re_h16 c = is_hex c" "rx_chars re_h16_colon c = (is_hex c \<or> c = CHR '':'')"
  "rx_chars re_colon_h16 c = (c = CHR '':'' \<or> is_hex c)"
  by (simp_all add: host_exprs Rx_char_def)

lemma re_octet_chars: "rx_chars re_octet c \<Longrightarrow> is_hex c"
  by (auto simp: re_octet_def Rx_char_def class_defs)

lemma re_ipv4_chars: "rx_chars re_ipv4 c \<Longrightarrow> is_hex c \<or> c = CHR ''.''"
  using re_octet_chars by (auto simp: re_ipv4_def Rx_char_def)

lemma hex_letters: "is_hex CHR ''F''" "is_hex CHR ''f''" "is_hex CHR ''0''"
  by (simp_all add: class_defs)

lemma re_ipv6_body_chars: "rx_chars re_ipv6_body c \<Longrightarrow> ipv6_body_chars c"
  using re_ipv4_chars [of c] hex_letters
  by (simp add: re_ipv6_body_def part_chars Rx_char_def ipv6_body_chars_def) blast

lemma re_valid_ipv6_shape:
  assumes "w \<in> rx_lang re_valid_ipv6"
  shows "\<exists>m. w = CHR ''['' # m @ '']'' \<and> list_all ipv6_body_chars m"
proof -
  obtain m where "w = CHR ''['' # m @ '']''" "m \<in> rx_lang re_ipv6_body"
    using assms by (auto simp: re_valid_ipv6_def Rx_char_def)
  moreover from this(2) have "list_all ipv6_body_chars m"
    using rx_lang_chars re_ipv6_body_chars by (auto simp: list_all_iff)
  ultimately show ?thesis by blast
qed

text \<open>Where the host of an endpoint ends, without the expression.\<close>

definition host_cut :: "string \<Rightarrow> string" where
  "host_cut s = (if s \<noteq> [] \<and> hd s = CHR ''['' then takeWhile (\<lambda>c. c \<noteq> CHR '']'') s @ take 1 (dropWhile (\<lambda>c. c \<noteq> CHR '']'') s)
     else takeWhile (\<lambda>c. c \<noteq> CHR '':'' \<and> c \<noteq> CHR ''@'') s)"

definition host_ends :: "string \<Rightarrow> bool" where
  "host_ends s \<longleftrightarrow> s = [] \<or> hd s = CHR '':'' \<or> hd s = CHR ''@''"

lemma takeWhile_stop: "list_all P w \<Longrightarrow> s = [] \<or> \<not> P (hd s) \<Longrightarrow> takeWhile P (w @ s) = w"
  by (cases s) (auto simp: list_all_iff takeWhile_append)

lemma dotted_char: "is_alnum c \<or> c = CHR ''-'' \<or> c = CHR ''.'' \<Longrightarrow> c \<noteq> CHR '':'' \<and> c \<noteq> CHR ''@'' \<and> c \<noteq> CHR ''[''"
  by (auto simp: class_defs)

lemma dotted_host_cut:
  assumes "w \<in> rx_lang re_dotted" and "host_ends s"
  shows "host_cut (w @ s) = w"
proof -
  have ne: "w \<noteq> []" and cs: "\<And>c. c \<in> set w \<Longrightarrow> c \<noteq> CHR '':'' \<and> c \<noteq> CHR ''@'' \<and> c \<noteq> CHR ''[''"
    using re_dotted_nonempty [OF assms(1)] rx_lang_chars [OF assms(1)] re_dotted_chars dotted_char by blast+
  have all: "list_all (\<lambda>c. c \<noteq> CHR '':'' \<and> c \<noteq> CHR ''@'') w" using cs by (simp add: list_all_iff)
  have h: "hd (w @ s) \<noteq> CHR ''[''" using cs [of "hd w"] ne by simp
  have e: "s = [] \<or> \<not> (hd s \<noteq> CHR '':'' \<and> hd s \<noteq> CHR ''@'')" using assms(2) by (auto simp: host_ends_def)
  show ?thesis using takeWhile_stop [OF all e] h by (simp add: host_cut_def)
qed

lemma star_host_cut: "host_ends s \<Longrightarrow> host_cut (CHR ''*'' # s) = ''*''"
  by (cases s) (auto simp: host_cut_def host_ends_def)

lemma ipv6_host_cut:
  assumes "w \<in> rx_lang re_valid_ipv6"
  shows "host_cut (w @ s) = w"
proof -
  obtain m where m: "w = CHR ''['' # m @ '']''" "list_all ipv6_body_chars m" using re_valid_ipv6_shape [OF assms] by blast
  have "list_all (\<lambda>c. c \<noteq> CHR '']'') m" using m(2) by (auto simp: list_all_iff ipv6_body_chars_def class_defs)
  then have "takeWhile (\<lambda>c. c \<noteq> CHR '']'') (m @ CHR '']'' # s) = m" "dropWhile (\<lambda>c. c \<noteq> CHR '']'') (m @ CHR '']'' # s) = CHR '']'' # s"
    by (simp_all add: list_all_iff takeWhile_append2 dropWhile_append2)
  with m(1) show ?thesis by (simp add: host_cut_def)
qed

lemma host_cut_prefix: "take (length (host_cut s)) s = host_cut s"
proof -
  have t: "take (length (takeWhile P s)) s = takeWhile P s" for P by (simp add: takeWhile_eq_take [symmetric])
  let ?a = "takeWhile (\<lambda>c. c \<noteq> CHR '']'') s" and ?b = "dropWhile (\<lambda>c. c \<noteq> CHR '']'') s"
  have "(?a @ take 1 ?b) @ drop 1 ?b = s" by (simp only: append_assoc append_take_drop_id takeWhile_dropWhile_id)
  then have "?a @ take 1 ?b = take (length (?a @ take 1 ?b)) s" unfolding append_eq_conv_conj by (rule conjunct1)
  with t show ?thesis unfolding host_cut_def by presburger
qed

lemma endpoint_host_cut: "w \<in> rx_lang re_endpoint_host \<Longrightarrow> host_ends s \<Longrightarrow> host_cut (w @ s) = w"
  by (auto simp: re_endpoint_host_def Rx_char_def dotted_host_cut star_host_cut ipv6_host_cut)

section \<open>The expression and a splitting parser\<close>

definition port_ok :: "string \<Rightarrow> bool" where
  "port_ok s \<longleftrightarrow> s = ''*'' \<or> s \<noteq> [] \<and> list_all is_digit s"

definition repeats_ok :: "string \<Rightarrow> bool" where
  "repeats_ok s \<longleftrightarrow> s \<noteq> [] \<and> list_all is_digit s \<and> hd s \<noteq> CHR ''0''"

lemma re_port_lang: "s \<in> rx_lang re_port \<longleftrightarrow> port_ok s"
  by (auto simp: re_port_def Rx_char_def port_ok_def rx_lang_rep_class simp del: rx_lang.simps(5)) (cases s; simp)+

lemma nonzero_digit: "in_range CHR ''1'' CHR ''9'' c \<longleftrightarrow> is_digit c \<and> c \<noteq> CHR ''0''"
proof -
  have "(of_char c :: nat) = 48 \<longleftrightarrow> c = CHR ''0''" using of_char_eq_iff [of c "CHR ''0''", where 'a = nat] by simp
  then show ?thesis by (auto simp: class_defs)
qed

lemma re_repeats_lang: "s \<in> rx_lang re_repeats \<longleftrightarrow> repeats_ok s"
proof -
  have "s \<in> rx_lang re_repeats \<longleftrightarrow> (\<exists>c v. s = c # v \<and> is_digit c \<and> c \<noteq> CHR ''0'' \<and> list_all is_digit v)"
    by (simp add: re_repeats_def rx_lang_rep_class nonzero_digit del: rx_lang.simps(5)) (metis append_Cons append_Nil)
  then show ?thesis by (cases s) (auto simp: repeats_ok_def)
qed

lemma digit_not_mark: "is_digit c \<Longrightarrow> c \<noteq> CHR ''@''"
  by (auto simp: class_defs)

lemma port_ok_no_mark: "port_ok w \<Longrightarrow> CHR ''@'' \<notin> set w"
  using digit_not_mark by (auto simp: port_ok_def list_all_iff)

text \<open>The parts of an endpoint, found without the expression: by the host's end and the first \<open>@\<close> after it.\<close>

definition endpoint_split :: "string \<Rightarrow> (string \<times> string \<times> string) option" where
  "endpoint_split v =
     (let h = host_cut v; t = drop (length h) v; p = takeWhile (\<lambda>c. c \<noteq> CHR ''@'') t; r = drop (length p) t
      in if rx_accepts re_endpoint_host h \<and> (p = [] \<or> hd p = CHR '':'' \<and> port_ok (tl p))
           \<and> (r = [] \<or> repeats_ok (tl r))
         then Some (h, tl p, tl r) else None)"

text \<open>An optional part: a mark and a word, in a group.\<close>

definition opt_part :: "char \<Rightarrow> (string \<Rightarrow> bool) \<Rightarrow> string \<Rightarrow> bool" where
  "opt_part c ok p \<longleftrightarrow> p = [] \<or> (\<exists>w. p = c # w \<and> ok w)"

lemma rx_opt_part:
  assumes "rx_pure r" and "\<And>w. w \<in> rx_lang r \<longleftrightarrow> ok w" and "g i = []"
  shows "(s', g') \<in> set (rx_run n (Rx_opt (Rx_seq (Rx_char c) (Rx_group i r))) (s, g))
    \<longleftrightarrow> (\<exists>p. opt_part c ok p \<and> s = p @ s' \<and> g' = g(i := tl p))"
proof
  assume "(s', g') \<in> set (rx_run n (Rx_opt (Rx_seq (Rx_char c) (Rx_group i r))) (s, g))"
  then consider "s' = s" "g' = g"
    | t where "s = c # t" "(s', g') \<in> set (rx_run n (Rx_group i r) (t, g))"
    unfolding rx_run_opt by (auto simp del: rx_run.simps(5,6) simp: Rx_char_def split: list.splits if_splits)
  then show "\<exists>p. opt_part c ok p \<and> s = p @ s' \<and> g' = g(i := tl p)"
  proof cases
    case 1
    then show ?thesis using assms(3) by (intro exI [of _ "[]"]) (auto simp: opt_part_def)
  next
    case 2
    from rx_group_sound [OF assms(1) 2(2)] assms(2) 2(1) obtain w where "ok w" "s = c # w @ s'" "g' = g(i := w)" by auto
    then show ?thesis by (intro exI [of _ "c # w"]) (simp add: opt_part_def)
  qed
next
  assume "\<exists>p. opt_part c ok p \<and> s = p @ s' \<and> g' = g(i := tl p)"
  then consider "s' = s" "g' = g" | w where "ok w" "s = c # w @ s'" "g' = g(i := w)"
    using assms(3) by (auto simp: opt_part_def fun_upd_idem)
  then show "(s', g') \<in> set (rx_run n (Rx_opt (Rx_seq (Rx_char c) (Rx_group i r))) (s, g))"
  proof cases
    case 1
    then show ?thesis unfolding rx_run_opt by simp
  next
    case 2
    then have "(s', g') \<in> set (rx_run n (Rx_group i r) (w @ s', g))" using rx_group_complete [OF assms(1)] assms(2) by simp
    with 2 show ?thesis unfolding rx_run_opt by (simp del: rx_run.simps(5,6) add: Rx_char_def)
  qed
qed

lemma endpoint_full_match:
  "([], g) \<in> set (rx_run (length v) re_valid_endpoint (v, \<lambda>_. [])) \<longleftrightarrow>
    (\<exists>h p r. v = h @ p @ r \<and> h \<in> rx_lang re_endpoint_host \<and> opt_part CHR '':'' port_ok p
       \<and> opt_part CHR ''@'' repeats_ok r \<and> g = (\<lambda>_. [])(1 := h, 2 := tl p, 3 := tl r))"
    (is "?match \<longleftrightarrow> ?split")
proof
  assume ?match
  then obtain s1 g1 s2 g2 where
      1: "(s1, g1) \<in> set (rx_run (length v) (Rx_group 1 re_endpoint_host) (v, \<lambda>_. []))"
    and 2: "(s2, g2) \<in> set (rx_run (length v) (Rx_opt (Rx_seq (Rx_char CHR '':'') (Rx_group 2 re_port))) (s1, g1))"
    and 3: "([], g) \<in> set (rx_run (length v) (Rx_opt (Rx_seq (Rx_char CHR ''@'') (Rx_group 3 re_repeats))) (s2, g2))"
    unfolding re_valid_endpoint_def by (auto simp del: rx_run.simps(5,6) split: if_splits)
  from rx_group_sound [OF _ 1] obtain h where h: "h \<in> rx_lang re_endpoint_host" "v = h @ s1" "g1 = (\<lambda>_. [])(1 := h)" by auto
  from 2 h(3) obtain p where p: "opt_part CHR '':'' port_ok p" "s1 = p @ s2" "g2 = g1(2 := tl p)"
    using rx_opt_part [OF re_pure(5) re_port_lang, of g1] by auto
  from 3 p(3) h(3) obtain r where "opt_part CHR ''@'' repeats_ok r" "s2 = r" "g = g2(3 := tl r)"
    using rx_opt_part [OF re_pure(6) re_repeats_lang, of g2] by auto
  with h p show ?split by blast
next
  assume ?split
  then obtain h p r where v: "v = h @ p @ r" and h: "h \<in> rx_lang re_endpoint_host"
    and p: "opt_part CHR '':'' port_ok p" and r: "opt_part CHR ''@'' repeats_ok r"
    and g: "g = (\<lambda>_. [])(1 := h, 2 := tl p, 3 := tl r)" by blast
  let ?g1 = "(\<lambda>_. [])(1 := h)" and ?g2 = "(\<lambda>_. [])(1 := h, 2 := tl p)"
  have "(p @ r, ?g1) \<in> set (rx_run (length v) (Rx_group 1 re_endpoint_host) (v, \<lambda>_. []))"
    using rx_group_complete [OF re_pure(4) h, of "p @ r" "\<lambda>_. []" 1 "length v"] v by (simp only: append_assoc)
  moreover have "(r, ?g2) \<in> set (rx_run (length v) (Rx_opt (Rx_seq (Rx_char CHR '':'') (Rx_group 2 re_port))) (p @ r, ?g1))"
    by (rule iffD2 [OF rx_opt_part [OF re_pure(5) re_port_lang]]) (use p in auto)
  moreover have "([], g) \<in> set (rx_run (length v) (Rx_opt (Rx_seq (Rx_char CHR ''@'') (Rx_group 3 re_repeats))) (r, ?g2))"
    by (rule iffD2 [OF rx_opt_part [OF re_pure(6) re_repeats_lang]]) (use r g in auto)
  ultimately show ?match unfolding re_valid_endpoint_def by (force simp del: rx_run.simps(5,6))
qed

lemma endpoint_split_parts:
  assumes "h \<in> rx_lang re_endpoint_host" and "opt_part CHR '':'' port_ok p" and "opt_part CHR ''@'' repeats_ok r"
  shows "endpoint_split (h @ p @ r) = Some (h, tl p, tl r)"
proof -
  have "host_ends (p @ r)" using assms(2,3) by (auto simp: opt_part_def host_ends_def)
  then have cut: "host_cut (h @ p @ r) = h" by (rule endpoint_host_cut [OF assms(1)])
  have "list_all (\<lambda>c. c \<noteq> CHR ''@'') p"
    using assms(2) port_ok_no_mark by (auto simp: opt_part_def list_all_iff)
  moreover have "r = [] \<or> \<not> hd r \<noteq> CHR ''@''" using assms(3) by (auto simp: opt_part_def)
  ultimately have "takeWhile (\<lambda>c. c \<noteq> CHR ''@'') (p @ r) = p" by (rule takeWhile_stop)
  with cut assms show ?thesis
    by (auto simp: endpoint_split_def rx_accepts_iff opt_part_def Let_def)
qed

lemma endpoint_match_split:
  "map_option (\<lambda>g. (g 1, g 2, g 3)) (regex_match re_valid_endpoint v) = endpoint_split v"
proof (cases "regex_match re_valid_endpoint v")
  case (Some g)
  from regex_match_Some [OF Some] show ?thesis
    unfolding endpoint_full_match using Some endpoint_split_parts by auto
next
  case None
  have "endpoint_split v = None"
  proof (rule ccontr)
    assume "endpoint_split v \<noteq> None"
    moreover define h p r where "h = host_cut v" and "p = takeWhile (\<lambda>c. c \<noteq> CHR ''@'') (drop (length h) v)"
      and "r = drop (length p) (drop (length h) v)"
    ultimately have "rx_accepts re_endpoint_host h" "p = [] \<or> hd p = CHR '':'' \<and> port_ok (tl p)" "r = [] \<or> repeats_ok (tl r)"
      by (auto simp: endpoint_split_def Let_def split: if_splits)
    moreover have "r = [] \<or> hd r = CHR ''@''"
    proof -
      have "r = dropWhile (\<lambda>c. c \<noteq> CHR ''@'') (drop (length h) v)" unfolding r_def p_def by (rule dropWhile_eq_drop [symmetric])
      then show ?thesis using hd_dropWhile [of "\<lambda>c. c \<noteq> CHR ''@''" "drop (length h) v"] by blast
    qed
    moreover have "v = h @ p @ r"
    proof -
      have "take (length h) v = h" unfolding h_def by (rule host_cut_prefix)
      moreover have "p @ r = drop (length h) v" unfolding r_def p_def by (simp only: dropWhile_eq_drop [symmetric] takeWhile_dropWhile_id)
      ultimately show ?thesis by (metis append_take_drop_id)
    qed
    ultimately have parts: "v = h @ p @ r \<and> h \<in> rx_lang re_endpoint_host \<and> opt_part CHR '':'' port_ok p \<and> opt_part CHR ''@'' repeats_ok r"
      by (cases p; cases r) (simp_all add: rx_accepts_iff opt_part_def)
    have "\<exists>g. ([], g) \<in> set (rx_run (length v) re_valid_endpoint (v, \<lambda>_. []))"
      unfolding endpoint_full_match using parts by blast
    with regex_match_None [OF None] show False by blast
  qed
  with None show ?thesis by simp
qed

text \<open>C20: the expression accepts an endpoint exactly when a parser without backtracking splits it, and captures the
  host, the port and the repeats that parser finds: where the host ends, and the first \<open>@\<close> after it,
  leave the expression no choice.\<close>

theorem endpoint_regex_splits:
  "map_option (\<lambda>g. (g 1, g 2, g 3)) (regex_match re_valid_endpoint v) = endpoint_split v"
  by (rule endpoint_match_split)

section \<open>Printing and parsing\<close>

lemma digits_value_snoc: "digits_value (xs @ [c]) acc = 10 * digits_value xs acc + (of_char c - 48)"
  by (induction xs arbitrary: acc) simp_all

lemma digit_char: "n < 10 \<Longrightarrow> is_digit (char_of (48 + n)) \<and> (of_char (char_of (48 + n) :: char) :: nat) = 48 + n"
  by (simp add: class_defs of_char_of)

lemma string_of_nat_digits:
  "string_of_nat n \<noteq> [] \<and> list_all is_digit (string_of_nat n) \<and> digits_value (string_of_nat n) 0 = n
    \<and> (0 < n \<longrightarrow> hd (string_of_nat n) \<noteq> CHR ''0'')"
proof (induction n rule: less_induct)
  case (less n)
  show ?case
  proof (cases "n < 10")
    case True
    have "char_of (48 + n) \<noteq> CHR ''0''" if "0 < n"
    proof
      assume e: "char_of (48 + n) = CHR ''0''"
      have "(of_char (char_of (48 + n) :: char) :: nat) = 48 + n" using digit_char [OF True] by simp
      with that show False unfolding e by simp
    qed
    with True digit_char [OF True] show ?thesis by (subst (1 2 3 4) string_of_nat.simps) simp
  next
    case False
    then have d: "n div 10 < n" "n mod 10 < 10" "0 < n div 10" by auto
    from False have e: "string_of_nat n = string_of_nat (n div 10) @ [char_of (48 + n mod 10)]"
      by (subst string_of_nat.simps) simp
    from less.IH [OF d(1)] digit_char [OF d(2)] d(3) show ?thesis
      by (simp add: e digits_value_snoc)
  qed
qed

lemma stoi_string_of_nat: "n < 2 ^ 31 \<Longrightarrow> stoi (string_of_nat n) = Ret (int n)"
proof -
  assume n: "n < 2 ^ 31"
  have "takeWhile is_digit (string_of_nat n) = string_of_nat n"
    using string_of_nat_digits [of n] unfolding takeWhile_eq_all_conv list_all_iff by blast
  with n string_of_nat_digits [of n] show ?thesis by (simp only: stoi_def Let_def) simp
qed

lemma parse_port_print: "parse_port (string_of_nat (unat p)) = Some (Some p)" for p :: u16
proof -
  have b: "unat p < 65536" "uint p < 65536" using unat_lt_width [of p] uint_lt2p [of p] by simp_all
  have "string_of_nat (unat p) \<noteq> [] \<and> string_of_nat (unat p) \<noteq> ''*''"
    using string_of_nat_digits [of "unat p"] by (auto simp: class_defs)
  with stoi_string_of_nat [of "unat p"] b show ?thesis by (simp add: parse_port_def)
qed

lemma parse_repeats_print:
  "0 < r \<Longrightarrow> unat r < 2 ^ 31 \<Longrightarrow> parse_repeats (string_of_nat (unat r)) = Some (Some r)" for r :: u64
  using string_of_nat_digits [of "unat r"] stoi_string_of_nat [of "unat r"]
  by (auto simp: parse_repeats_def uint_0_iff)

text \<open>C21: an endpoint that is printed and parsed again is the same endpoint: any host the expression accepts, any port
  or none, and any number of repeats between 1 and the largest \<open>int\<close> or none.\<close>

theorem endpoint_print_parse:
  assumes "rx_accepts re_endpoint_host (ep_host ep)" and "\<forall>r. ep_repeats ep = Some r \<longrightarrow> 0 < r \<and> unat r < 2 ^ 31"
  shows "endpoint_parse (endpoint_to_string ep) ep0 = (True, ep\<lparr>resolved_sockaddrs := resolved_sockaddrs ep0\<rparr>)"
proof -
  define p where "p = (case ep_port ep of Some p \<Rightarrow> '':'' @ string_of_nat (unat p) | None \<Rightarrow> [])"
  define r where "r = (case ep_repeats ep of Some r \<Rightarrow> ''@'' @ string_of_nat (unat r) | None \<Rightarrow> [])"
  have p: "opt_part CHR '':'' port_ok p \<and> parse_port (tl p) = Some (ep_port ep)"
    using string_of_nat_digits parse_port_print
    by (cases "ep_port ep") (auto simp: p_def opt_part_def port_ok_def parse_port_def [of "[]"])
  have r: "opt_part CHR ''@'' repeats_ok r \<and> parse_repeats (tl r) = Some (ep_repeats ep)"
    using string_of_nat_digits parse_repeats_print assms(2)
    by (cases "ep_repeats ep") (auto simp: r_def opt_part_def repeats_ok_def parse_repeats_def [of "[]"] word_less_nat_alt)
  have v: "endpoint_to_string ep = ep_host ep @ p @ r" by (simp add: endpoint_to_string_def p_def r_def)
  have "ep_host ep \<in> rx_lang re_endpoint_host" using assms(1) by (simp add: rx_accepts_iff)
  with p r have "endpoint_split (endpoint_to_string ep) = Some (ep_host ep, tl p, tl r)"
    unfolding v using endpoint_split_parts by blast
  then obtain g where "regex_match re_valid_endpoint (endpoint_to_string ep) = Some g" "g 1 = ep_host ep" "g 2 = tl p" "g 3 = tl r"
    using endpoint_match_split [of "endpoint_to_string ep"] by auto
  with p r show ?thesis by (simp add: endpoint_parse_def)
qed

theorem endpoint_print_parse_witness:
  "endpoint_parse (endpoint_to_string \<lparr>ep_host = ''*'', ep_port = Some 62581, ep_repeats = Some 12, resolved_sockaddrs = []\<rparr>) endpoint_new
    = (True, \<lparr>ep_host = ''*'', ep_port = Some 62581, ep_repeats = Some 12, resolved_sockaddrs = []\<rparr>)"
proof -
  have "''*'' \<in> rx_lang re_endpoint_host" by (simp add: re_endpoint_host_def Rx_char_def)
  then have "rx_accepts re_endpoint_host ''*''" by (simp add: rx_accepts_iff)
  then show ?thesis
    using endpoint_print_parse [of "\<lparr>ep_host = ''*'', ep_port = Some 62581, ep_repeats = Some 12, resolved_sockaddrs = []\<rparr>" endpoint_new]
    by (simp add: endpoint_new_def)
qed

section \<open>What resolving gives\<close>

lemma resolved_entries_port:
  "list_all (\<lambda>a. sockaddr_port h a = Ret p \<and> (family a = AF_INET \<or> family a = AF_INET6)) (resolved_entries h p as)"
  by (induction h p as rule: resolved_entries.induct) simp_all

lemma resolve_ports_lemma:
  "endpoint_resolve getaddrinfo h ep = (Ret True, ep') \<Longrightarrow> \<exists>p as. ep_port ep = Some p \<and> ep' = ep\<lparr>resolved_sockaddrs := as\<rparr>
    \<and> list_all (\<lambda>a. sockaddr_port h a = Ret p \<and> (family a = AF_INET \<or> family a = AF_INET6)) as"
  using resolved_entries_port by (auto simp: endpoint_resolve_def split: if_splits option.splits sum.splits)

text \<open>A resolved endpoint lists addresses a socket can be made for: each is IPv4 or IPv6 and carries the port of
  the endpoint, in whatever order the resolver gave them; a star is any IPv6 address, then any IPv4
  address. Nothing but the list changes.\<close>

theorem endpoint_resolve_ports:
  assumes "endpoint_resolve getaddrinfo h ep = (Ret True, ep')"
  shows "\<exists>p as. ep_port ep = Some p \<and> ep' = ep\<lparr>resolved_sockaddrs := as\<rparr>
    \<and> list_all (\<lambda>a. sockaddr_port h a = Ret p \<and> (family a = AF_INET \<or> family a = AF_INET6)) as
    \<and> (ep_host ep = ''*'' \<longrightarrow> map family as = [AF_INET6, AF_INET] \<and> list_all (\<lambda>a. is_addr_any a = Ret True) as)"
  using assms resolved_entries_port
  by (auto simp: endpoint_resolve_def split: if_splits option.splits sum.splits)

theorem endpoint_resolve_ports_witness:
  "\<exists>as. endpoint_resolve (\<lambda>_. Inl 2) LittleEndian (endpoint_new\<lparr>ep_host := ''*'', ep_port := Some 62581\<rparr>)
      = (Ret True, endpoint_new\<lparr>ep_host := ''*'', ep_port := Some 62581, resolved_sockaddrs := as\<rparr>)
    \<and> list_all (\<lambda>a. sockaddr_port LittleEndian a = Ret 62581 \<and> is_addr_any a = Ret True) as \<and> map family as = [AF_INET6, AF_INET]"
proof -
  obtain ep' where r: "endpoint_resolve (\<lambda>_. Inl 2) LittleEndian (endpoint_new\<lparr>ep_host := ''*'', ep_port := Some 62581\<rparr>) = (Ret True, ep')"
    by (simp add: endpoint_resolve_def endpoint_new_def)
  from endpoint_resolve_ports [OF r] r show ?thesis by (auto simp: endpoint_new_def list_all_iff)
qed

end
