(* ===== verification/Host_Path.thy ===== *)
theory Host_Path
  imports Endpoint
begin

text \<open>
  \<open>xcp::host_path\<close> (\<open>program_options.h\<close>, \<open>program_options.cpp\<close>, on Linux): an argument
  \<open>[[user@]host:]path\<close>, parsed with a regular expression.
\<close>

record host_path =
  hp_user :: "string option"
  hp_host :: "string option"
  hp_path :: string

definition host_path_new :: host_path where
  "host_path_new = \<lparr>hp_user = None, hp_host = None, hp_path = []\<rparr>"

definition is_remote :: "host_path \<Rightarrow> bool" where
  "is_remote hp \<longleftrightarrow> hp_host hp \<noteq> None"

definition re_valid_host :: rx where
  "re_valid_host = Rx_alt re_dotted re_valid_ipv6"

text \<open>\<open>.\<close> matches any character but a line terminator.\<close>

definition re_dot :: rx where
  "re_dot = Rx_class (\<lambda>c. c \<noteq> CHR 0x0A \<and> c \<noteq> CHR 0x0D)"

definition re_user :: rx where
  "re_user = Rx_plus (Rx_class (\<lambda>c. c \<noteq> CHR ''@'' \<and> c \<noteq> CHR '':''))"

definition re_remote :: rx where
  "re_remote = Rx_seqs [Rx_opt (Rx_seq (Rx_group 1 re_user) (Rx_char CHR ''@'')), Rx_group 2 re_valid_host, Rx_char CHR '':'']"

definition re_path :: rx where
  "re_path = Rx_group 3 (Rx_alt (Rx_seq Rx_bol (Rx_plus re_dot)) (Rx_star re_dot))"

definition re_valid_host_path :: rx where
  "re_valid_host_path = Rx_seqs [Rx_bol, Rx_opt re_remote, re_path, Rx_eol]"

definition nonempty :: "string \<Rightarrow> string option" where
  "nonempty tmp = (if tmp = [] then None else Some tmp)"

definition host_path_parse :: "string \<Rightarrow> host_path \<Rightarrow> bool \<times> host_path" where
  "host_path_parse v hp =
     (if v = [] then (False, hp)
      else (case regex_match re_valid_host_path v of
          None \<Rightarrow> (False, hp)
        | Some g \<Rightarrow> let hp1 = \<lparr>hp_user = nonempty (g 1), hp_host = nonempty (g 2), hp_path = g 3\<rparr> in
            if g 3 = [] then
              (if hp_host hp1 = None then (False, hp1) else (True, hp1\<lparr>hp_path := ''~''\<rparr>))
            else (True, hp1)))"

section \<open>What the expression captures\<close>

lemma re_host_pure [simp]: "rx_pure re_valid_host" "rx_pure re_user" "rx_pure re_dot"
  by (simp_all add: re_valid_host_def re_user_def re_dot_def)

definition path_chars :: "string \<Rightarrow> bool" where
  "path_chars s \<longleftrightarrow> list_all (\<lambda>c. c \<noteq> CHR 0x0A \<and> c \<noteq> CHR 0x0D) s"

definition user_chars :: "string \<Rightarrow> bool" where
  "user_chars s \<longleftrightarrow> s \<noteq> [] \<and> list_all (\<lambda>c. c \<noteq> CHR ''@'' \<and> c \<noteq> CHR '':'') s"

lemma re_user_lang: "s \<in> rx_lang re_user \<longleftrightarrow> user_chars s"
  unfolding re_user_def rx_lang_rep_class by (cases s) (auto simp: user_chars_def)

lemma re_dots_lang: "rx_lang (Rx_star re_dot) = {s. path_chars s}" "rx_lang (Rx_plus re_dot) = {s. s \<noteq> [] \<and> path_chars s}"
  unfolding re_dot_def rx_lang_rep_class by (auto simp: path_chars_def Suc_le_eq)

text \<open>The path group takes all that is left, with either alternative.\<close>

lemma re_path_run:
  "([], g') \<in> set (rx_run n re_path (s, g)) \<longleftrightarrow> path_chars s \<and> g' = g(3 := s)"
proof
  assume "([], g') \<in> set (rx_run n re_path (s, g))"
  then obtain g1 where g1: "g' = g1(3 := s)"
    and "([], g1) \<in> set (rx_run n (Rx_plus re_dot) (s, g)) \<or> ([], g1) \<in> set (rx_run n (Rx_star re_dot) (s, g))"
    unfolding re_path_def by (auto simp del: rx_run.simps(5) split: if_splits)
  then have "path_chars s \<and> g1 = g"
    using rx_pure_sound [of "Rx_plus re_dot"] rx_pure_sound [of "Rx_star re_dot"] re_dots_lang by fastforce
  with g1 show "path_chars s \<and> g' = g(3 := s)" by simp
next
  assume a: "path_chars s \<and> g' = g(3 := s)"
  then have "([], g) \<in> set (rx_run n (Rx_star re_dot) (s, g))"
    using rx_run_complete [of "Rx_star re_dot" s "[]" g n] unfolding re_dots_lang by (simp del: rx_run.simps(5))
  with a show "([], g') \<in> set (rx_run n re_path (s, g))"
    unfolding re_path_def by (auto simp del: rx_run.simps(5) simp: image_iff intro!: bexI [of _ "([], g)"])
qed

text \<open>A remote prefix: user, if any, host and colon.\<close>

definition remote_prefix :: "string \<Rightarrow> string \<Rightarrow> string" where
  "remote_prefix u h = (if u = [] then [] else u @ ''@'') @ h @ '':''"

lemma re_remote_run:
  assumes "g 1 = []"
  shows "(s', g') \<in> set (rx_run n re_remote (s, g)) \<longleftrightarrow>
    (\<exists>u h. s = remote_prefix u h @ s' \<and> (u = [] \<or> user_chars u) \<and> h \<in> rx_lang re_valid_host \<and> g' = g(1 := u, 2 := h))"
    (is "?run \<longleftrightarrow> ?parts")
proof
  assume ?run
  then obtain s1 g1 s2 where 1: "(s1, g1) \<in> set (rx_run n (Rx_opt (Rx_seq (Rx_group 1 re_user) (Rx_char CHR ''@''))) (s, g))"
    and 2: "(s2, g') \<in> set (rx_run n (Rx_group 2 re_valid_host) (s1, g1))" and s2: "s2 = CHR '':'' # s'"
    unfolding re_remote_def by (auto simp del: rx_run.simps(5,6) simp: Rx_char_def split: list.splits if_splits)
  from rx_group_sound [OF _ 2] obtain h where h: "h \<in> rx_lang re_valid_host" "s1 = h @ s2" "g' = g1(2 := h)" by auto
  from 1 consider "s1 = s" "g1 = g"
    | "(CHR ''@'' # s1, g1) \<in> set (rx_run n (Rx_group 1 re_user) (s, g))"
    unfolding rx_run_opt by (auto simp del: rx_run.simps(5,6) simp: Rx_char_def split: list.splits if_splits)
  then show ?parts
  proof cases
    case 1
    with h s2 assms show ?thesis by (intro exI [of _ "[]"] exI [of _ h]) (auto simp: remote_prefix_def fun_upd_idem)
  next
    case 2
    from rx_group_sound [OF _ 2] obtain u where "u \<in> rx_lang re_user" "s = u @ CHR ''@'' # s1" "g1 = g(1 := u)" by auto
    with h s2 show ?thesis
      by (intro exI [of _ u] exI [of _ h]) (auto simp: remote_prefix_def re_user_lang user_chars_def)
  qed
next
  assume ?parts
  then obtain u h where p: "s = remote_prefix u h @ s'" "u = [] \<or> user_chars u" "h \<in> rx_lang re_valid_host" "g' = g(1 := u, 2 := h)"
    by blast
  let ?t = "h @ CHR '':'' # s'"
  have "(?t, g(1 := u)) \<in> set (rx_run n (Rx_opt (Rx_seq (Rx_group 1 re_user) (Rx_char CHR ''@''))) (s, g))"
  proof (cases "u = []")
    case True
    with p(1) assms show ?thesis unfolding rx_run_opt by (simp add: remote_prefix_def fun_upd_idem)
  next
    case False
    then have u: "u \<in> rx_lang re_user" "s = u @ CHR ''@'' # ?t" using p by (auto simp: re_user_lang remote_prefix_def)
    have "(CHR ''@'' # ?t, g(1 := u)) \<in> set (rx_run n (Rx_group 1 re_user) (s, g))"
      unfolding u(2) by (rule rx_group_complete [OF re_host_pure(2) u(1)])
    then have "(?t, g(1 := u)) \<in> set (rx_run n (Rx_seq (Rx_group 1 re_user) (Rx_char CHR ''@'')) (s, g))"
      by (force simp del: rx_run.simps(5,6) simp: Rx_char_def)
    then show ?thesis unfolding rx_run_opt u(2) by simp
  qed
  moreover have "(CHR '':'' # s', g') \<in> set (rx_run n (Rx_group 2 re_valid_host) (?t, g(1 := u)))"
    unfolding p(4) by (rule rx_group_complete [OF re_host_pure(1) p(3)])
  ultimately show ?run unfolding re_remote_def by (force simp del: rx_run.simps(5,6) simp: Rx_char_def)
qed

section \<open>A splitting parser\<close>

text \<open>The host and the path of what follows a user, if a host and a colon come first.\<close>

definition remote_split :: "string \<Rightarrow> string \<Rightarrow> (string \<times> string \<times> string) option" where
  "remote_split u s = (let h = host_cut s; r = drop (length h) s in
     if rx_accepts re_valid_host h \<and> r \<noteq> [] \<and> hd r = CHR '':'' then Some (u, h, tl r) else None)"

definition host_path_split :: "string \<Rightarrow> (string \<times> string \<times> string) option" where
  "host_path_split v =
     (let u = takeWhile (\<lambda>c. c \<noteq> CHR ''@'' \<and> c \<noteq> CHR '':'') v;
          t = dropWhile (\<lambda>c. c \<noteq> CHR ''@'' \<and> c \<noteq> CHR '':'') v;
          remote = (if u \<noteq> [] \<and> t \<noteq> [] \<and> hd t = CHR ''@'' then remote_split u (tl t) else None);
          parts = (case remote of Some x \<Rightarrow> x | None \<Rightarrow>
            (case remote_split [] v of Some x \<Rightarrow> x | None \<Rightarrow> ([], [], v)))
      in if path_chars (snd (snd parts)) then Some parts else None)"

lemma valid_host_cut: "h \<in> rx_lang re_valid_host \<Longrightarrow> host_cut (h @ CHR '':'' # s) = h"
  by (rule endpoint_host_cut) (auto simp: re_valid_host_def re_endpoint_host_def host_ends_def)

lemma remote_split_Some_iff:
  "remote_split u s = Some x \<longleftrightarrow> (\<exists>h p. s = h @ CHR '':'' # p \<and> h \<in> rx_lang re_valid_host \<and> x = (u, h, p))"
proof
  assume a: "remote_split u s = Some x"
  define h r where "h = host_cut s" and "r = drop (length h) s"
  have s: "s = h @ r" using host_cut_prefix [of s] append_take_drop_id [of "length h" s] unfolding h_def r_def by simp
  from a have "rx_accepts re_valid_host h" "r \<noteq> []" "hd r = CHR '':''" "x = (u, h, tl r)"
    unfolding remote_split_def Let_def h_def r_def by (auto split: if_splits)
  with s show "\<exists>h p. s = h @ CHR '':'' # p \<and> h \<in> rx_lang re_valid_host \<and> x = (u, h, p)"
    by (cases r) (auto simp: rx_accepts_iff)
next
  assume "\<exists>h p. s = h @ CHR '':'' # p \<and> h \<in> rx_lang re_valid_host \<and> x = (u, h, p)"
  then show "remote_split u s = Some x" by (auto simp: remote_split_def valid_host_cut rx_accepts_iff)
qed

text \<open>No host contains the mark that ends a user, so at most one way to split off a remote prefix exists.\<close>

lemma valid_host_no_mark: "h \<in> rx_lang re_valid_host \<Longrightarrow> c \<in> set h \<Longrightarrow> c \<noteq> CHR ''@''"
proof -
  assume h: "h \<in> rx_lang re_valid_host" "c \<in> set h"
  then consider "h \<in> rx_lang re_dotted" | "h \<in> rx_lang re_valid_ipv6" by (auto simp: re_valid_host_def)
  then show ?thesis
  proof cases
    case 1
    from dotted_char [OF re_dotted_chars [OF rx_lang_chars [OF 1 h(2)]]] show ?thesis by simp
  next
    case 2
    from re_valid_ipv6_shape [OF this] h(2) obtain m where "h = CHR ''['' # m @ '']''" "list_all ipv6_body_chars m" by blast
    with h(2) show ?thesis by (auto simp: list_all_iff ipv6_body_chars_def class_defs)
  qed
qed

lemma host_path_split_remote:
  assumes "u = [] \<or> user_chars u" and "h \<in> rx_lang re_valid_host" and "path_chars p"
  shows "host_path_split (remote_prefix u h @ p) = Some (u, h, p)"
proof (cases "u = []")
  case True
  let ?v = "h @ CHR '':'' # p" and ?P = "\<lambda>c. c \<noteq> CHR ''@'' \<and> c \<noteq> CHR '':''"
  have "dropWhile ?P ?v = [] \<or> hd (dropWhile ?P ?v) \<noteq> CHR ''@''"
  proof (cases "list_all ?P h")
    case True
    then have "dropWhile ?P ?v = CHR '':'' # p" by (simp add: list_all_iff dropWhile_append2)
    then show ?thesis by simp
  next
    case False
    then obtain c where c: "c \<in> set h" "\<not> ?P c" by (auto simp: list_all_iff)
    then have "dropWhile ?P ?v = dropWhile ?P h @ CHR '':'' # p" by (simp add: dropWhile_append1)
    moreover have "dropWhile ?P h \<noteq> []" using c by (simp add: dropWhile_eq_Nil_conv) blast
    moreover have "hd (dropWhile ?P h) \<in> set h" using calculation(2) by (metis hd_in_set set_dropWhileD)
    ultimately show ?thesis using valid_host_no_mark [OF assms(2)] by auto
  qed
  moreover have "remote_split [] ?v = Some ([], h, p)" using assms(2) by (auto simp: remote_split_Some_iff)
  ultimately show ?thesis
    using True assms(3) by (auto simp: host_path_split_def remote_prefix_def Let_def)
next
  case False
  let ?v = "u @ CHR ''@'' # h @ CHR '':'' # p" and ?P = "\<lambda>c. c \<noteq> CHR ''@'' \<and> c \<noteq> CHR '':''"
  have all: "list_all ?P u" using False assms(1) by (simp add: user_chars_def)
  then have "dropWhile ?P ?v = CHR ''@'' # h @ CHR '':'' # p" by (simp add: list_all_iff dropWhile_append2)
  moreover have "takeWhile ?P ?v = u" by (rule takeWhile_stop [OF all]) simp
  moreover have "remote_split u (h @ CHR '':'' # p) = Some (u, h, p)" using assms(2) by (auto simp: remote_split_Some_iff)
  ultimately show ?thesis using False assms(3) by (simp add: host_path_split_def remote_prefix_def Let_def)
qed

lemma host_path_split_cases:
  assumes "host_path_split v = Some (u, h, p)"
  shows "path_chars p \<and> (v = remote_prefix u h @ p \<and> (u = [] \<or> user_chars u) \<and> h \<in> rx_lang re_valid_host
    \<or> u = [] \<and> h = [] \<and> p = v)"
proof -
  let ?P = "\<lambda>c. c \<noteq> CHR ''@'' \<and> c \<noteq> CHR '':''"
  define w t where "w = takeWhile ?P v" and "t = dropWhile ?P v"
  have v: "v = w @ t" unfolding w_def t_def by simp
  have w: "w = [] \<or> user_chars w" unfolding w_def user_chars_def list_all_iff by (blast dest: set_takeWhileD)
  have cs: "path_chars p" "w \<noteq> [] \<and> t \<noteq> [] \<and> hd t = CHR ''@'' \<and> remote_split w (tl t) = Some (u, h, p)
      \<or> remote_split [] v = Some (u, h, p) \<or> u = [] \<and> h = [] \<and> p = v"
    using assms unfolding host_path_split_def Let_def w_def [symmetric] t_def [symmetric]
    by (auto split: if_splits option.splits)
  from cs(2) consider "w \<noteq> []" "t \<noteq> []" "hd t = CHR ''@''" "remote_split w (tl t) = Some (u, h, p)"
    | "remote_split [] v = Some (u, h, p)" | "u = []" "h = []" "p = v" by blast
  then show ?thesis
  proof cases
    case 1
    from 1(4) have "tl t = h @ CHR '':'' # p" "h \<in> rx_lang re_valid_host" "u = w" by (auto simp: remote_split_Some_iff)
    with 1(1-3) v w cs(1) show ?thesis by (cases t) (auto simp: remote_prefix_def)
  next
    case 2
    with cs(1) show ?thesis by (auto simp: remote_split_Some_iff remote_prefix_def)
  next
    case 3
    with cs(1) show ?thesis by simp
  qed
qed

text \<open>The expression tries the ways to split off a remote prefix before it takes the whole as a path.\<close>

lemma rx_run_seq: "rx_run n (Rx_seq a b) = (\<lambda>st. concat (map (rx_run n b) (rx_run n a st)))"
  by (rule ext) simp

lemma host_path_run:
  "rx_run n re_valid_host_path (v, g) = concat (map (\<lambda>st. concat (map (rx_run n Rx_eol) (rx_run n re_path st)))
     (filter (\<lambda>st. fst st \<noteq> v) (rx_run n re_remote (v, g)) @ [(v, g)]))" if "n = length v"
  unfolding re_valid_host_path_def Rx_seqs.simps using that
  by (simp add: rx_run_opt_list [unfolded One_nat_def] rx_run_seq del: rx_run.simps(5))

lemma path_then_end:
  "st' \<in> set (concat (map (rx_run n Rx_eol) (rx_run n re_path (s, g)))) \<and> fst st' = []
    \<longleftrightarrow> path_chars s \<and> st' = ([], g(3 := s))"
proof -
  have "st' \<in> set (concat (map (rx_run n Rx_eol) (rx_run n re_path (s, g)))) \<and> fst st' = []
    \<longleftrightarrow> ([], snd st') \<in> set (rx_run n re_path (s, g)) \<and> fst st' = []"
    by (cases st') (auto split: if_splits)
  then show ?thesis unfolding re_path_run by (cases st') auto
qed

lemma full_match_in_remote:
  "st' \<in> set (concat (map (\<lambda>st. concat (map (rx_run n Rx_eol) (rx_run n re_path st)))
      (filter (\<lambda>st. fst st \<noteq> v) (rx_run n re_remote (v, \<lambda>_. []))))) \<and> fst st' = []
    \<longleftrightarrow> (\<exists>u h p. v = remote_prefix u h @ p \<and> (u = [] \<or> user_chars u) \<and> h \<in> rx_lang re_valid_host \<and> path_chars p
       \<and> st' = ([], (\<lambda>_. [])(1 := u, 2 := h, 3 := p)))" (is "?in \<longleftrightarrow> ?parts")
proof
  assume ?in
  then obtain s g where "(s, g) \<in> set (rx_run n re_remote (v, \<lambda>_. []))"
    and f: "st' \<in> set (concat (map (rx_run n Rx_eol) (rx_run n re_path (s, g)))) \<and> fst st' = []"
    by (auto simp del: rx_run.simps)
  then show ?parts unfolding path_then_end using re_remote_run [of "\<lambda>_. []" s g n v] by blast
next
  assume ?parts
  then obtain u h p where p: "v = remote_prefix u h @ p" "u = [] \<or> user_chars u" "h \<in> rx_lang re_valid_host" "path_chars p"
    "st' = ([], (\<lambda>_. [])(1 := u, 2 := h, 3 := p))" by blast
  let ?st = "(p, (\<lambda>_. [])(1 := u, 2 := h))"
  have "?st \<in> set (filter (\<lambda>st. fst st \<noteq> v) (rx_run n re_remote (v, \<lambda>_. [])))"
    using p re_remote_run [of "\<lambda>_. []" p "(\<lambda>_. [])(1 := u, 2 := h)" n v] by (auto simp: remote_prefix_def)
  moreover have "st' \<in> set (concat (map (rx_run n Rx_eol) (rx_run n re_path ?st))) \<and> fst st' = []"
    unfolding path_then_end using p by simp
  ultimately show ?in by (auto simp del: rx_run.simps set_filter)
qed

lemma find_append: "find P (xs @ ys) = (case find P xs of Some x \<Rightarrow> Some x | None \<Rightarrow> find P ys)"
  by (induction xs) auto

lemma find_SomeD: "find P xs = Some x \<Longrightarrow> x \<in> set xs \<and> P x"
  by (induction xs) (auto split: if_splits)

lemma path_chars_tl: "path_chars s \<Longrightarrow> path_chars (tl s)"
  by (cases s) (auto simp: path_chars_def)

lemma path_chars_dropWhile: "path_chars s \<Longrightarrow> path_chars (dropWhile P s)"
  by (auto simp: path_chars_def list_all_iff dest: set_dropWhileD)

lemma remote_split_path_chars: "remote_split u s = Some x \<Longrightarrow> path_chars s \<Longrightarrow> path_chars (snd (snd x))"
  by (auto simp: remote_split_Some_iff path_chars_def)

lemma host_path_split_total: "path_chars v \<Longrightarrow> host_path_split v \<noteq> None"
  using path_chars_dropWhile [THEN path_chars_tl]
  by (auto simp: host_path_split_def Let_def split: option.splits dest: remote_split_path_chars)

lemma host_path_match_split:
  "map_option (\<lambda>g. (g 1, g 2, g 3)) (regex_match re_valid_host_path v) = host_path_split v"
proof -
  let ?n = "length v" and ?st0 = "(v, \<lambda>_. []) :: rx_state"
  let ?tail = "\<lambda>st. concat (map (rx_run ?n Rx_eol) (rx_run ?n re_path st))"
  let ?rem = "concat (map ?tail (filter (\<lambda>st. fst st \<noteq> v) (rx_run ?n re_remote ?st0)))"
  let ?full = "\<lambda>st :: rx_state. fst st = []"
  have m: "regex_match re_valid_host_path v = map_option snd (case find ?full ?rem of Some x \<Rightarrow> Some x | None \<Rightarrow> find ?full (?tail ?st0))"
    by (simp only: regex_match_def host_path_run [OF refl] map_append concat_append find_append list.map concat.simps append_Nil2)
  show ?thesis
  proof (cases "find ?full ?rem")
    case (Some st)
    from find_SomeD [OF Some] obtain u h p where "v = remote_prefix u h @ p" "u = [] \<or> user_chars u" "h \<in> rx_lang re_valid_host"
      "path_chars p" "st = ([], (\<lambda>_. [])(1 := u, 2 := h, 3 := p))"
      unfolding full_match_in_remote by blast
    with m Some host_path_split_remote show ?thesis by simp
  next
    case None
    then have no: "st' \<notin> set ?rem \<or> fst st' \<noteq> []" for st' by (auto simp only: find_None_iff)
    have local: "x = ([], [], v) \<and> path_chars v" if x: "host_path_split v = Some x" for x
    proof -
      obtain u h p where e: "x = (u, h, p)" by (cases x)
      note cs = host_path_split_cases [OF x [unfolded e]]
      have "\<not> (v = remote_prefix u h @ p \<and> (u = [] \<or> user_chars u) \<and> h \<in> rx_lang re_valid_host \<and> path_chars p)"
      proof
        assume "v = remote_prefix u h @ p \<and> (u = [] \<or> user_chars u) \<and> h \<in> rx_lang re_valid_host \<and> path_chars p"
        then have "([], (\<lambda>_. [])(1 := u, 2 := h, 3 := p)) \<in> set ?rem \<and> fst (([], (\<lambda>_. [])(1 := u, 2 := h, 3 := p)) :: rx_state) = []"
          unfolding full_match_in_remote by blast
        with no show False by blast
      qed
      with cs e show ?thesis by blast
    qed
    show ?thesis
    proof (cases "path_chars v")
      case True
      have "find ?full (?tail ?st0) \<noteq> None"
        using path_then_end [of "([], (\<lambda>_. [])(3 := v))" ?n v "\<lambda>_. []"] True by (auto simp only: find_None_iff)
      then obtain st where st: "find ?full (?tail ?st0) = Some st" by blast
      with find_SomeD [OF st] have "st = ([], (\<lambda>_. [])(3 := v))" unfolding path_then_end by blast
      moreover have "host_path_split v = Some ([], [], v)"
      proof (cases "host_path_split v")
        case (Some x)
        with local show ?thesis by blast
      next
        case none: None
        with host_path_split_total [OF True] show ?thesis by blast
      qed
      ultimately show ?thesis using m None st by simp
    next
      case False
      then have "host_path_split v = None" using local by (cases "host_path_split v") blast+
      moreover have "find ?full (?tail ?st0) = None"
        using path_then_end [of _ ?n v "\<lambda>_. []"] False by (auto simp only: find_None_iff)
      ultimately show ?thesis using m None by simp
    qed
  qed
qed

section \<open>What is parsed\<close>

text \<open>C22: the expression accepts an argument exactly when a parser without backtracking splits it, and captures the
  user, the host and the path that parser finds: a remote prefix where one can be split off, the whole
  argument as a path otherwise.\<close>

theorem host_path_regex_splits:
  "map_option (\<lambda>g. (g 1, g 2, g 3)) (regex_match re_valid_host_path v) = host_path_split v"
  by (rule host_path_match_split)

lemma valid_host_nonempty: "h \<in> rx_lang re_valid_host \<Longrightarrow> h \<noteq> []"
  using re_dotted_nonempty re_valid_ipv6_shape by (auto simp: re_valid_host_def)

text \<open>\<open>user@host:path\<close> and \<open>host:path\<close> are parsed into their parts, whatever characters but \<open>@\<close> and \<open>:\<close> the user has
  and whatever the path, relative ones included, as long as it has no line break; an empty path
  becomes \<open>~\<close>. So \<open>/data/me@box:1\<close> is not a local path.\<close>

theorem remote_argument_parsed:
  assumes "u = [] \<or> user_chars u" and "rx_accepts re_valid_host h" and "path_chars p"
  shows "host_path_parse (remote_prefix u h @ p) hp
    = (True, \<lparr>hp_user = nonempty u, hp_host = Some h, hp_path = (if p = [] then ''~'' else p)\<rparr>)"
proof -
  have h: "h \<in> rx_lang re_valid_host" "h \<noteq> []" using assms(2) valid_host_nonempty by (auto simp: rx_accepts_iff)
  from host_path_split_remote [OF assms(1) h(1) assms(3)] obtain g where
    "regex_match re_valid_host_path (remote_prefix u h @ p) = Some g" "g 1 = u" "g 2 = h" "g 3 = p"
    using host_path_match_split [of "remote_prefix u h @ p"] by auto
  with h(2) show ?thesis by (simp add: host_path_parse_def remote_prefix_def nonempty_def)
qed

theorem remote_argument_parsed_witness:
  "host_path_parse ''/data/me@[::1]:1'' host_path_new = (True, \<lparr>hp_user = Some ''/data/me'', hp_host = Some ''[::1]'', hp_path = ''1''\<rparr>)"
proof -
  have "rx_accepts re_valid_host ''[::1]''" by code_simp
  from remote_argument_parsed [OF _ this, of "''/data/me''" "''1''" host_path_new]
  show ?thesis by (simp add: user_chars_def path_chars_def remote_prefix_def nonempty_def)
qed

text \<open>An argument without a colon is a local path, unchanged.\<close>

lemma local_argument_parsed:
  assumes "v \<noteq> []" and "CHR '':'' \<notin> set v" and "path_chars v"
  shows "host_path_parse v hp = (True, \<lparr>hp_user = None, hp_host = None, hp_path = v\<rparr>)"
proof -
  obtain u h p where x: "host_path_split v = Some (u, h, p)" using host_path_split_total [OF assms(3)] by (cases "host_path_split v") auto
  have "u = [] \<and> h = [] \<and> p = v" using host_path_split_cases [OF x] assms(2) by (auto simp: remote_prefix_def)
  with x obtain g where "regex_match re_valid_host_path v = Some g" "g 1 = []" "g 2 = []" "g 3 = v"
    using host_path_match_split [of v] by auto
  with assms(1) show ?thesis by (simp add: host_path_parse_def nonempty_def)
qed

end
