(* ===== verification/Options.thy ===== *)
theory Options
  imports Host_Path User Blocksize
begin

text \<open>
  \<open>program_options.h\<close> and \<open>program_options.cpp\<close>: what \<open>post_process\<close> makes of the arguments of the
  client and of the server. The arguments arrive as CLI11 parsed them. A \<open>post_process\<close> returns
  false when it refuses the arguments; the options it has filled so far stay.
\<close>

section \<open>The client\<close>

record xcp_program_options =
  arg_port :: "u16 option"
  arg_from_path :: host_path
  arg_to_path :: host_path
  arg_transfer_block_size :: "u64 option"
  arg_user :: "string option"
  arg_recursive :: bool
  from_server_to_client :: bool
  server_portal :: tcp_endpoint
  server_user :: user_name_t

definition SERVER_PORTAL_HOST :: string where
  "SERVER_PORTAL_HOST = ''*''"

definition SERVER_PORTAL_PORT :: u16 where
  "SERVER_PORTAL_PORT = 62581"

definition SERVER_CHANNEL_REPEATS :: u64 where
  "SERVER_CHANNEL_REPEATS = 12"

text \<open>\<open>None\<close> where \<open>post_process\<close> returns false.\<close>

definition choose_sides :: "xcp_program_options \<Rightarrow> xcp_program_options option" where
  "choose_sides o1 = (case (hp_host (arg_from_path o1), hp_host (arg_to_path o1)) of
       (Some _, Some _) \<Rightarrow> None
     | (Some host, None) \<Rightarrow> Some (o1\<lparr>from_server_to_client := True,
         server_portal := (server_portal o1)\<lparr>ep_host := host\<rparr>\<rparr>)
     | (None, Some host) \<Rightarrow> Some (o1\<lparr>from_server_to_client := False,
         server_portal := (server_portal o1)\<lparr>ep_host := host\<rparr>\<rparr>)
     | (None, None) \<Rightarrow> None)"

definition choose_port :: "xcp_program_options \<Rightarrow> xcp_program_options option" where
  "choose_port o1 =
     (if arg_port o1 = Some 0 then None
      else let port = (case arg_port o1 of Some p \<Rightarrow> p | None \<Rightarrow> SERVER_PORTAL_PORT)
           in Some (o1\<lparr>arg_port := Some port, server_portal := (server_portal o1)\<lparr>ep_port := Some port\<rparr>\<rparr>))"

definition choose_user :: "passwd_env \<Rightarrow> xcp_program_options \<Rightarrow> xcp_program_options" where
  "choose_user env o1 =
     (let given = (case arg_user o1 of Some u \<Rightarrow> Some u
          | None \<Rightarrow> if is_remote (arg_from_path o1) then hp_user (arg_from_path o1)
              else if is_remote (arg_to_path o1) then hp_user (arg_to_path o1)
              else None)
      in case given of Some u \<Rightarrow> o1\<lparr>server_user := (server_user o1)\<lparr>user_name := u\<rparr>\<rparr>
         | None \<Rightarrow> (case get_user_name env (server_user o1) of
             (True, u) \<Rightarrow> o1\<lparr>server_user := u\<rparr>
           | (False, _) \<Rightarrow> o1\<lparr>server_user := empty_user_name\<rparr>))"

definition choose_block_size :: "xcp_program_options \<Rightarrow> xcp_program_options" where
  "choose_block_size o1 = o1\<lparr>arg_transfer_block_size := Some (case arg_transfer_block_size o1 of
       Some b \<Rightarrow> if b > ucast MAX_TRANSFER_BLOCK_SIZE then ucast MAX_TRANSFER_BLOCK_SIZE else b
     | None \<Rightarrow> 0)\<rparr>"

definition xcp_post_process ::
  "(string \<Rightarrow> c_int + tcp_sockaddr list) \<Rightarrow> passwd_env \<Rightarrow> endian \<Rightarrow> xcp_program_options
    \<Rightarrow> bool outcome \<times> xcp_program_options" where
  "xcp_post_process getaddrinfo env h o1 = (case choose_sides o1 of
       None \<Rightarrow> (Ret False, o1)
     | Some o2 \<Rightarrow> (case choose_port o2 of
         None \<Rightarrow> (Ret False, o2)
       | Some o3 \<Rightarrow> (case endpoint_resolve getaddrinfo h (server_portal o3) of
           (Ret True, ep) \<Rightarrow> (Ret True, choose_block_size (choose_user env (o3\<lparr>server_portal := ep\<rparr>)))
         | (r, ep) \<Rightarrow> (r, o3\<lparr>server_portal := ep\<rparr>))))"

text \<open>Accepted options name one server: exactly one of the two paths is remote and gives the direction and the
  host; the port is the given one, never 0, or 62581, and every address the portal resolves to carries
  it; the block size is the requested one cut at 1 GB, or 0 for automatic.\<close>

theorem client_options:
  assumes "xcp_post_process getaddrinfo env h o1 = (Ret True, o2)"
  shows "(from_server_to_client o2 \<longleftrightarrow> is_remote (arg_from_path o1))
    \<and> (is_remote (arg_from_path o1) \<noteq> is_remote (arg_to_path o1))
    \<and> Some (ep_host (server_portal o2)) = hp_host (if from_server_to_client o2 then arg_from_path o1 else arg_to_path o1)
    \<and> (\<exists>p. p \<noteq> 0 \<and> ep_port (server_portal o2) = Some p \<and> p = (case arg_port o1 of Some p \<Rightarrow> p | None \<Rightarrow> SERVER_PORTAL_PORT)
        \<and> list_all (\<lambda>a. sockaddr_port h a = Ret p) (resolved_sockaddrs (server_portal o2)))
    \<and> arg_transfer_block_size o2 = Some (case arg_transfer_block_size o1 of Some b \<Rightarrow> min b (ucast MAX_TRANSFER_BLOCK_SIZE) | None \<Rightarrow> 0)"
proof -
  obtain o3 where s: "choose_sides o1 = Some o3" using assms by (auto simp: xcp_post_process_def split: option.splits)
  with assms obtain o4 where p: "choose_port o3 = Some o4" by (auto simp: xcp_post_process_def split: option.splits)
  with assms s obtain ep where r: "endpoint_resolve getaddrinfo h (server_portal o4) = (Ret True, ep)"
    and o2: "o2 = choose_block_size (choose_user env (o4\<lparr>server_portal := ep\<rparr>))"
    by (auto simp: xcp_post_process_def split: prod.splits outcome.splits bool.splits)
  have side: "from_server_to_client o3 \<longleftrightarrow> is_remote (arg_from_path o1)" "is_remote (arg_from_path o1) \<noteq> is_remote (arg_to_path o1)"
    "Some (ep_host (server_portal o3)) = hp_host (if from_server_to_client o3 then arg_from_path o1 else arg_to_path o1)"
    "arg_port o3 = arg_port o1" "arg_transfer_block_size o3 = arg_transfer_block_size o1"
    using s by (auto simp: choose_sides_def is_remote_def split: option.splits)
  have keep: "arg_transfer_block_size (choose_user env x) = arg_transfer_block_size x"
    "from_server_to_client (choose_user env x) = from_server_to_client x" "server_portal (choose_user env x) = server_portal x" for x
    by (auto simp: choose_user_def Let_def split: option.splits prod.splits bool.splits)
  obtain q as where ep: "ep_port (server_portal o4) = Some q" "ep = (server_portal o4)\<lparr>resolved_sockaddrs := as\<rparr>"
    "list_all (\<lambda>a. sockaddr_port h a = Ret q) as"
    using resolve_ports_lemma [OF r] by (auto simp: list_all_iff)
  have port: "ep_port (server_portal o4) = Some (case arg_port o1 of Some p \<Rightarrow> p | None \<Rightarrow> SERVER_PORTAL_PORT)"
    "(case arg_port o1 of Some p \<Rightarrow> p | None \<Rightarrow> SERVER_PORTAL_PORT) \<noteq> 0"
    "ep_host (server_portal o4) = ep_host (server_portal o3)" "from_server_to_client o4 = from_server_to_client o3"
    "arg_transfer_block_size o4 = arg_transfer_block_size o3"
    using p side(4) by (auto simp: choose_port_def Let_def SERVER_PORTAL_PORT_def split: if_splits option.splits)
  have o2_sel: "from_server_to_client o2 = from_server_to_client o3" "server_portal o2 = ep"
    "arg_transfer_block_size o2 = Some (case arg_transfer_block_size o1 of Some b \<Rightarrow> min b (ucast MAX_TRANSFER_BLOCK_SIZE) | None \<Rightarrow> 0)"
  proof -
    have cap: "(if x < b then x else b) = min b x" for b x :: u64 by (auto simp: min_def)
    show "from_server_to_client o2 = from_server_to_client o3" "server_portal o2 = ep"
      "arg_transfer_block_size o2 = Some (case arg_transfer_block_size o1 of Some b \<Rightarrow> min b (ucast MAX_TRANSFER_BLOCK_SIZE) | None \<Rightarrow> 0)"
      using port(4,5) side(5) by (simp_all add: o2 choose_block_size_def keep cap split: option.split)
  qed
  have "ep_host ep = ep_host (server_portal o3)" "ep_port ep = Some q" "resolved_sockaddrs ep = as"
    using ep port(3) by simp_all
  with side port(1,2) ep(1,3) o2_sel show ?thesis by auto
qed

lemma accepted_block_size:
  assumes "xcp_post_process getaddrinfo env h o1 = (Ret True, o2)"
  shows "\<exists>b. arg_transfer_block_size o2 = Some b \<and> b \<le> ucast MAX_TRANSFER_BLOCK_SIZE"
  using assms
  by (auto simp: xcp_post_process_def choose_block_size_def not_less split: option.splits prod.splits outcome.splits bool.splits)

text \<open>An example: \<open>xcp -p 22 file me@h:dst\<close>, with a resolver that knows one address.\<close>

definition demo_env :: passwd_env where
  "demo_env = \<lparr>sysconf_getpw_size = 1024, malloc_ok = (\<lambda>_. True), getpwnam_r = (\<lambda>_ _. (0, None)), getlogin_r = Inl 6\<rparr>"

definition demo_resolver :: "string \<Rightarrow> c_int + tcp_sockaddr list" where
  "demo_resolver s = (if s = ''h'' then Inr [Addr_ipv4 \<lparr>sin_port = 0, sin_addr = 1\<rparr>] else Inl 2)"

definition demo_args :: xcp_program_options where
  "demo_args = \<lparr>arg_port = Some 22, arg_from_path = \<lparr>hp_user = None, hp_host = None, hp_path = ''file''\<rparr>,
     arg_to_path = \<lparr>hp_user = Some ''me'', hp_host = Some ''h'', hp_path = ''dst''\<rparr>,
     arg_transfer_block_size = Some (2 ^ 40), arg_user = None, arg_recursive = False, from_server_to_client = False,
     server_portal = endpoint_new, server_user = empty_user_name\<rparr>"

lemma demo_args_accepted: "fst (xcp_post_process demo_resolver demo_env LittleEndian demo_args) = Ret True"
  by (simp add: xcp_post_process_def demo_args_def choose_sides_def choose_port_def endpoint_resolve_def demo_resolver_def
      trimmed_host_def endpoint_new_def)

theorem client_options_witness:
  "\<exists>o2. xcp_post_process demo_resolver demo_env LittleEndian demo_args = (Ret True, o2) \<and> \<not> from_server_to_client o2
    \<and> ep_host (server_portal o2) = ''h'' \<and> ep_port (server_portal o2) = Some 22
    \<and> arg_transfer_block_size o2 = Some (ucast MAX_TRANSFER_BLOCK_SIZE)"
proof -
  obtain o2 where o2: "xcp_post_process demo_resolver demo_env LittleEndian demo_args = (Ret True, o2)"
    using demo_args_accepted by (cases "xcp_post_process demo_resolver demo_env LittleEndian demo_args") simp
  from client_options [OF o2] o2 show ?thesis
    by (auto simp: demo_args_def is_remote_def min_def MAX_TRANSFER_BLOCK_SIZE_def)
qed

section \<open>The server\<close>

record xcpd_program_options =
  arg_portal :: "tcp_endpoint option"
  arg_channels :: "tcp_endpoint list"
  total_channel_repeats_count :: u64

definition choose_portal :: "tcp_endpoint option \<Rightarrow> tcp_endpoint" where
  "choose_portal arg =
     (let ep = (case arg of None \<Rightarrow> endpoint_new\<lparr>ep_host := SERVER_PORTAL_HOST\<rparr> | Some ep \<Rightarrow> ep)
      in ep\<lparr>ep_port := Some (case ep_port ep of Some p \<Rightarrow> p | None \<Rightarrow> SERVER_PORTAL_PORT)\<rparr>)"

definition channel_defaults :: "tcp_endpoint \<Rightarrow> tcp_endpoint" where
  "channel_defaults ep = ep\<lparr>ep_port := Some (case ep_port ep of Some p \<Rightarrow> p | None \<Rightarrow> 0),
     ep_repeats := Some (case ep_repeats ep of Some r \<Rightarrow> r | None \<Rightarrow> 1)\<rparr>"

definition repeats_of :: "tcp_endpoint \<Rightarrow> u64" where
  "repeats_of ep = (case ep_repeats ep of Some r \<Rightarrow> r | None \<Rightarrow> 0)"

text \<open>The loop over the channels: each gets its defaults and its addresses, the count adds up the repeats.\<close>

fun process_channels ::
  "(string \<Rightarrow> c_int + tcp_sockaddr list) \<Rightarrow> endian \<Rightarrow> tcp_endpoint list \<Rightarrow> u64 \<Rightarrow> bool outcome \<times> tcp_endpoint list \<times> u64" where
  "process_channels getaddrinfo h [] count = (Ret True, [], count)"
| "process_channels getaddrinfo h (ep # eps) count =
     (let ep1 = channel_defaults ep in
      if \<not> repeats_of ep1 > 0 then (Abort, ep1 # eps, count)
      else (case endpoint_resolve getaddrinfo h ep1 of
          (Ret True, ep2) \<Rightarrow> (case process_channels getaddrinfo h eps (count + repeats_of ep2) of
              (r, eps', count') \<Rightarrow> (r, ep2 # eps', count'))
        | (r, ep2) \<Rightarrow> (r, ep2 # eps, count)))"

definition xcpd_post_process ::
  "(string \<Rightarrow> c_int + tcp_sockaddr list) \<Rightarrow> endian \<Rightarrow> xcpd_program_options \<Rightarrow> bool outcome \<times> xcpd_program_options" where
  "xcpd_post_process getaddrinfo h o1 =
     (case endpoint_resolve getaddrinfo h (choose_portal (arg_portal o1)) of
        (Ret True, portal) \<Rightarrow>
          let reuse = (arg_channels o1 = []);
              portal1 = (if reuse \<and> ep_repeats portal = None
                then portal\<lparr>ep_repeats := Some SERVER_CHANNEL_REPEATS\<rparr> else portal);
              count = (if reuse then repeats_of portal1 else 0)
          in (case process_channels getaddrinfo h (arg_channels o1) count of
                (r, eps, count') \<Rightarrow> (r, o1\<lparr>arg_portal := Some portal1, arg_channels := eps, total_channel_repeats_count := count'\<rparr>))
      | (r, portal) \<Rightarrow> (r, o1\<lparr>arg_portal := Some portal\<rparr>))"

lemma process_channels_True:
  "process_channels gai h eps count = (Ret True, eps', count') \<Longrightarrow>
    count' = count + sum_list (map repeats_of eps')
    \<and> list_all2 (\<lambda>a b. ep_host b = ep_host a \<and> repeats_of b = repeats_of (channel_defaults a) \<and> 0 < repeats_of b
        \<and> (\<exists>p. ep_port b = Some p \<and> list_all (\<lambda>a. sockaddr_port h a = Ret p) (resolved_sockaddrs b))) eps eps'"
proof (induction gai h eps count arbitrary: eps' count' rule: process_channels.induct)
  case (2 gai h ep eps count)
  let ?e1 = "channel_defaults ep"
  from "2.prems" have pos: "0 < repeats_of ?e1" by (auto simp: Let_def split: if_splits)
  with "2.prems" obtain ep2 where r: "endpoint_resolve gai h ?e1 = (Ret True, ep2)"
    by (auto simp: Let_def split: if_splits prod.splits outcome.splits bool.splits)
  with "2.prems" pos obtain eps2 where rec: "process_channels gai h eps (count + repeats_of ep2) = (Ret True, eps2, count')"
    and e: "eps' = ep2 # eps2" by (auto simp: Let_def split: prod.splits)
  from resolve_ports_lemma [OF r] obtain p as where ep2: "ep_port ?e1 = Some p" "ep2 = ?e1\<lparr>resolved_sockaddrs := as\<rparr>"
    "list_all (\<lambda>a. sockaddr_port h a = Ret p) as" by (auto simp: list_all_iff)
  have "ep_host ?e1 = ep_host ep" by (simp add: channel_defaults_def)
  moreover have "repeats_of ep2 = repeats_of ?e1" using ep2(2) by (simp add: repeats_of_def)
  ultimately show ?case using "2.IH" [OF refl _ r [symmetric] refl refl rec] pos ep2 e by (auto simp: add.assoc)
qed simp

lemma server_options_lemma:
  assumes "xcpd_post_process getaddrinfo h o1 = (Ret True, o2)"
  shows "\<exists>portal p. arg_portal o2 = Some portal \<and> ep_port portal = Some p
    \<and> list_all (\<lambda>a. sockaddr_port h a = Ret p) (resolved_sockaddrs portal)
    \<and> length (arg_channels o2) = length (arg_channels o1) \<and> list_all (\<lambda>ep. 0 < repeats_of ep) (arg_channels o2)
    \<and> (arg_channels o1 \<noteq> [] \<longrightarrow> ep_repeats portal = ep_repeats (choose_portal (arg_portal o1)))
    \<and> (arg_channels o1 = [] \<longrightarrow> ep_repeats portal = Some (case ep_repeats (choose_portal (arg_portal o1)) of Some r \<Rightarrow> r | None \<Rightarrow> 12))
    \<and> total_channel_repeats_count o2
        = (if arg_channels o1 = [] then repeats_of portal else sum_list (map repeats_of (arg_channels o2)))"
proof -
  let ?p0 = "choose_portal (arg_portal o1)"
  obtain portal where r: "endpoint_resolve getaddrinfo h ?p0 = (Ret True, portal)"
    using assms by (auto simp: xcpd_post_process_def split: prod.splits outcome.splits bool.splits)
  from resolve_ports_lemma [OF r] obtain p as where p: "ep_port ?p0 = Some p" "portal = ?p0\<lparr>resolved_sockaddrs := as\<rparr>"
    "list_all (\<lambda>a. sockaddr_port h a = Ret p) as" by (auto simp: list_all_iff)
  show ?thesis
  proof (cases "arg_channels o1 = []")
    case True
    then show ?thesis using assms r p
      by (auto simp: xcpd_post_process_def Let_def SERVER_CHANNEL_REPEATS_def split: option.splits if_splits)
  next
    case False
    with assms r obtain eps count where pc: "process_channels getaddrinfo h (arg_channels o1) 0 = (Ret True, eps, count)"
      and o2: "o2 = o1\<lparr>arg_portal := Some portal, arg_channels := eps, total_channel_repeats_count := count\<rparr>"
      by (auto simp: xcpd_post_process_def Let_def split: prod.splits)
    have "count = sum_list (map repeats_of eps)" "length eps = length (arg_channels o1)" "list_all (\<lambda>ep. 0 < repeats_of ep) eps"
      using process_channels_True [OF pc] by (auto simp: list_all2_conv_all_nth list_all_length)
    with False p o2 show ?thesis by simp
  qed
qed

text \<open>An accepted server has a port for its portal and every channel, the resolved addresses carry it, every
  channel has at least one repeat, and the total the server waits for is the sum of the repeats of the
  channels or, without any, the repeats of the portal, 12 unless given.\<close>

theorem server_options:
  assumes "xcpd_post_process getaddrinfo h o1 = (Ret True, o2)"
  shows "\<exists>portal p. arg_portal o2 = Some portal \<and> ep_port portal = Some p
    \<and> list_all (\<lambda>a. sockaddr_port h a = Ret p) (resolved_sockaddrs portal)
    \<and> length (arg_channels o2) = length (arg_channels o1) \<and> list_all (\<lambda>ep. 0 < repeats_of ep) (arg_channels o2)
    \<and> (arg_channels o1 \<noteq> [] \<longrightarrow> ep_repeats portal = ep_repeats (choose_portal (arg_portal o1)))
    \<and> (arg_channels o1 = [] \<longrightarrow> ep_repeats portal = Some (case ep_repeats (choose_portal (arg_portal o1)) of Some r \<Rightarrow> r | None \<Rightarrow> 12))
    \<and> total_channel_repeats_count o2
        = (if arg_channels o1 = [] then repeats_of portal else sum_list (map repeats_of (arg_channels o2)))"
  by (rule server_options_lemma [OF assms])

theorem server_options_witness:
  "\<exists>o2 portal. xcpd_post_process demo_resolver LittleEndian \<lparr>arg_portal = None, arg_channels = [], total_channel_repeats_count = 0\<rparr> = (Ret True, o2)
    \<and> arg_portal o2 = Some portal \<and> ep_port portal = Some 62581 \<and> total_channel_repeats_count o2 = 12"
proof -
  let ?o1 = "\<lparr>arg_portal = None, arg_channels = [], total_channel_repeats_count = 0\<rparr>"
  obtain o2 where o2: "xcpd_post_process demo_resolver LittleEndian ?o1 = (Ret True, o2)"
    by (simp add: xcpd_post_process_def choose_portal_def endpoint_resolve_def SERVER_PORTAL_HOST_def endpoint_new_def Let_def)
  have "ep_port (choose_portal None) = Some 62581" "ep_repeats (choose_portal None) = None"
    by (simp_all add: choose_portal_def SERVER_PORTAL_PORT_def endpoint_new_def)
  moreover have "arg_portal o2 = Some portal \<Longrightarrow> ep_port portal = ep_port (choose_portal None)" for portal
    using o2 by (auto simp: xcpd_post_process_def Let_def endpoint_resolve_def split: if_splits option.splits sum.splits)
  ultimately show ?thesis using server_options [OF o2] o2 by (auto simp: repeats_of_def)
qed

end
