(* ===== verification/Server.thy ===== *)
theory Server
  imports Transfer_Copy Handshake Options
begin

text \<open>
  What the portal of the server does between the negotiation and the transfer
  (\<open>client_instance::fn_portal\<close> in \<open>server.cpp\<close>): the channels it tells the client, the resolution of
  the requested path, and the creation of the transfer with the response it sends; and the table of
  clients that accepted sockets are entered into (\<open>server_portal_state\<close>).
\<close>

section \<open>Server information\<close>

text \<open>A channel of the server: its endpoint and the address it is bound to.\<close>

record server_channel_state =
  required_endpoint :: tcp_endpoint
  bound_local_endpoint :: tcp_sockaddr

fun channels_information :: "server_channel_state list \<Rightarrow> (tcp_sockaddr \<times> u64) list outcome" where
  "channels_information [] = Ret []"
| "channels_information (chan # chans) = (case ep_repeats (required_endpoint chan) of
     None \<Rightarrow> Throw Bad_optional_access
   | Some r \<Rightarrow> if \<not> r > 0 then Abort
       else (case channels_information chans of
           Ret rest \<Rightarrow> Ret ((bound_local_endpoint chan, r) # rest)
         | Throw e \<Rightarrow> Throw e
         | Abort \<Rightarrow> Abort
         | Undefined \<Rightarrow> Undefined))"

definition portal_information ::
  "xcpd_program_options \<Rightarrow> tcp_sockaddr \<Rightarrow> server_channel_state list \<Rightarrow> (tcp_sockaddr \<times> u64) list outcome" where
  "portal_information opts bound chans = (case arg_portal opts of
       None \<Rightarrow> Undefined
     | Some ep \<Rightarrow> (case ep_repeats ep of
         Some r \<Rightarrow> if \<not> r > 0 then Abort else Ret [(bound, r)]
       | None \<Rightarrow> if chans = [] then Abort else Ret []))"

definition server_information ::
  "xcpd_program_options \<Rightarrow> tcp_sockaddr \<Rightarrow> server_channel_state list \<Rightarrow> message_server_information outcome" where
  "server_information opts bound chans = (case portal_information opts bound chans of
       Ret p \<Rightarrow> (case channels_information chans of
           Ret cs \<Rightarrow> Ret \<lparr>server_channels = p @ cs\<rparr>
         | Throw e \<Rightarrow> Throw e | Abort \<Rightarrow> Abort | Undefined \<Rightarrow> Undefined)
     | Throw e \<Rightarrow> Throw e | Abort \<Rightarrow> Abort | Undefined \<Rightarrow> Undefined)"

section \<open>The requested path\<close>

text \<open>\<open>~\<close> and a leading \<open>~/\<close> or \<open>~\\<close> stand for the home directory.\<close>

definition strip_tilde :: "string \<Rightarrow> string" where
  "strip_tilde tmp =
     (if length tmp \<ge> 2 \<and> tmp ! 0 = CHR ''~'' \<and> (tmp ! 1 = CHR ''/'' \<or> tmp ! 1 = CHR 0x5C) then drop 2 tmp
      else if length tmp = 1 \<and> tmp ! 0 = CHR ''~'' then []
      else tmp)"

text \<open>\<open>Inl\<close> is the error code and message of the response.\<close>

definition resolve_server_path ::
  "passwd_env \<Rightarrow> 'w posix \<Rightarrow> user_name_t \<Rightarrow> string \<Rightarrow> 'w \<Rightarrow> ((c_int \<times> string) + string) outcome" where
  "resolve_server_path env px user path w =
     (if is_relative path then
        let home_path = get_user_home_path env user;
            prefix = ''Server side path is relative, but home path for requested user '' @ user_to_string user
        in if home_path = [] then Ret (Inl (EINVAL, prefix @ '' is not found''))
           else (case px_status px home_path w of
               Inl err \<Rightarrow> Throw (Filesystem_error err)
             | Inr (ty, _) \<Rightarrow>
                 if ty \<noteq> Ft_directory
                 then Ret (Inl (EINVAL, prefix @ '' is not found or not a directory: '' @ home_path))
                 else Ret (Inr (path_append home_path (strip_tilde path))))
      else Ret (Inr path))"

section \<open>The transfer and the response\<close>

datatype transfer = Transfer_source transfer_source | Transfer_destination transfer_destination

definition response :: "c_int \<Rightarrow> string \<Rightarrow> basic_transfer_info option \<Rightarrow> message_server_transfer_response" where
  "response code msg info = \<lparr>resp_error_code = code, resp_error_message = msg, resp_transfer_info = info\<rparr>"

text \<open>
  The state is \<open>this->transfer\<close> and the file system. Only a \<open>transfer_error\<close> is caught;
  \<open>get_transfer_info\<close> asserts that there is a description.
\<close>

definition create_transfer ::
  "'w posix \<Rightarrow> u64 \<Rightarrow> message_client_transfer_request \<Rightarrow> string \<Rightarrow> 'w
    \<Rightarrow> message_server_transfer_response outcome \<times> transfer option \<times> 'w" where
  "create_transfer px n_channels req path w =
     (if is_from_server_to_client req then
        if req_transfer_info req \<noteq> None then (Abort, None, w)
        else (case transfer_source_ctor px path (transfer_block_size req) (is_recursive req \<noteq> 0) w of
            (Ret _, (src, w')) \<Rightarrow> (case src_info src of
                Some info \<Rightarrow> (Ret (response 0 [] (Some info)), Some (Transfer_source src), w')
              | None \<Rightarrow> (Abort, Some (Transfer_source src), w'))
          | (Throw (Transfer_error code msg), (_, w')) \<Rightarrow> (Ret (response code msg None), None, w')
          | (Throw e, (_, w')) \<Rightarrow> (Throw e, None, w')
          | (Abort, (_, w')) \<Rightarrow> (Abort, None, w')
          | (Undefined, (_, w')) \<Rightarrow> (Undefined, None, w'))
      else (case req_transfer_info req of
          None \<Rightarrow> (Abort, None, w)
        | Some info \<Rightarrow>
            (case dest_init_transfer_info px info n_channels (transfer_destination_ctor path, w) of
               (Ret _, (dst, w')) \<Rightarrow> (Ret (response 0 [] None), Some (Transfer_destination dst), w')
             | (Throw (Transfer_error code msg), (dst, w')) \<Rightarrow> (Ret (response code msg None), Some (Transfer_destination dst), w')
             | (Throw e, (dst, w')) \<Rightarrow> (Throw e, Some (Transfer_destination dst), w')
             | (Abort, (dst, w')) \<Rightarrow> (Abort, Some (Transfer_destination dst), w')
             | (Undefined, (dst, w')) \<Rightarrow> (Undefined, Some (Transfer_destination dst), w'))))"

definition handle_request ::
  "passwd_env \<Rightarrow> 'w posix \<Rightarrow> u64 \<Rightarrow> message_client_transfer_request \<Rightarrow> 'w
    \<Rightarrow> message_server_transfer_response outcome \<times> transfer option \<times> 'w" where
  "handle_request env px n_channels req w =
     (case resolve_server_path env px (req_user req) (server_path req) w of
        Ret (Inl (code, msg)) \<Rightarrow> (Ret (response code msg None), None, w)
      | Ret (Inr path) \<Rightarrow> create_transfer px n_channels req path w
      | Throw e \<Rightarrow> (Throw e, None, w)
      | Abort \<Rightarrow> (Abort, None, w)
      | Undefined \<Rightarrow> (Undefined, None, w))"

section \<open>What the client is told about the channels\<close>

lemma channels_information_sum:
  "channels_information chans = Ret cs \<Longrightarrow>
    sum_list (map snd cs) = sum_list (map (\<lambda>c. repeats_of (required_endpoint c)) chans) \<and> list_all (\<lambda>(a, r). 0 < r) cs
    \<and> length cs = length chans"
proof (induction chans arbitrary: cs)
  case (Cons c chans)
  then show ?case by (auto simp: repeats_of_def split: option.splits if_splits outcome.splits)
qed simp

text \<open>The repeats the server tells a client add up to the number of channels it waits for, when its channels were
  made from its options; but when both the portal has repeats and there are channels, the client is
  also told the portal's repeats, which the server does not count.\<close>

lemma advertised_channels:
  assumes "xcpd_post_process getaddrinfo h o1 = (Ret True, o2)" and "map required_endpoint chans = arg_channels o2"
    and "server_information o2 bound chans = Ret msg"
  shows "sum_list (map snd (server_channels msg)) = total_channel_repeats_count o2
    + (case ep_repeats (choose_portal (arg_portal o1)) of Some r \<Rightarrow> if arg_channels o1 = [] then 0 else r | None \<Rightarrow> 0)"
proof -
  from server_options_lemma [OF assms(1)] obtain portal where portal: "arg_portal o2 = Some portal"
    "arg_channels o1 \<noteq> [] \<Longrightarrow> ep_repeats portal = ep_repeats (choose_portal (arg_portal o1))"
    "arg_channels o1 = [] \<Longrightarrow> ep_repeats portal = Some (case ep_repeats (choose_portal (arg_portal o1)) of Some r \<Rightarrow> r | None \<Rightarrow> 12)"
    "total_channel_repeats_count o2 = (if arg_channels o1 = [] then repeats_of portal else sum_list (map repeats_of (arg_channels o2)))"
    "length (arg_channels o2) = length (arg_channels o1)" by blast
  from assms(3) obtain p cs where p: "portal_information o2 bound chans = Ret p" and cs: "channels_information chans = Ret cs"
    and msg: "server_channels msg = p @ cs"
    by (auto simp: server_information_def split: outcome.splits)
  have c: "sum_list (map snd cs) = sum_list (map repeats_of (arg_channels o2))" "length cs = length chans"
    using channels_information_sum [OF cs] assms(2) by (auto simp: comp_def simp flip: assms(2))
  have s: "sum_list (map snd p) = repeats_of portal"
    using p portal(1) by (auto simp: portal_information_def repeats_of_def split: option.splits if_splits)
  show ?thesis
  proof (cases "arg_channels o1 = []")
    case True
    with c portal(4,5) s msg show ?thesis by (simp split: option.split)
  next
    case False
    with c portal(2,4) s msg show ?thesis by (simp add: repeats_of_def split: option.split)
  qed
qed

theorem advertised_channels_witness:
  "\<exists>o2 msg. xcpd_post_process demo_resolver LittleEndian \<lparr>arg_portal = None, arg_channels = [], total_channel_repeats_count = 0\<rparr> = (Ret True, o2)
    \<and> server_information o2 zero_sockaddr [] = Ret msg \<and> sum_list (map snd (server_channels msg)) = total_channel_repeats_count o2"
proof -
  let ?o1 = "\<lparr>arg_portal = None, arg_channels = [], total_channel_repeats_count = 0\<rparr>"
  obtain o2 where o2: "xcpd_post_process demo_resolver LittleEndian ?o1 = (Ret True, o2)"
    and p: "arg_channels o2 = []" "\<exists>ep. arg_portal o2 = Some ep \<and> ep_repeats ep = Some 12"
    by (simp add: xcpd_post_process_def choose_portal_def endpoint_resolve_def SERVER_PORTAL_HOST_def SERVER_CHANNEL_REPEATS_def endpoint_new_def Let_def)
  obtain msg where msg: "server_information o2 zero_sockaddr [] = Ret msg"
    using p by (auto simp: server_information_def portal_information_def)
  have "map required_endpoint [] = arg_channels o2" using p(1) by simp
  from advertised_channels [OF o2 this msg] o2 msg show ?thesis by (auto simp: choose_portal_def endpoint_new_def)
qed

text \<open>With a portal of 12 repeats and one channel the client is told of 13 channels and the server waits for one.\<close>

definition both_args :: xcpd_program_options where
  "both_args = \<lparr>arg_portal = Some (endpoint_new\<lparr>ep_host := ''*'', ep_repeats := Some 12\<rparr>),
     arg_channels = [endpoint_new\<lparr>ep_host := ''*''\<rparr>], total_channel_repeats_count = 0\<rparr>"

text \<open>A server with repeats on its portal and a channel of its own tells a client of 13 channels, but waits for one
  before it starts and lets an upload end when one has returned.\<close>

theorem portal_repeats_not_counted:
  "\<exists>o2 chan msg. xcpd_post_process demo_resolver LittleEndian both_args = (Ret True, o2) \<and> arg_channels o2 = [required_endpoint chan]
    \<and> server_information o2 zero_sockaddr [chan] = Ret msg \<and> sum_list (map snd (server_channels msg)) = 13
    \<and> total_channel_repeats_count o2 = 1"
proof -
  obtain o2 ep pt where o2: "xcpd_post_process demo_resolver LittleEndian both_args = (Ret True, o2)" "arg_channels o2 = [ep]"
    "ep_repeats ep = Some 1" "arg_portal o2 = Some pt" "ep_repeats pt = Some 12" "total_channel_repeats_count o2 = 1"
    by (simp add: both_args_def xcpd_post_process_def choose_portal_def endpoint_resolve_def endpoint_new_def channel_defaults_def
        repeats_of_def Let_def)
  let ?chan = "\<lparr>required_endpoint = ep, bound_local_endpoint = zero_sockaddr\<rparr>"
  have "server_information o2 zero_sockaddr [?chan] = Ret \<lparr>server_channels = [(zero_sockaddr, 12), (zero_sockaddr, 1)]\<rparr>"
    using o2 by (simp add: server_information_def portal_information_def)
  with o2 show ?thesis by (intro exI [of _ o2] exI [of _ ?chan]) simp
qed

section \<open>Where a transfer goes\<close>

lemma strip_tilde_cases: "strip_tilde p = p \<or> strip_tilde p = [] \<or> strip_tilde p = drop 2 p"
  by (simp add: strip_tilde_def)

lemma get_user_home_path_entry:
  assumes "\<And>n b err d. getpwnam_r env n b = (err, Some d) \<Longrightarrow> is_absolute d" and "get_user_home_path env u \<noteq> []"
  shows "is_absolute (get_user_home_path env u)"
proof -
  have "try_get_home_by_name env n = Some d \<Longrightarrow> is_absolute d" for n d
    using assms(1) by (auto simp: try_get_home_by_name_def Let_def split: if_splits prod.splits option.splits)
  then show ?thesis using assms(2) by (auto simp: get_user_home_path_def Let_def split: if_splits option.splits)
qed


definition home_env :: passwd_env where
  "home_env = \<lparr>sysconf_getpw_size = 1024, malloc_ok = (\<lambda>_. True), getpwnam_r = (\<lambda>_ _. (0, Some ''/h'')), getlogin_r = Inl 6\<rparr>"

definition home_px :: "unit posix" where
  "home_px = copy_px\<lparr>px_status := (\<lambda>p w. Inr (if p = ''/h'' then Ft_directory else Ft_not_found, 493))\<rparr>"


section \<open>What a response tells\<close>

text \<open>The system reports an error with a number that is not 0; then no \<open>transfer_error\<close> carries 0.\<close>

definition errno_nonzero :: "'w posix \<Rightarrow> bool" where
  "errno_nonzero px \<longleftrightarrow> (\<forall>p w w'. px_open_read px p w \<noteq> (Inl 0, w')) \<and> (\<forall>fd w. px_fstat px fd w \<noteq> Inl 0)
     \<and> (\<forall>p perm w w'. px_open_write px p perm w \<noteq> (Inl 0, w')) \<and> (\<forall>fd perm w w'. px_fchmod px fd perm w \<noteq> (Some 0, w'))
     \<and> (\<forall>fd n w w'. px_ftruncate px fd n w \<noteq> (Some 0, w')) \<and> (\<forall>fd n w w'. px_mmap px fd n w \<noteq> (Some 0, w'))"

definition error_code_set :: "('s \<Rightarrow> 'a outcome \<times> 's) \<Rightarrow> bool" where
  "error_code_set m \<longleftrightarrow> (\<forall>s code msg. fst (m s) = Throw (Transfer_error code msg) \<longrightarrow> code \<noteq> 0)"

lemma error_code_setD: "error_code_set m \<Longrightarrow> m s = (Throw (Transfer_error code msg), s') \<Longrightarrow> code \<noteq> 0"
  unfolding error_code_set_def by (metis fst_conv)

lemma error_code_setI: "(\<And>s code msg s'. m s = (Throw (Transfer_error code msg), s') \<Longrightarrow> code \<noteq> 0) \<Longrightarrow> error_code_set m"
  unfolding error_code_set_def by (metis prod.collapse)

lemma error_code_set_seq: "error_code_set m \<Longrightarrow> (\<And>a. error_code_set (k a)) \<Longrightarrow> error_code_set (seq_st m k)"
  by (rule error_code_setI) (auto simp: seq_st_def dest: error_code_setD split: prod.splits outcome.splits)

lemma error_code_set_assert: "error_code_set (\<lambda>s. assert_st (P s) s)"
  by (simp add: error_code_set_def assert_st_def)

lemma error_code_set_Ret: "(\<And>s. fst (m s) = Ret (f s)) \<Longrightarrow> error_code_set m"
  by (simp add: error_code_set_def)

lemma errnos_nonzero: "EINVAL \<noteq> 0" "ENOENT \<noteq> 0" "ENOSYS \<noteq> 0"
  by (simp_all add: EINVAL_def ENOENT_def ENOSYS_def)

lemma errno_nonzeroD:
  assumes "errno_nonzero px"
  shows "px_open_read px p w \<noteq> (Inl 0, w')" "px_fstat px fd w \<noteq> Inl 0" "px_open_write px p perm w \<noteq> (Inl 0, w')"
    "px_fchmod px fd perm w \<noteq> (Some 0, w')" "px_ftruncate px fd n w \<noteq> (Some 0, w')" "px_mmap px fd n w \<noteq> (Some 0, w')"
  using assms by (simp_all add: errno_nonzero_def)

lemma source_open_file_code: "errno_nonzero px \<Longrightarrow> error_code_set (source_open_regular_file px path)"
  by (rule error_code_setI)
    (auto simp: source_open_regular_file_def errno_nonzeroD split: prod.splits sum.splits)

lemma source_walk_code:
  "errno_nonzero px \<Longrightarrow> source_walk px d es s = (Throw (Transfer_error code msg), s') \<Longrightarrow> code \<noteq> 0"
proof (induction px d es s rule: source_walk.induct)
  case (3 px d e es err s)
  show ?case
  proof (cases "entry_type e = Ft_directory")
    case True
    with "3.prems" "3.IH"(1) [OF refl True] show ?thesis by (simp add: Let_def)
  next
    case False
    show ?thesis
    proof (cases "entry_type e = Ft_regular")
      case True
      with False "3.prems" "3.IH"(2) [OF refl False True] show ?thesis
        by (auto simp: seq_st_def Let_def dest: error_code_setD [OF source_open_file_code] split: prod.splits outcome.splits)
    next
      case no: False
      with False "3.prems"(2) show ?thesis by (auto simp: Let_def errnos_nonzero)
    qed
  qed
qed simp_all

lemma source_open_code: "errno_nonzero px \<Longrightarrow> error_code_set (source_open px path r)"
proof (rule error_code_setI)
  fix s code msg s'
  assume nz: "errno_nonzero px" and o: "source_open px path r s = (Throw (Transfer_error code msg), s')"
  have reg: "error_code_set (source_prepare_regular_file px path)"
    unfolding source_prepare_regular_file_def
    by (rule error_code_set_seq [OF error_code_set_assert], rule error_code_setI)
      (auto simp: seq_st_def dest: error_code_setD [OF source_open_file_code [OF nz]] split: prod.splits outcome.splits)
  have dir: "error_code_set (source_prepare_directory px path)"
    unfolding source_prepare_directory_def
    by (rule error_code_set_seq [OF error_code_set_assert], rule error_code_setI)
      (auto simp: Let_def dest: source_walk_code [OF nz] split: if_splits sum.splits prod.splits)
  have type: "source_type_error ty path \<noteq> Transfer_error 0 msg" for ty msg by (cases ty) (simp_all add: errnos_nonzero)
  show "code \<noteq> 0"
    using o error_code_setD [OF reg] error_code_setD [OF dir] type
    by (auto simp: source_open_def errnos_nonzero split: sum.splits if_splits prod.splits)
qed

lemma source_ctor_code:
  assumes "errno_nonzero px" and "transfer_source_ctor px path b r w = (Throw (Transfer_error code msg), s')"
  shows "code \<noteq> 0"
proof -
  from assms(2) obtain s where "source_open px path r (source_new b, w) = (Throw (Transfer_error code msg), s)"
    by (auto simp: transfer_source_ctor_def seq_st_def assert_st_def sweep_scope_def split: if_splits prod.splits outcome.splits)
  with source_open_code [OF assms(1)] show ?thesis by (rule error_code_setD)
qed

lemma dest_map_file_code:
  "errno_nonzero px \<Longrightarrow> dest_map_file px path fi fd w = (Throw (Transfer_error code msg), w') \<Longrightarrow> code \<noteq> 0"
  by (auto simp: dest_map_file_def errno_nonzeroD errnos_nonzero split: if_splits prod.splits option.splits)

lemma dest_open_file_code: "errno_nonzero px \<Longrightarrow> error_code_set (dest_open_regular_file px path fi)"
  by (rule error_code_setI)
    (auto simp: dest_open_regular_file_def errno_nonzeroD Let_def dest: dest_map_file_code
      split: if_splits prod.splits sum.splits option.splits outcome.splits)

lemma add_recv_ctx_code: "error_code_set (add_recv_ctx ctx)"
  by (rule error_code_set_Ret) (simp add: add_recv_ctx_def)

lemma dest_prepare_file_code: "errno_nonzero px \<Longrightarrow> error_code_set (dest_prepare_regular_file px)"
  by (rule error_code_setI)
    (auto simp: dest_prepare_regular_file_def
      dest: error_code_setD [OF error_code_set_seq [OF dest_open_file_code add_recv_ctx_code]] split: option.splits if_splits)

lemma dest_create_dirs_code: "dest_create_dirs px base ds w \<noteq> (Throw (Transfer_error code msg), w')"
  by (induction ds arbitrary: w) (auto split: prod.splits option.splits)

lemma dest_open_files_code: "errno_nonzero px \<Longrightarrow> error_code_set (dest_open_files px base fis)"
proof (induction fis)
  case Nil
  show ?case by (rule error_code_set_Ret) simp
next
  case (Cons fi fis)
  then have "error_code_set (seq_st (dest_open_regular_file px (path_append base (file_path fi)) fi)
      (\<lambda>ctx. seq_st (add_recv_ctx ctx) (\<lambda>_. dest_open_files px base fis)))"
    by (intro error_code_set_seq dest_open_file_code add_recv_ctx_code)
  then show ?case by (simp add: error_code_set_def)
qed

lemma dest_prepare_directory_code: "errno_nonzero px \<Longrightarrow> error_code_set (dest_prepare_directory px)"
  by (rule error_code_setI)
    (auto simp: dest_prepare_directory_def dest_create_dirs_code dest: error_code_setD [OF dest_open_files_code]
      split: option.splits prod.splits outcome.splits)

lemma dest_open_code: "errno_nonzero px \<Longrightarrow> error_code_set (dest_open px info ty)"
proof (rule error_code_setI)
  fix s code msg s'
  assume nz: "errno_nonzero px" and o: "dest_open px info ty s = (Throw (Transfer_error code msg), s')"
  have type: "dest_type_error ty p \<noteq> Transfer_error 0 msg" for ty p msg by (cases ty) (simp_all add: errnos_nonzero)
  show "code \<noteq> 0"
    using o error_code_setD [OF dest_prepare_file_code [OF nz]] error_code_setD [OF dest_prepare_directory_code [OF nz]] type
    by (auto simp: dest_open_def errnos_nonzero Let_def split: if_splits prod.splits option.splits)
qed

lemma dest_init_code: "errno_nonzero px \<Longrightarrow> error_code_set (dest_init_transfer_info px info n)"
proof (rule error_code_setI)
  fix s code msg s'
  assume nz: "errno_nonzero px" and i: "dest_init_transfer_info px info n s = (Throw (Transfer_error code msg), s')"
  have gate: "gate_init n g \<noteq> (Throw e, g')" for g e g'
    by (simp add: gate_init_def seq_st_def assert_st_def)
  show "code \<noteq> 0"
    using i error_code_setD [OF dest_open_code [OF nz]]
    by (auto simp: dest_init_transfer_info_def gate Let_def split: if_splits prod.splits sum.splits outcome.splits)
qed

section \<open>What the client can rely on\<close>

text \<open>What a transfer created for a request is when the response reports no error.\<close>

fun transfer_ready :: "message_client_transfer_request \<Rightarrow> u64 \<Rightarrow> basic_transfer_info option \<Rightarrow> transfer \<Rightarrow> bool" where
  "transfer_ready req n_channels info (Transfer_source src) \<longleftrightarrow>
     is_from_server_to_client req \<and> info \<noteq> None \<and> info = src_info src \<and> source_ready src"
| "transfer_ready req n_channels info (Transfer_destination dst) \<longleftrightarrow>
     \<not> is_from_server_to_client req \<and> info = None
     \<and> (\<exists>i. req_transfer_info req = Some i \<and> dest_ready i (unat n_channels) dst)"

lemma create_transfer_response:
  assumes "create_transfer px n req path w = (Ret resp, tr, w')" and nz: "errno_nonzero px" and v: "opens_valid px"
  shows "if resp_error_code resp = 0 then \<exists>t. tr = Some t \<and> transfer_ready req n (resp_transfer_info resp) t
    else resp_transfer_info resp = None"
proof (cases "is_from_server_to_client req")
  case True
  obtain r src w1 where c: "transfer_source_ctor px path (transfer_block_size req) (is_recursive req \<noteq> 0) w = (r, (src, w1))"
    by (metis prod.exhaust)
  consider (ok) "r = Ret ()" | (err) code msg where "r = Throw (Transfer_error code msg)"
    using assms(1) True c by (auto simp: create_transfer_def split: if_splits outcome.splits cpp_exception.splits)
  then show ?thesis
  proof cases
    case ok
    have wf: "source_ready src" by (rule source_ctor_ready [OF c [unfolded ok]])
    with assms(1) True c ok show ?thesis
      by (auto simp: create_transfer_def response_def split: if_splits option.splits)
  next
    case err
    with c source_ctor_code [OF nz] have "code \<noteq> 0" by blast
    with assms(1) True c err show ?thesis
      by (auto simp: create_transfer_def response_def split: if_splits)
  qed
next
  case False
  then obtain info where info: "req_transfer_info req = Some info"
    using assms(1) by (auto simp: create_transfer_def split: option.splits)
  obtain r dst w1 where c: "dest_init_transfer_info px info n (transfer_destination_ctor path, w) = (r, (dst, w1))"
    by (metis prod.exhaust)
  consider (ok) "r = Ret ()" | (err) code msg where "r = Throw (Transfer_error code msg)"
    using assms(1) False info c by (auto simp: create_transfer_def split: outcome.splits cpp_exception.splits)
  then show ?thesis
  proof cases
    case ok
    from dest_init_ready [OF c [unfolded ok] v] assms(1) False info c ok show ?thesis
      by (auto simp: create_transfer_def response_def)
  next
    case err
    from error_code_setD [OF dest_init_code [OF nz] c [unfolded err]] assms(1) False info c err show ?thesis
      by (auto simp: create_transfer_def response_def)
  qed
qed

lemma response_tells_lemma:
  assumes "handle_request env px n req w = (Ret resp, tr, w')" and "errno_nonzero px" and "opens_valid px"
  shows "if resp_error_code resp = 0 then \<exists>t. tr = Some t \<and> transfer_ready req n (resp_transfer_info resp) t
    else resp_transfer_info resp = None"
proof -
  from assms(1) consider
    (bad) code msg where "resolve_server_path env px (req_user req) (server_path req) w = Ret (Inl (code, msg))"
      "resp = response code msg None"
    | (good) path where "create_transfer px n req path w = (Ret resp, tr, w')"
    by (auto simp: handle_request_def split: outcome.splits sum.splits prod.splits)
  then show ?thesis
  proof cases
    case bad
    then have "code = EINVAL"
      by (auto simp: resolve_server_path_def Let_def split: if_splits sum.splits prod.splits)
    with bad show ?thesis by (simp add: response_def errnos_nonzero)
  next
    case good
    then show ?thesis by (rule create_transfer_response [OF _ assms(2,3)])
  qed
qed


definition upload_request :: message_client_transfer_request where
  "upload_request = \<lparr>is_from_server_to_client = False, server_path = ''/b'', transfer_block_size = 2, is_recursive = 0,
     req_user = empty_user_name, req_transfer_info = Some copy_info\<rparr>"

lemma upload_request_handled:
  "\<exists>tr. handle_request env copy_px 2 upload_request () = (Ret (response 0 [] None), Some tr, ())"
proof -
  obtain dst where "dest_init_transfer_info copy_px copy_info 2 (transfer_destination_ctor ''/b'', ()) = (Ret (), (dst, ()))"
    by (simp add: INVALID_SIGNAL_COUNT_def dest_init_transfer_info_def transfer_destination_ctor_def gate_init_def gate_new_def seq_st_def assert_st_def
        copy_px_def copy_info_def dest_open_def dest_prepare_regular_file_def dest_open_regular_file_def dest_map_file_def
        add_recv_ctx_def PERM_MASK_def Let_def)
  then show ?thesis
    by (auto simp: handle_request_def resolve_server_path_def is_relative_def is_absolute_def create_transfer_def upload_request_def)
qed

lemma copy_px_errno: "errno_nonzero copy_px"
  by (simp add: errno_nonzero_def copy_px_def)


text \<open>A client whose request for a download comes with a description of files ends the server, whatever the path is,
  if the path is resolved: \<open>ASSERT\<close> is not an answer.\<close>

theorem contradictory_request_aborts:
  assumes "is_from_server_to_client req" and "req_transfer_info req \<noteq> None" and "is_absolute (server_path req)"
  shows "fst (handle_request env px n req w) = Abort"
  using assms by (simp add: handle_request_def resolve_server_path_def is_relative_def create_transfer_def)

theorem contradictory_request_aborts_witness:
  "fst (handle_request demo_env copy_px 2 (upload_request\<lparr>is_from_server_to_client := True\<rparr>) ()) = Abort"
  by (rule contradictory_request_aborts) (simp_all add: upload_request_def is_absolute_def)

end
