(* ===== verification/Client.thy ===== *)
theory Client
  imports Server
begin

text \<open>
  The client's portal (\<open>client_portal_state\<close> in \<open>client.h\<close> and \<open>client.cpp\<close>): preparing the transfer
  in \<open>init\<close>, the channels it opens to those the server told it, its request, what it does with the
  response, the progress it reports, and the exit status of \<open>xcp\<close>.
\<close>

section \<open>Preparing the transfer\<close>

definition client_init_transfer ::
  "'w posix \<Rightarrow> xcp_program_options \<Rightarrow> 'w \<Rightarrow> bool outcome \<times> transfer option \<times> 'w" where
  "client_init_transfer px opts w =
     (if from_server_to_client opts
      then (Ret True, Some (Transfer_destination (transfer_destination_ctor (hp_path (arg_to_path opts)))), w)
      else (case arg_transfer_block_size opts of
          None \<Rightarrow> (Abort, None, w)
        | Some b \<Rightarrow> (case transfer_source_ctor px (hp_path (arg_from_path opts)) b (arg_recursive opts) w of
              (Ret _, (src, w')) \<Rightarrow> (Ret True, Some (Transfer_source src), w')
            | (Throw (Transfer_error code msg), (_, w')) \<Rightarrow> (Ret False, None, w')
            | (Throw e, (_, w')) \<Rightarrow> (Throw e, None, w')
            | (Abort, (_, w')) \<Rightarrow> (Abort, None, w')
            | (Undefined, (_, w')) \<Rightarrow> (Undefined, None, w'))))"

section \<open>Opening the channels\<close>

text \<open>The wildcard address is replaced by the one the portal is connected to.\<close>

definition channel_address :: "endian \<Rightarrow> tcp_sockaddr \<Rightarrow> tcp_sockaddr \<Rightarrow> tcp_sockaddr outcome" where
  "channel_address h remote addr = (case is_addr_any addr of
       Ret any \<Rightarrow> if any
         then (case sockaddr_port h addr of
             Ret p \<Rightarrow> set_port h p remote
           | Throw e \<Rightarrow> Throw e | Abort \<Rightarrow> Abort | Undefined \<Rightarrow> Undefined)
         else Ret addr
     | Throw e \<Rightarrow> Throw e | Abort \<Rightarrow> Abort | Undefined \<Rightarrow> Undefined)"

text \<open>\<open>stopped n\<close>: the rundown is required when the channel after \<open>n\<close> others is added.\<close>

fun add_channels :: "(nat \<Rightarrow> bool) \<Rightarrow> tcp_sockaddr \<Rightarrow> nat \<Rightarrow> tcp_sockaddr list \<Rightarrow> bool \<times> tcp_sockaddr list" where
  "add_channels stopped addr 0 chans = (True, chans)"
| "add_channels stopped addr (Suc n) chans =
     (if stopped (length chans) then (False, chans) else add_channels stopped addr n (chans @ [addr]))"

fun connect_channels ::
  "endian \<Rightarrow> (nat \<Rightarrow> bool) \<Rightarrow> tcp_sockaddr \<Rightarrow> (tcp_sockaddr \<times> u64) list \<Rightarrow> tcp_sockaddr list \<times> u64
    \<Rightarrow> bool outcome \<times> tcp_sockaddr list \<times> u64" where
  "connect_channels h stopped remote [] st = (Ret True, st)"
| "connect_channels h stopped remote ((addr, repeats) # infos) (chans, n_total) =
     (case channel_address h remote addr of
        Ret chan_addr \<Rightarrow> (case add_channels stopped chan_addr (unat repeats) chans of
            (True, chans') \<Rightarrow> connect_channels h stopped remote infos (chans', n_total + repeats)
          | (False, chans') \<Rightarrow> (Ret False, (chans', n_total + repeats)))
      | Throw e \<Rightarrow> (Throw e, (chans, n_total))
      | Abort \<Rightarrow> (Abort, (chans, n_total))
      | Undefined \<Rightarrow> (Undefined, (chans, n_total)))"

section \<open>The request and the response\<close>

fun get_transfer_info :: "transfer \<Rightarrow> basic_transfer_info outcome" where
  "get_transfer_info (Transfer_source src) = (case src_info src of None \<Rightarrow> Abort | Some info \<Rightarrow> Ret info)"
| "get_transfer_info (Transfer_destination dst) = (case dst_info dst of None \<Rightarrow> Abort | Some info \<Rightarrow> Ret info)"

definition client_request :: "xcp_program_options \<Rightarrow> transfer \<Rightarrow> message_client_transfer_request outcome" where
  "client_request opts t = (case arg_transfer_block_size opts of
       None \<Rightarrow> Abort
     | Some b \<Rightarrow> let req = (\<lambda>path info. \<lparr>is_from_server_to_client = from_server_to_client opts, server_path = path,
           transfer_block_size = b, is_recursive = (if arg_recursive opts then 1 else 0), req_user = server_user opts,
           req_transfer_info = info\<rparr>)
         in if from_server_to_client opts then Ret (req (hp_path (arg_from_path opts)) None)
            else (case get_transfer_info t of
                Ret info \<Rightarrow> Ret (req (hp_path (arg_to_path opts)) (Some info))
              | Throw e \<Rightarrow> Throw e | Abort \<Rightarrow> Abort | Undefined \<Rightarrow> Undefined))"

text \<open>\<open>dynamic_pointer_cast\<close> to the wrong class gives a null pointer.\<close>

definition client_response ::
  "'w posix \<Rightarrow> xcp_program_options \<Rightarrow> u64 \<Rightarrow> message_server_transfer_response \<Rightarrow> transfer \<times> 'w
    \<Rightarrow> bool outcome \<times> transfer \<times> 'w" where
  "client_response px opts n_channels msg s =
     (if resp_error_code msg \<noteq> 0 then (Ret False, s)
      else if from_server_to_client opts then
        (case (resp_transfer_info msg, fst s) of
           (None, _) \<Rightarrow> (Abort, s)
         | (Some info, Transfer_source _) \<Rightarrow> (Undefined, s)
         | (Some info, Transfer_destination dst) \<Rightarrow>
             (case dest_init_transfer_info px info n_channels (dst, snd s) of
                (Ret _, (dst', w)) \<Rightarrow> (Ret True, (Transfer_destination dst', w))
              | (Throw (Transfer_error code m), (dst', w)) \<Rightarrow> (Ret False, (Transfer_destination dst', w))
              | (Throw e, (dst', w)) \<Rightarrow> (Throw e, (Transfer_destination dst', w))
              | (Abort, (dst', w)) \<Rightarrow> (Abort, (Transfer_destination dst', w))
              | (Undefined, (dst', w)) \<Rightarrow> (Undefined, (Transfer_destination dst', w))))
      else if resp_transfer_info msg \<noteq> None then (Abort, s) else (Ret True, s))"

section \<open>The channels that are opened\<close>

lemma add_channels_True: "add_channels stopped a n chans = (True, cs) \<Longrightarrow> cs = chans @ replicate n a"
proof (induction n arbitrary: chans)
  case (Suc n)
  then have "add_channels stopped a n (chans @ [a]) = (True, cs)" by (simp split: if_splits)
  from Suc.IH [OF this] show ?case by simp
qed simp

lemma connect_channels_True:
  "connect_channels h stopped remote infos (chans, n_total) = (Ret True, (cs, t)) \<Longrightarrow>
    t = n_total + sum_list (map snd infos)
    \<and> (\<exists>as. list_all2 (\<lambda>(addr, r) a. channel_address h remote addr = Ret a) infos as
        \<and> cs = chans @ concat (map2 (\<lambda>(addr, r) a. replicate (unat r) a) infos as))"
proof (induction infos arbitrary: chans n_total)
  case (Cons i infos)
  obtain addr r where i: "i = (addr, r)" by force
  with Cons.prems obtain a chans' where a: "channel_address h remote addr = Ret a"
    and c: "add_channels stopped a (unat r) chans = (True, chans')"
    and rest: "connect_channels h stopped remote infos (chans', n_total + r) = (Ret True, (cs, t))"
    by (auto split: outcome.splits prod.splits bool.splits)
  from Cons.IH [OF rest] obtain as where as: "list_all2 (\<lambda>(addr, r) a. channel_address h remote addr = Ret a) infos as"
    "cs = chans' @ concat (map2 (\<lambda>(addr, r) a. replicate (unat r) a) infos as)" "t = n_total + r + sum_list (map snd infos)" by blast
  with a i add_channels_True [OF c] show ?case by (intro conjI exI [of _ "a # as"]) (simp_all add: add.assoc)
qed simp


definition wildcard_bound :: tcp_sockaddr where
  "wildcard_bound = Addr_ipv4 \<lparr>sin_port = 22, sin_addr = 0\<rparr>"

definition portal_peer :: tcp_sockaddr where
  "portal_peer = Addr_ipv4 \<lparr>sin_port = 22, sin_addr = 7\<rparr>"

definition no_args :: xcpd_program_options where
  "no_args = \<lparr>arg_portal = None, arg_channels = [], total_channel_repeats_count = 0\<rparr>"

lemma no_args_server:
  "\<exists>o2. xcpd_post_process demo_resolver LittleEndian no_args = (Ret True, o2) \<and> arg_channels o2 = []
    \<and> server_information o2 wildcard_bound [] = Ret \<lparr>server_channels = [(wildcard_bound, 12)]\<rparr>"
  by (simp add: no_args_def xcpd_post_process_def choose_portal_def endpoint_resolve_def SERVER_PORTAL_HOST_def SERVER_CHANNEL_REPEATS_def
      endpoint_new_def server_information_def portal_information_def Let_def)

lemma wildcard_connects:
  "\<exists>cs. connect_channels BigEndian (\<lambda>_. False) portal_peer [(wildcard_bound, 12)] ([], 0) = (Ret True, (cs, 12))"
proof -
  have "channel_address BigEndian portal_peer wildcard_bound = Ret portal_peer"
    by (simp add: channel_address_def wildcard_bound_def portal_peer_def INADDR_ANY_def)
  moreover have "add_channels (\<lambda>_. False) a n chans = (True, chans @ replicate n a)" for a n chans
    by (induction n arbitrary: chans) simp_all
  ultimately show ?thesis by simp
qed


section \<open>A negotiated transfer\<close>

lemma client_request_fields:
  assumes "client_request opts t = Ret req"
  shows "is_from_server_to_client req \<longleftrightarrow> from_server_to_client opts"
    "arg_transfer_block_size opts = Some (transfer_block_size req)" "is_recursive req \<noteq> 0 \<longleftrightarrow> arg_recursive opts"
    "req_transfer_info req = (if from_server_to_client opts then None
       else case get_transfer_info t of Ret info \<Rightarrow> Some info | _ \<Rightarrow> None)"
  using assms by (auto simp: client_request_def Let_def split: option.splits if_splits outcome.splits)

lemma negotiated_transfer:
  assumes prep: "client_init_transfer pxc opts wc = (Ret True, Some tc, wc1)" and req: "client_request opts tc = Ret req"
    and srv: "handle_request env pxs n_server (request_view req) ws = (Ret resp, ts, ws1)"
    and rsp: "client_response pxc opts n_client resp (tc, wc1) = (Ret True, (tc1, wc2))"
    and v: "opens_valid pxc" "opens_valid pxs" "errno_nonzero pxs"
  shows "\<exists>src dst info. (if from_server_to_client opts then ts = Some (Transfer_source src) \<and> tc1 = Transfer_destination dst
        else tc1 = Transfer_source src \<and> ts = Some (Transfer_destination dst))
      \<and> source_ready src \<and> src_info src = Some info
      \<and> dest_ready info (unat (if from_server_to_client opts then n_client else n_server)) dst"
proof -
  note f = client_request_fields [OF req]
  have view: "is_from_server_to_client (request_view req) = from_server_to_client opts"
    "req_transfer_info (request_view req) = req_transfer_info req" using f by (simp_all add: request_view_def)
  have ok: "resp_error_code resp = 0" using rsp by (auto simp: client_response_def split: if_splits)
  with response_tells_lemma [OF srv v(3,2)] obtain t where t: "ts = Some t"
    "transfer_ready (request_view req) n_server (resp_transfer_info resp) t" by auto
  show ?thesis
  proof (cases "from_server_to_client opts")
    case True
    then obtain src where src: "t = Transfer_source src" "source_ready src" "resp_transfer_info resp = src_info src" "src_info src \<noteq> None"
      using t(2) view(1) by (cases t) auto
    then obtain info where info: "src_info src = Some info" by blast
    have tc: "tc = Transfer_destination (transfer_destination_ctor (hp_path (arg_to_path opts)))"
      using prep True by (simp add: client_init_transfer_def)
    from rsp ok True src info tc obtain dst where
      "dest_init_transfer_info pxc info n_client (transfer_destination_ctor (hp_path (arg_to_path opts)), wc1) = (Ret (), (dst, wc2))"
      "tc1 = Transfer_destination dst"
      by (auto simp: client_response_def split: prod.splits outcome.splits cpp_exception.splits)
    with dest_init_ready [OF _ v(1)] True src t(1) info show ?thesis by auto
  next
    case False
    obtain dst info where dst: "t = Transfer_destination dst" "req_transfer_info req = Some info" "dest_ready info (unat n_server) dst"
      using t(2) view False by (cases t) auto
    obtain src b where src: "tc = Transfer_source src"
      "transfer_source_ctor pxc (hp_path (arg_from_path opts)) b (arg_recursive opts) wc = (Ret (), (src, wc1))"
      using prep False by (auto simp: client_init_transfer_def split: option.splits prod.splits outcome.splits cpp_exception.splits)
    have "source_ready src" by (rule source_ctor_ready [OF src(2)])
    moreover have "src_info src = Some info" using f(4) False dst(2) src(1) by (auto split: option.splits)
    moreover have "tc1 = tc" using rsp False ok by (auto simp: client_response_def split: if_splits)
    ultimately show ?thesis using False dst t(1) src(1) by auto
  qed
qed

text \<open>The source and the destination among the client's and the server's transfer.\<close>

fun transfer_ends :: "transfer \<Rightarrow> transfer \<Rightarrow> (transfer_source \<times> transfer_destination) option" where
  "transfer_ends (Transfer_source src) (Transfer_destination dst) = Some (src, dst)"
| "transfer_ends (Transfer_destination dst) (Transfer_source src) = Some (src, dst)"
| "transfer_ends _ _ = None"

text \<open>Whichever way a request goes, the two sides end up with the two ends of one transfer.\<close>

lemma negotiated_ends:
  assumes "client_init_transfer pxc opts wc = (Ret True, Some tc, wc1)" and "client_request opts tc = Ret req"
    and "handle_request env pxs n_server (request_view req) ws = (Ret resp, Some ts, ws1)"
    and "client_response pxc opts n_client resp (tc, wc1) = (Ret True, (tc1, wc2))"
    and "opens_valid pxc" and "opens_valid pxs" and "errno_nonzero pxs"
    and "C = unat (if from_server_to_client opts then n_client else n_server)"
  obtains src dst info where "transfer_ends tc1 ts = Some (src, dst)" "source_ready src" "src_info src = Some info"
    "dest_ready info C dst"
proof -
  from negotiated_transfer [OF assms(1-7)] obtain src dst info where
    t: "if from_server_to_client opts then Some ts = Some (Transfer_source src) \<and> tc1 = Transfer_destination dst
        else tc1 = Transfer_source src \<and> Some ts = Some (Transfer_destination dst)"
    and r: "source_ready src" "src_info src = Some info" "dest_ready info C dst" unfolding assms(8) by blast
  have "transfer_ends tc1 ts = Some (src, dst)" using t by (cases "from_server_to_client opts") auto
  with r show thesis by (rule that [rotated])
qed

text \<open>A copy that client and server have negotiated is a copy, in both directions: the client prepares its transfer and
  sends its request, the server answers it without an error, and the client accepts the answer. Then
  one of them has a source and the other a destination, and whichever way their channels interleave,
  if those of the destination all return successfully, each file has the bytes of the source's.\<close>

lemma negotiated_copy:
  assumes "client_init_transfer pxc opts wc = (Ret True, Some tc, wc1)" and "client_request opts tc = Ret req"
    and "handle_request env pxs n_server (request_view req) ws = (Ret resp, Some ts, ws1)"
    and "client_response pxc opts n_client resp (tc, wc1) = (Ret True, (tc1, wc2))"
    and "opens_valid pxc" and "opens_valid pxs" and "errno_nonzero pxs"
    and "C = unat (if from_server_to_client opts then n_client else n_server)"
  shows "\<exists>src dst info. transfer_ends tc1 ts = Some (src, dst) \<and> src_info src = Some info
    \<and> (\<forall>contents ss ds h g ms s n. files_stable contents C info src \<longrightarrow> (\<forall>k<C. outbox (ss k) = [])
        \<longrightarrow> xfer_run h g contents C ms (transfer_start src dst ss ds) = Some s
        \<longrightarrow> (\<forall>k<C. dc_pc (cn_dst (xf_conns s k)) = Dst_returned True) \<longrightarrow> n < length (files_info info)
        \<longrightarrow> contents (src_handle (send_ctx src ! n)) = Some (dst_pages (recv_ctx (xf_dst s) ! n)))"
proof -
  from negotiated_ends [OF assms] obtain src dst info where "transfer_ends tc1 ts = Some (src, dst)"
    and r: "source_ready src" "src_info src = Some info" "dest_ready info C dst" .
  with ready_copy [OF r(1,2) dest_ready_sized [OF r(3)]] show ?thesis by blast
qed

text \<open>A download with two channels of \<open>/a\<close> on the server to \<open>b\<close> on the client.\<close>

definition download_opts :: xcp_program_options where
  "download_opts = \<lparr>arg_port = None, arg_from_path = \<lparr>hp_user = None, hp_host = Some ''h'', hp_path = ''/a''\<rparr>,
     arg_to_path = \<lparr>hp_user = None, hp_host = None, hp_path = ''b''\<rparr>, arg_transfer_block_size = Some 2, arg_user = None,
     arg_recursive = False, from_server_to_client = True, server_portal = endpoint_new, server_user = empty_user_name\<rparr>"

definition download_px :: "unit posix" where
  "download_px = copy_px\<lparr>px_status := (\<lambda>p w. Inr (Ft_regular, 420))\<rparr>"

lemma download_source: "transfer_source_ctor download_px ''/a'' 2 False () = (Ret (), (demo_source, ()))"
  by (simp add: transfer_source_ctor_def source_open_def source_prepare_regular_file_def source_open_regular_file_def
      source_new_def add_source_file_def copy_px_def download_px_def seq_st_def assert_st_def sweep_scope_def
      path_filename_def PERM_MASK_def MAX_TRANSFER_BLOCK_SIZE_def demo_source_def demo_info_def)

lemma download_negotiated:
  "\<exists>req. client_init_transfer copy_px download_opts () = (Ret True, Some (Transfer_destination (transfer_destination_ctor ''b'')), ())
    \<and> client_request download_opts (Transfer_destination (transfer_destination_ctor ''b'')) = Ret req
    \<and> handle_request demo_env download_px 2 (request_view req) () = (Ret (response 0 [] (Some demo_info)), Some (Transfer_source demo_source), ())
    \<and> client_response copy_px download_opts 2 (response 0 [] (Some demo_info)) (Transfer_destination (transfer_destination_ctor ''b''), ())
        = (Ret True, (Transfer_destination demo_destination, ()))"
proof -
  have info: "src_info demo_source = Some demo_info" by (simp add: demo_source_def)
  show ?thesis
    by (simp add: client_init_transfer_def download_opts_def client_request_def request_view_def handle_request_def
        resolve_server_path_def is_relative_def is_absolute_def create_transfer_def download_source info
        client_response_def response_def copy_px_destination)
qed

text \<open>What a theorem on its transfer says of the run of \<open>Transfer_Correct\<close>.\<close>

lemma download_copied:
  assumes "\<forall>contents ss ds h g ms s n. files_stable contents 2 demo_info demo_source \<longrightarrow> (\<forall>k<2. outbox (ss k) = [])
      \<longrightarrow> xfer_run h g contents 2 ms (transfer_start demo_source demo_destination ss ds) = Some s
      \<longrightarrow> (\<forall>k<2. dc_pc (cn_dst (xf_conns s k)) = Dst_returned True) \<longrightarrow> n < length (files_info demo_info)
      \<longrightarrow> contents (src_handle (send_ctx demo_source ! n)) = Some (dst_pages (recv_ctx (xf_dst s) ! n))"
  shows "demo_contents (src_handle (send_ctx demo_source ! 0)) = Some (dst_pages (recv_ctx (xf_dst demo_final) ! 0))"
proof -
  have stable: "files_stable demo_contents 2 demo_info demo_source"
    by (simp add: files_stable_def demo_source_def demo_info_def demo_contents_def)
  have run: "xfer_run LittleEndian BigEndian demo_contents 2 demo_schedule
      (transfer_start demo_source demo_destination (\<lambda>_. sc_sock (cn_src demo_conn)) (\<lambda>_. dc_sock (cn_dst demo_conn))) = Some demo_final"
    using demo_run unfolding demo_start_eq by (auto simp: demo_final_def)
  have len: "0 < length (files_info demo_info)" by (simp add: demo_info_def)
  show ?thesis
    by (rule assms [rule_format, OF stable _ run _ len]) (simp_all add: demo_conn_def demo_final_returned)
qed

section \<open>Accepted options never abort the source\<close>

lemma source_walk_no_abort: "fst (source_walk px d es s) \<noteq> Abort"
proof (induction px d es s rule: source_walk.induct)
  case (3 px d e es err s)
  have "fst (source_open_regular_file px (entry_path e) s) \<noteq> Abort"
    by (auto simp: source_open_regular_file_def split: prod.splits sum.splits)
  then show ?case using "3.IH" by (auto simp: seq_st_def Let_def split: prod.splits outcome.splits)
qed simp_all

lemma source_open_no_abort:
  assumes "src_info (fst s) = None"
  shows "fst (source_open px path r s) \<noteq> Abort"
proof -
  obtain src w where s: "s = (src, w)" by (cases s)
  have o: "fst (source_open_regular_file px path t) \<noteq> Abort" for t
    by (auto simp: source_open_regular_file_def split: prod.splits sum.splits)
  have "fst (source_prepare_regular_file px path s) \<noteq> Abort"
    using assms o by (auto simp: source_prepare_regular_file_def seq_st_def split: prod.splits outcome.splits) (metis fst_conv)
  moreover have "fst (source_prepare_directory px path s) \<noteq> Abort"
    using assms by (auto simp: s source_prepare_directory_def source_walk_no_abort seq_st_def Let_def split: sum.splits prod.splits)
  ultimately show ?thesis by (auto simp: source_open_def split: sum.splits prod.splits)
qed

text \<open>Once \<open>post_process\<close> has accepted the options, preparing the transfer cannot fail an assertion, whatever block
  size was asked for and whatever the file system says.\<close>

theorem accepted_options_prepare:
  assumes "xcp_post_process getaddrinfo uenv h o1 = (Ret True, opts)"
  shows "fst (client_init_transfer px opts w) \<noteq> Abort"
proof -
  obtain b where b: "arg_transfer_block_size opts = Some b" "b \<le> ucast MAX_TRANSFER_BLOCK_SIZE"
    using accepted_block_size [OF assms] by blast
  have "unat b \<le> 1073741824" using b(2) by (simp add: MAX_TRANSFER_BLOCK_SIZE_def word_le_nat_alt)
  then have "unat (ucast b :: u32) = unat b" by (simp add: unat_word_of_nat_small unsigned_ucast_eq take_bit_eq_mod)
  then have "b \<noteq> 0 \<Longrightarrow> (ucast b :: u32) \<noteq> 0" by (metis unat_0 unat_gt_0 less_irrefl)
  then have pos: "0 < init_transfer_block_size (source_new b)"
    by (auto simp: source_new_def TRANSFER_BLOCK_SIZE_INIT_def word_neq_0_conv)
  have none: "src_info (source_new b) = None" by (simp add: source_new_def)
  have ctor: "fst (transfer_source_ctor px path b r w) \<noteq> Abort" for path r
  proof -
    obtain q s where o: "source_open px path r (source_new b, w) = (q, s)" by (metis surj_pair)
    with source_open_no_abort [of "(source_new b, w)" px path r] none have "q \<noteq> Abort" by auto
    with o show ?thesis
      by (cases q) (simp_all add: transfer_source_ctor_def pos b(2) sweep_scope_def seq_st_def)
  qed
  obtain r src w1 where c: "transfer_source_ctor px (hp_path (arg_from_path opts)) b (arg_recursive opts) w = (r, (src, w1))"
    by (metis prod.exhaust)
  have "r \<noteq> Abort" using ctor [of "hp_path (arg_from_path opts)" "arg_recursive opts"] c by simp
  show ?thesis
  proof (cases r)
    case (Throw e)
    then show ?thesis using b(1) c by (cases e) (simp_all add: client_init_transfer_def)
  qed (use b(1) c \<open>r \<noteq> Abort\<close> in \<open>simp_all add: client_init_transfer_def\<close>)
qed

theorem accepted_options_prepare_witness:
  "\<exists>opts. xcp_post_process demo_resolver demo_env LittleEndian demo_args = (Ret True, opts)
    \<and> fst (client_init_transfer copy_px opts ()) \<noteq> Abort"
proof -
  obtain opts where o: "xcp_post_process demo_resolver demo_env LittleEndian demo_args = (Ret True, opts)"
    using demo_args_accepted by (cases "xcp_post_process demo_resolver demo_env LittleEndian demo_args") simp
  show ?thesis by (intro exI [of _ opts] conjI o accepted_options_prepare [OF o])
qed

section \<open>The exit status\<close>

definition TRANSFER_UNKNOWN :: c_int where
  "TRANSFER_UNKNOWN = 0"

definition TRANSFER_FAILED :: c_int where
  "TRANSFER_FAILED = 1"

definition TRANSFER_SUCCEEDED :: c_int where
  "TRANSFER_SUCCEEDED = 2"

text \<open>What \<open>invoke_portal\<close> and \<open>invoke_channel\<close> return, in the order in which the threads record it.\<close>

datatype result_event = Portal_result bool | Channel_result bool

fun record_result :: "result_event \<Rightarrow> c_int \<Rightarrow> c_int" where
  "record_result (Portal_result success) status =
     (if \<not> success then TRANSFER_FAILED else if status = TRANSFER_UNKNOWN then TRANSFER_SUCCEEDED else status)"
| "record_result (Channel_result success) status = (if \<not> success then TRANSFER_FAILED else status)"

text \<open>
  \<open>main\<close> of \<open>xcp\<close> after the arguments are parsed. It reads the status after \<open>dispose\<close>, which joins the
  threads, so after all of \<open>events\<close>.
\<close>

definition xcp_main :: "bool \<Rightarrow> bool \<Rightarrow> result_event list \<Rightarrow> c_int" where
  "xcp_main options_ok init_ok events =
     (if \<not> options_ok then 1
      else if \<not> init_ok then 1
      else let success = (fold record_result events TRANSFER_UNKNOWN = TRANSFER_SUCCEEDED)
        in if success then 0 else 1)"

definition any_failed :: "result_event list \<Rightarrow> bool" where
  "any_failed events \<longleftrightarrow> Portal_result False \<in> set events \<or> Channel_result False \<in> set events"

lemma record_results:
  "fold record_result events st =
     (if any_failed events then TRANSFER_FAILED
      else if st = TRANSFER_UNKNOWN \<and> Portal_result True \<in> set events then TRANSFER_SUCCEEDED else st)"
  if "st = TRANSFER_UNKNOWN \<or> st = TRANSFER_FAILED \<or> st = TRANSFER_SUCCEEDED"
  using that
proof (induction events arbitrary: st)
  case (Cons e events)
  have s: "TRANSFER_UNKNOWN \<noteq> TRANSFER_FAILED" "TRANSFER_UNKNOWN \<noteq> TRANSFER_SUCCEEDED" "TRANSFER_FAILED \<noteq> TRANSFER_SUCCEEDED"
    by (simp_all add: TRANSFER_UNKNOWN_def TRANSFER_FAILED_def TRANSFER_SUCCEEDED_def)
  have "record_result e st = TRANSFER_UNKNOWN \<or> record_result e st = TRANSFER_FAILED \<or> record_result e st = TRANSFER_SUCCEEDED"
    using Cons.prems by (cases e) auto
  from Cons.IH [OF this] Cons.prems s show ?case
    by (cases e) (auto simp: any_failed_def)
qed (simp add: any_failed_def)

text \<open>C40: \<open>xcp\<close> exits with 0 if and only if its options were accepted, its portal was set up, the transfer succeeded on the
  portal, and no channel reported a failure, in whatever order the threads finish.\<close>

theorem exit_status_truthful:
  "xcp_main options_ok init_ok events = 0 \<longleftrightarrow> options_ok \<and> init_ok \<and> Portal_result True \<in> set events \<and> \<not> any_failed events"
proof -
  have "TRANSFER_UNKNOWN \<noteq> TRANSFER_SUCCEEDED" "TRANSFER_FAILED \<noteq> TRANSFER_SUCCEEDED"
    by (simp_all add: TRANSFER_UNKNOWN_def TRANSFER_FAILED_def TRANSFER_SUCCEEDED_def)
  then show ?thesis by (simp add: xcp_main_def record_results Let_def)
qed

section \<open>Progress\<close>

record report_progress_context =
  pr_busy :: bool
  first_msec :: u64
  first_transferred :: u64
  last_msec :: u64

definition progress_start :: "u64 \<Rightarrow> report_progress_context" where
  "progress_start now = \<lparr>pr_busy = False, first_msec = 0, first_transferred = 0, last_msec = now\<rparr>"

text \<open>The callback; the result tells whether it prints.\<close>

definition report_progress :: "u64 \<Rightarrow> u64 \<Rightarrow> report_progress_context \<Rightarrow> bool \<times> report_progress_context" where
  "report_progress now transferred ctx =
     (if pr_busy ctx then (False, ctx)
      else if first_msec ctx = 0 then
        (if sint (now - last_msec ctx) < 3000 then (False, ctx)
         else (False, ctx\<lparr>first_msec := now, first_transferred := transferred, last_msec := now\<rparr>))
      else if sint (now - last_msec ctx) < 1000 then (False, ctx)
      else (True, ctx\<lparr>last_msec := now\<rparr>))"

text \<open>The times at which calls at given times print.\<close>

fun progress_times :: "(u64 \<times> u64) list \<Rightarrow> report_progress_context \<Rightarrow> u64 list" where
  "progress_times [] ctx = []"
| "progress_times ((now, transferred) # calls) ctx = (case report_progress now transferred ctx of
     (printed, ctx') \<Rightarrow> (if printed then [now] else []) @ progress_times calls ctx')"

lemma sint_small64: "unat x < 2 ^ 63 \<Longrightarrow> sint (x :: u64) = int (unat x)"
proof -
  assume "unat x < 2 ^ 63"
  moreover have "uint x = int (unat x)" by simp
  ultimately have "uint x < 2 ^ 63" by (metis of_nat_less_iff of_nat_numeral of_nat_power)
  moreover have "0 \<le> uint x" by simp
  ultimately have "signed_take_bit 63 (uint x) = uint x" by (intro signed_take_bit_int_eq_self) linarith+
  then show ?thesis by (simp add: sint_uint)
qed

lemma sint_elapsed:
  assumes "unat t0 \<le> unat now" and "unat now < 2 ^ 63"
  shows "sint (now - t0 :: u64) = int (unat now - unat t0)"
proof -
  have u: "unat (now - t0) = unat now - unat t0" using assms(1) by (simp add: unat_sub word_le_nat_alt)
  with assms(2) have "unat (now - t0) < 2 ^ 63" by linarith
  from sint_small64 [OF this] show ?thesis by (simp only: u)
qed

lemma elapsed_less:
  assumes "unat t0 \<le> unat now" and "unat now < 2 ^ 63"
  shows "sint (now - t0 :: u64) < int n \<longleftrightarrow> unat now < unat t0 + n"
  using sint_elapsed [OF assms] assms(1) by linarith

lemma progress_spaced:
  assumes "sorted (map (\<lambda>c. unat (fst c)) calls)" and "\<forall>(now, _) \<in> set calls. unat (last_msec ctx) \<le> unat now \<and> unat now < 2 ^ 63"
  shows "sorted_wrt (\<lambda>a b. unat a + 1000 \<le> unat b) (progress_times calls ctx)
    \<and> (\<forall>t \<in> set (progress_times calls ctx). unat (last_msec ctx) + 1000 \<le> unat t)"
  using assms
proof (induction calls arbitrary: ctx)
  case (Cons c calls)
  obtain now tr where c: "c = (now, tr)" by force
  obtain printed ctx' where r: "report_progress now tr ctx = (printed, ctx')" by force
  have le: "unat (last_msec ctx) \<le> unat now" "unat now < 2 ^ 63" using Cons.prems(2) c by simp_all
  have e: "sint (now - last_msec ctx) < 1000 \<longleftrightarrow> unat now < unat (last_msec ctx) + 1000" "unat (last_msec ctx) \<le> unat now"
    using elapsed_less [OF le, of 1000] le(1) by simp_all
  from r have l: "last_msec ctx' = last_msec ctx \<or> last_msec ctx' = now" "printed \<longrightarrow> last_msec ctx' = now \<and> unat (last_msec ctx) + 1000 \<le> unat now"
    using e by (auto simp: report_progress_def split: if_splits)
  have "sorted (map (\<lambda>c. unat (fst c)) calls)" using Cons.prems(1) by simp
  moreover have "\<forall>(t, _) \<in> set calls. unat (last_msec ctx') \<le> unat t \<and> unat t < 2 ^ 63"
    using Cons.prems l(1) c by (auto split: prod.splits)
  ultimately have IH: "sorted_wrt (\<lambda>a b. unat a + 1000 \<le> unat b) (progress_times calls ctx')"
    "\<forall>t \<in> set (progress_times calls ctx'). unat (last_msec ctx') + 1000 \<le> unat t" using Cons.IH by blast+
  with l e(2) c r show ?case by (auto split: if_splits)
qed simp

lemma progress_quiet:
  assumes "sorted (map (\<lambda>c. unat (fst c)) calls)" and "\<forall>(now, _) \<in> set calls. unat (last_msec ctx) \<le> unat now \<and> unat now < 2 ^ 63"
    and "first_msec ctx = 0" and "\<not> pr_busy ctx" and "t \<in> set (progress_times calls ctx)"
  shows "unat (last_msec ctx) + 4000 \<le> unat t"
  using assms
proof (induction calls)
  case (Cons c calls)
  obtain now tr where c: "c = (now, tr)" by force
  have le: "unat (last_msec ctx) \<le> unat now" "unat now < 2 ^ 63" using Cons.prems(2) c by simp_all
  have e: "sint (now - last_msec ctx) < 3000 \<longleftrightarrow> unat now < unat (last_msec ctx) + 3000"
    using elapsed_less [OF le, of 3000] by simp
  show ?case
  proof (cases "unat now < unat (last_msec ctx) + 3000")
    case True
    with e Cons.prems(3,4,5) c have "t \<in> set (progress_times calls ctx)" by (simp add: report_progress_def)
    with Cons.IH Cons.prems show ?thesis by simp
  next
    case False
    let ?ctx = "ctx\<lparr>first_msec := now, first_transferred := tr, last_msec := now\<rparr>"
    from False e Cons.prems(3,4,5) c have "t \<in> set (progress_times calls ?ctx)" by (simp add: report_progress_def)
    moreover have "\<forall>(t, _) \<in> set calls. unat (last_msec ?ctx) \<le> unat t \<and> unat t < 2 ^ 63"
      using Cons.prems(1,2) c by (auto split: prod.splits)
    moreover have "sorted (map (\<lambda>c. unat (fst c)) calls)" using Cons.prems(1) by simp
    ultimately have "unat (last_msec ?ctx) + 1000 \<le> unat t" using progress_spaced by blast
    with False show ?thesis by simp
  qed
qed simp

text \<open>With a clock that does not go back, \<open>xcp\<close> prints its progress at most once in a second, and not in the first four.\<close>

theorem progress_rate:
  assumes "sorted (map (\<lambda>c. unat (fst c)) calls)" and "\<forall>(now, _) \<in> set calls. unat t0 \<le> unat now \<and> unat now < 2 ^ 63"
  shows "sorted_wrt (\<lambda>a b. unat a + 1000 \<le> unat b) (progress_times calls (progress_start t0))
    \<and> (\<forall>t \<in> set (progress_times calls (progress_start t0)). unat t0 + 4000 \<le> unat t)"
  using progress_spaced [of calls "progress_start t0"] progress_quiet [of calls "progress_start t0"] assms
  by (simp add: progress_start_def)

theorem progress_rate_witness:
  "progress_times [(10500, 1), (13500, 2), (14000, 3), (14600, 4)] (progress_start 10000) = [14600] \<and> 10000 + 4000 \<le> unat (14600 :: u64)"
proof -
  have p: "progress_times [(10500, 1), (13500, 2), (14000, 3), (14600, 4)] (progress_start 10000) = [14600]"
    by (simp add: progress_start_def report_progress_def)
  from progress_rate [of "[(10500, 1), (13500, 2), (14000, 3), (14600, 4)]" 10000] p show ?thesis by simp
qed

end
