(* ===== verification/Session.thy ===== *)
theory Session
  imports Gate
begin

text \<open>
  A client of the server as its threads see it (\<open>client_instance\<close> in \<open>server.h\<close> and \<open>server.cpp\<close>):
  the portal thread in \<open>fn_portal\<close>, the channel threads in \<open>fn_channel\<close> and the thread that
  \<open>async_dispose\<close> starts for \<open>dispose_impl\<close>. A step is one access to the gates, to the pointer
  \<open>transfer\<close> or to the dispose status; what a thread exchanges with its peer is told by an argument
  of the step.
\<close>

datatype transfer_ptr = Tr_null | Tr_live | Tr_freed

datatype portal_pc =
    P_request \<comment> \<open>up to the creation of \<open>transfer\<close>\<close>
  | P_wait \<comment> \<open>in \<open>gate_all_channel_repeats_connected.wait()\<close>\<close>
  | P_respond \<comment> \<open>sending the response\<close>
  | P_ready \<comment> \<open>about to signal \<open>gate_portal_ready_to_transfer\<close>\<close>
  | P_transfer \<comment> \<open>in \<open>transfer->invoke_portal\<close>\<close>
  | P_done
  | P_crashed

datatype channel_pc =
    C_absent
  | C_accepted \<comment> \<open>about to signal \<open>gate_all_channel_repeats_connected\<close>\<close>
  | C_wait \<comment> \<open>in \<open>gate_portal_ready_to_transfer.wait()\<close>\<close>
  | C_invoke \<comment> \<open>found no dispose required, about to use \<open>transfer\<close>\<close>
  | C_running \<comment> \<open>in \<open>transfer->invoke_channel\<close>\<close>
  | C_done
  | C_crashed

text \<open>How far \<open>dispose_impl\<close> has come.\<close>

datatype disposer_pc = D_none | D_start | D_conn_forced | D_ready_forced | D_reset | D_portal_joined | D_finished

record session =
  se_conn_gate :: gate_guard
  se_ready_gate :: gate_guard
  se_transfer :: transfer_ptr
  se_portal :: portal_pc
  se_chans :: "nat \<Rightarrow> channel_pc"
  se_disposer :: disposer_pc

definition session_start :: "u64 \<Rightarrow> session" where
  "session_start n = \<lparr>se_conn_gate = snd (gate_init n gate_new), se_ready_gate = snd (gate_init 1 gate_new),
     se_transfer = Tr_null, se_portal = P_request, se_chans = (\<lambda>_. C_absent), se_disposer = D_none\<rparr>"

definition disposing :: "session \<Rightarrow> bool" where
  "disposing s \<longleftrightarrow> se_disposer s \<noteq> D_none"

definition request_dispose :: "session \<Rightarrow> session" where
  "request_dispose s = (if se_disposer s = D_none then s\<lparr>se_disposer := D_start\<rparr> else s)"

section \<open>The threads\<close>

text \<open>How a stage of a thread ends: \<open>Init_failed\<close> is an error after \<open>transfer\<close> has been set.\<close>

datatype stage_end = Stage_ok | Stage_failed | Init_failed

text \<open>Every return of \<open>fn_portal\<close> runs \<open>async_dispose(false)\<close>. \<open>None\<close>: the thread is blocked or gone.\<close>

definition portal_exit :: "session \<Rightarrow> session" where
  "portal_exit s = request_dispose (s\<lparr>se_portal := P_done\<rparr>)"

definition fn_portal :: "stage_end \<Rightarrow> session \<Rightarrow> session option" where
  "fn_portal e s = (case se_portal s of
       P_request \<Rightarrow> (case e of
           Stage_ok \<Rightarrow> Some (s\<lparr>se_transfer := Tr_live, se_portal := P_wait\<rparr>)
         | Stage_failed \<Rightarrow> Some (portal_exit s)
         | Init_failed \<Rightarrow> Some (portal_exit (s\<lparr>se_transfer := Tr_live\<rparr>)))
     | P_wait \<Rightarrow> (case gate_wait (se_conn_gate s) of
           Ret None \<Rightarrow> None
         | Ret (Some _) \<Rightarrow> Some (if disposing s then portal_exit s else s\<lparr>se_portal := P_respond\<rparr>)
         | _ \<Rightarrow> Some (s\<lparr>se_portal := P_crashed\<rparr>))
     | P_respond \<Rightarrow> Some (if e = Stage_ok then s\<lparr>se_portal := P_ready\<rparr> else portal_exit s)
     | P_ready \<Rightarrow> (case gate_signal (se_ready_gate s) of
           (Ret _, g) \<Rightarrow> Some (s\<lparr>se_ready_gate := g, se_portal := P_transfer\<rparr>)
         | _ \<Rightarrow> Some (s\<lparr>se_portal := P_crashed\<rparr>))
     | P_transfer \<Rightarrow> Some (if se_transfer s = Tr_live then portal_exit s else s\<lparr>se_portal := P_crashed\<rparr>)
     | P_done \<Rightarrow> None
     | P_crashed \<Rightarrow> None)"

definition chan_goto :: "nat \<Rightarrow> channel_pc \<Rightarrow> session \<Rightarrow> session" where
  "chan_goto k p s = s\<lparr>se_chans := (se_chans s)(k := p)\<rparr>"

text \<open>
  A channel is added under the lock that the rundown closes. \<open>fn_channel\<close> requires the disposal
  unless the transfer succeeded.
\<close>

definition fn_channel :: "stage_end \<Rightarrow> nat \<Rightarrow> session \<Rightarrow> session option" where
  "fn_channel e k s = (case se_chans s k of
       C_absent \<Rightarrow> if se_disposer s = D_portal_joined \<or> se_disposer s = D_finished then None else Some (chan_goto k C_accepted s)
     | C_accepted \<Rightarrow> (case gate_signal (se_conn_gate s) of
           (Ret _, g) \<Rightarrow> Some (chan_goto k C_wait (s\<lparr>se_conn_gate := g\<rparr>))
         | _ \<Rightarrow> Some (chan_goto k C_crashed s))
     | C_wait \<Rightarrow> (case gate_wait (se_ready_gate s) of
           Ret None \<Rightarrow> None
         | Ret (Some _) \<Rightarrow> Some (if disposing s then request_dispose (chan_goto k C_done s) else chan_goto k C_invoke s)
         | _ \<Rightarrow> Some (chan_goto k C_crashed s))
     | C_invoke \<Rightarrow> Some (if se_transfer s = Tr_live then chan_goto k C_running s else chan_goto k C_crashed s)
     | C_running \<Rightarrow> Some (if se_transfer s \<noteq> Tr_live then chan_goto k C_crashed s
         else if e = Stage_ok then chan_goto k C_done s else request_dispose (chan_goto k C_done s))
     | C_done \<Rightarrow> None
     | C_crashed \<Rightarrow> None)"

text \<open>
  \<open>dispose_impl\<close>: both gates are forced, \<open>transfer\<close> is reset, which frees the object as nobody
  else holds it, and then the threads are joined.
\<close>

definition session_dispose_impl :: "session \<Rightarrow> session option" where
  "session_dispose_impl s = (case se_disposer s of
       D_none \<Rightarrow> None
     | D_start \<Rightarrow> Some (s\<lparr>se_disposer := D_conn_forced,
         se_conn_gate := (if gate_initialized (se_conn_gate s) then snd (gate_force_signal_all (se_conn_gate s)) else se_conn_gate s)\<rparr>)
     | D_conn_forced \<Rightarrow> Some (s\<lparr>se_disposer := D_ready_forced,
         se_ready_gate := (if gate_initialized (se_ready_gate s) then snd (gate_force_signal_all (se_ready_gate s)) else se_ready_gate s)\<rparr>)
     | D_ready_forced \<Rightarrow> Some (s\<lparr>se_disposer := D_reset,
         se_transfer := (if se_transfer s = Tr_live then Tr_freed else se_transfer s)\<rparr>)
     | D_reset \<Rightarrow> if se_portal s = P_done then Some (s\<lparr>se_disposer := D_portal_joined\<rparr>) else None
     | D_portal_joined \<Rightarrow> None
     | D_finished \<Rightarrow> None)"

text \<open>
  The last join waits for every channel thread; a later step as it looks at all of them. The
  disposal can also be required from outside, by that of the portal.
\<close>

inductive session_step :: "session \<Rightarrow> session \<Rightarrow> bool" where
  portal_moves: "fn_portal e s = Some s' \<Longrightarrow> session_step s s'"
| channel_moves: "fn_channel e k s = Some s' \<Longrightarrow> session_step s s'"
| disposer_moves: "session_dispose_impl s = Some s' \<Longrightarrow> session_step s s'"
| channels_joined: "se_disposer s = D_portal_joined \<Longrightarrow> \<forall>k. se_chans s k = C_absent \<or> se_chans s k = C_done
    \<Longrightarrow> session_step s (s\<lparr>se_disposer := D_finished\<rparr>)"
| disposal_required: "session_step s (request_dispose s)"

inductive session_reachable :: "u64 \<Rightarrow> session \<Rightarrow> bool" for n where
  session_first: "0 < n \<Longrightarrow> n \<noteq> INVALID_SIGNAL_COUNT \<Longrightarrow> session_reachable n (session_start n)"
| session_next: "session_reachable n s \<Longrightarrow> session_step s s' \<Longrightarrow> session_reachable n s'"

section \<open>The invariant\<close>

definition connected :: "session \<Rightarrow> nat set" where
  "connected s = {k. se_chans s k \<noteq> C_absent \<and> se_chans s k \<noteq> C_accepted}"

definition before_reset :: "session \<Rightarrow> bool" where
  "before_reset s \<longleftrightarrow> se_disposer s \<in> {D_none, D_start, D_conn_forced, D_ready_forced}"

definition session_inv :: "u64 \<Rightarrow> session \<Rightarrow> bool" where
  "session_inv n s \<longleftrightarrow> gate_valid (se_conn_gate s) \<and> gate_valid (se_ready_gate s) \<and> finite (connected s)
     \<and> (se_disposer s \<in> {D_none, D_start} \<longrightarrow> gate_needed (se_conn_gate s) = unat n - card (connected s))
     \<and> (se_disposer s \<in> {D_none, D_start, D_conn_forced} \<longrightarrow> gate_needed (se_ready_gate s) = 0 \<longrightarrow> se_portal s \<in> {P_transfer, P_done, P_crashed})
     \<and> (before_reset s \<longrightarrow> se_transfer s \<noteq> Tr_freed)
     \<and> (se_portal s \<in> {P_wait, P_respond, P_ready, P_transfer} \<longrightarrow> se_transfer s \<noteq> Tr_null)
     \<and> (\<not> disposing s \<longrightarrow> se_portal s \<in> {P_respond, P_ready, P_transfer} \<longrightarrow> unat n \<le> card (connected s))
     \<and> (\<not> disposing s \<longrightarrow> se_portal s \<noteq> P_done \<and> se_portal s \<noteq> P_crashed)
     \<and> (\<not> disposing s \<longrightarrow> (\<forall>k. (se_chans s k = C_invoke \<or> se_chans s k = C_running \<longrightarrow> se_portal s = P_transfer) \<and> se_chans s k \<noteq> C_crashed))"

lemma request_dispose_simps [simp]:
  "disposing (request_dispose s)" "se_portal (request_dispose s) = se_portal s" "se_chans (request_dispose s) = se_chans s"
  "se_transfer (request_dispose s) = se_transfer s" "se_conn_gate (request_dispose s) = se_conn_gate s"
  "se_ready_gate (request_dispose s) = se_ready_gate s" "connected (request_dispose s) = connected s"
  "before_reset (request_dispose s) = before_reset s"
  by (simp_all add: request_dispose_def disposing_def connected_def before_reset_def)

lemma request_dispose_disposer: "se_disposer (request_dispose s) = (if se_disposer s = D_none then D_start else se_disposer s)"
  by (simp add: request_dispose_def)

lemma session_inv_start:
  assumes "0 < n" and "n \<noteq> INVALID_SIGNAL_COUNT"
  shows "session_inv n (session_start n)"
proof -
  have g: "gate_valid (snd (gate_init m gate_new)) \<and> gate_needed (snd (gate_init m gate_new)) = unat m"
    if "0 < m" "m \<noteq> INVALID_SIGNAL_COUNT" for m
    using that by (simp add: gate_init_def gate_new_def gate_valid_def gate_needed_def gate_initialized_def)
  show ?thesis using g [OF assms] g [of 1]
    by (simp add: session_inv_def session_start_def connected_def before_reset_def disposing_def INVALID_SIGNAL_COUNT_def)
qed

lemma gate_signal_cases:
  assumes "gate_valid g"
  obtains g' where "gate_signal g = (Ret (), g')" "gate_valid g'" "gate_needed g' = gate_needed g - 1"
  using gate_signal_valid [OF assms] by blast

lemma gate_wait_cases: "gate_valid g \<Longrightarrow> gate_wait g = Ret (if gate_needed g = 0 then Some () else None)"
  by (rule gate.wait_needed)

text \<open>The pieces of the invariant, for a state given by its components.\<close>

lemma session_invD:
  assumes "session_inv n s"
  shows "gate_valid (se_conn_gate s)" "gate_valid (se_ready_gate s)" "finite (connected s)"
    "se_disposer s \<in> {D_none, D_start} \<Longrightarrow> gate_needed (se_conn_gate s) = unat n - card (connected s)"
    "se_disposer s \<in> {D_none, D_start, D_conn_forced} \<Longrightarrow> gate_needed (se_ready_gate s) = 0 \<Longrightarrow> se_portal s \<in> {P_transfer, P_done, P_crashed}"
    "before_reset s \<Longrightarrow> se_transfer s \<noteq> Tr_freed"
    "se_portal s \<in> {P_wait, P_respond, P_ready, P_transfer} \<Longrightarrow> se_transfer s \<noteq> Tr_null"
    "\<not> disposing s \<Longrightarrow> se_portal s \<in> {P_respond, P_ready, P_transfer} \<Longrightarrow> unat n \<le> card (connected s)"
    "\<not> disposing s \<Longrightarrow> se_portal s \<noteq> P_done \<and> se_portal s \<noteq> P_crashed"
    "\<not> disposing s \<Longrightarrow> se_chans s k = C_invoke \<or> se_chans s k = C_running \<Longrightarrow> se_portal s = P_transfer"
    "\<not> disposing s \<Longrightarrow> se_chans s k \<noteq> C_crashed"
    "\<not> disposing s \<Longrightarrow> se_chans s k = C_invoke \<Longrightarrow> se_portal s = P_transfer"
    "\<not> disposing s \<Longrightarrow> se_chans s k = C_running \<Longrightarrow> se_portal s = P_transfer"
  using assms unfolding session_inv_def by blast+

lemma not_disposing_before: "\<not> disposing s \<Longrightarrow> before_reset s"
  by (simp add: disposing_def before_reset_def)

text \<open>Requiring the disposal only weakens what is to be shown.\<close>

lemma session_inv_request: "session_inv n s \<Longrightarrow> session_inv n (request_dispose s)"
  by (cases "se_disposer s") (auto simp: session_inv_def request_dispose_def connected_def before_reset_def disposing_def)

lemma session_inv_exit:
  assumes "session_inv n s"
  shows "session_inv n (portal_exit s)"
  using session_invD [OF assms]
  by (cases "se_disposer s")
    (simp_all add: session_inv_def portal_exit_def request_dispose_def connected_def before_reset_def disposing_def)

lemma session_inv_portal:
  assumes inv: "session_inv n s" and m: "fn_portal e s = Some s'"
  shows "session_inv n s'"
proof -
  note I = session_invD [OF inv]
  have base: "connected (s\<lparr>se_portal := p\<rparr>) = connected s" "before_reset (s\<lparr>se_portal := p\<rparr>) = before_reset s"
    "disposing (s\<lparr>se_portal := p\<rparr>) = disposing s" for p
    by (simp_all add: connected_def before_reset_def disposing_def)
  have idle: "\<not> disposing s \<Longrightarrow> se_portal s \<noteq> P_transfer \<Longrightarrow> se_chans s k \<noteq> C_invoke \<and> se_chans s k \<noteq> C_running" for k
    using I(10) by blast
  show ?thesis
  proof (cases "se_portal s")
    case P_request
    have live: "session_inv n (s\<lparr>se_transfer := Tr_live\<rparr>)"
      using inv by (auto simp: session_inv_def connected_def before_reset_def disposing_def)
    show ?thesis
    proof (cases e)
      case Stage_ok
      with m P_request have s': "s' = s\<lparr>se_transfer := Tr_live, se_portal := P_wait\<rparr>" by (simp add: fn_portal_def)
      from I(5) P_request have "se_disposer s \<in> {D_none, D_start, D_conn_forced} \<Longrightarrow> gate_needed (se_ready_gate s) \<noteq> 0" by auto
      with I idle P_request show ?thesis
        unfolding s' session_inv_def connected_def before_reset_def disposing_def by simp
    next
      case Stage_failed
      with m P_request session_inv_exit [OF inv] show ?thesis by (simp add: fn_portal_def)
    next
      case Init_failed
      with m P_request session_inv_exit [OF live] show ?thesis by (simp add: fn_portal_def)
    qed
  next
    case P_wait
    from m P_wait gate_wait_cases [OF I(1)] have open_gate: "gate_needed (se_conn_gate s) = 0"
      and s': "s' = (if disposing s then portal_exit s else s\<lparr>se_portal := P_respond\<rparr>)"
      by (auto simp: fn_portal_def split: if_splits)
    show ?thesis
    proof (cases "disposing s")
      case True
      with s' session_inv_exit [OF inv] show ?thesis by simp
    next
      case False
      then have "unat n \<le> card (connected s)" using I(4) open_gate by (simp add: disposing_def)
      moreover from I(5) P_wait have "se_disposer s \<in> {D_none, D_start, D_conn_forced} \<Longrightarrow> gate_needed (se_ready_gate s) \<noteq> 0" by auto
      ultimately show ?thesis using False s' I idle P_wait by (simp add: session_inv_def base)
    qed
  next
    case P_respond
    from I(5) P_respond have n0: "se_disposer s \<in> {D_none, D_start, D_conn_forced} \<Longrightarrow> gate_needed (se_ready_gate s) \<noteq> 0" by auto
    show ?thesis
    proof (cases "e = Stage_ok")
      case True
      with m P_respond have "s' = s\<lparr>se_portal := P_ready\<rparr>" by (simp add: fn_portal_def)
      with n0 I idle P_respond show ?thesis by (simp add: session_inv_def base)
    next
      case False
      with m P_respond session_inv_exit [OF inv] show ?thesis by (simp add: fn_portal_def)
    qed
  next
    case P_ready
    obtain g where g: "gate_signal (se_ready_gate s) = (Ret (), g)" "gate_valid g" "gate_needed g = gate_needed (se_ready_gate s) - 1"
      by (rule gate_signal_cases [OF I(2)])
    with m P_ready have s': "s' = s\<lparr>se_ready_gate := g, se_portal := P_transfer\<rparr>" by (simp add: fn_portal_def)
    from I g(2) P_ready show ?thesis
      unfolding s' session_inv_def connected_def before_reset_def disposing_def by simp
  next
    case P_transfer
    show ?thesis
    proof (cases "se_transfer s = Tr_live")
      case True
      with m P_transfer session_inv_exit [OF inv] show ?thesis by (simp add: fn_portal_def)
    next
      case False
      with m P_transfer have s': "s' = s\<lparr>se_portal := P_crashed\<rparr>" by (simp add: fn_portal_def)
      have "se_transfer s = Tr_freed" using False I(7) P_transfer by (cases "se_transfer s") auto
      with I(6) not_disposing_before have "disposing s" "\<not> before_reset s" by blast+
      with I s' show ?thesis by (simp add: session_inv_def base)
    qed
  qed (use m in \<open>simp_all add: fn_portal_def\<close>)
qed

lemma chan_goto_simps [simp]:
  "se_conn_gate (chan_goto k p s) = se_conn_gate s" "se_ready_gate (chan_goto k p s) = se_ready_gate s"
  "se_transfer (chan_goto k p s) = se_transfer s" "se_portal (chan_goto k p s) = se_portal s"
  "se_disposer (chan_goto k p s) = se_disposer s" "se_chans (chan_goto k p s) = (se_chans s)(k := p)"
  "before_reset (chan_goto k p s) = before_reset s" "disposing (chan_goto k p s) = disposing s"
  by (simp_all add: chan_goto_def before_reset_def disposing_def)

lemma connected_goto:
  "p \<noteq> C_absent \<Longrightarrow> p \<noteq> C_accepted \<Longrightarrow> connected (chan_goto k p s) = insert k (connected s)"
  "p = C_absent \<or> p = C_accepted \<Longrightarrow> connected (chan_goto k p s) = connected s - {k}"
  by (auto simp: connected_def chan_goto_def)

text \<open>A channel that has signalled moves on, to the use of the transfer only while that is safe.\<close>

lemma session_inv_goto:
  assumes inv: "session_inv n s" and k: "k \<in> connected s" and p: "p \<noteq> C_absent" "p \<noteq> C_accepted"
    and use: "\<not> disposing s \<Longrightarrow> p = C_invoke \<or> p = C_running \<Longrightarrow> se_portal s = P_transfer" and crash: "\<not> disposing s \<Longrightarrow> p \<noteq> C_crashed"
  shows "session_inv n (chan_goto k p s)"
proof -
  note I = session_invD [OF inv]
  have c: "connected (chan_goto k p s) = connected s" using connected_goto(1) [OF p] k by (simp add: insert_absorb)
  show ?thesis unfolding session_inv_def c using I use crash by simp
qed

lemma using_transfer:
  assumes inv: "session_inv n s" and nd: "\<not> disposing s" and k: "se_chans s k = C_invoke \<or> se_chans s k = C_running"
  shows "se_portal s = P_transfer \<and> se_transfer s = Tr_live"
proof -
  note I = session_invD [OF inv]
  have "se_portal s = P_transfer" using I(10) nd k by blast
  moreover have "se_transfer s \<noteq> Tr_freed" using I(6) not_disposing_before [OF nd] by blast
  ultimately show ?thesis using I(7) by (cases "se_transfer s") auto
qed

lemma session_inv_channel:
  assumes inv: "session_inv n s" and m: "fn_channel e k s = Some s'"
  shows "session_inv n s'"
proof (cases "se_chans s k")
  case C_absent
  note I = session_invD [OF inv]
  from m C_absent have s': "s' = chan_goto k C_accepted s" by (simp add: fn_channel_def split: if_splits)
  have c: "connected s' = connected s" unfolding s' using connected_goto(2) [of C_accepted k s] C_absent by (auto simp: connected_def)
  show ?thesis unfolding session_inv_def c using I s' by simp
next
  case C_accepted
  note I = session_invD [OF inv]
  obtain g where g: "gate_signal (se_conn_gate s) = (Ret (), g)" "gate_valid g" "gate_needed g = gate_needed (se_conn_gate s) - 1"
    by (rule gate_signal_cases [OF I(1)])
  with m C_accepted have s': "s' = chan_goto k C_wait (s\<lparr>se_conn_gate := g\<rparr>)" by (simp add: fn_channel_def)
  have kc: "k \<notin> connected s" using C_accepted by (simp add: connected_def)
  have c: "connected s' = insert k (connected s)" unfolding s' by (subst connected_goto(1)) (simp_all add: connected_def)
  have card: "card (connected s') = Suc (card (connected s))" using c kc I(3) by simp
  have base: "before_reset (s\<lparr>se_conn_gate := g\<rparr>) = before_reset s" "disposing (s\<lparr>se_conn_gate := g\<rparr>) = disposing s"
    by (simp_all add: before_reset_def disposing_def)
  have "se_disposer s \<in> {D_none, D_start} \<Longrightarrow> gate_needed g = unat n - card (connected s')" using I(4) g(3) card by simp
  moreover have "\<not> disposing s \<Longrightarrow> se_portal s \<in> {P_respond, P_ready, P_transfer} \<Longrightarrow> unat n \<le> card (connected s')"
    using I(8) card by fastforce
  ultimately show ?thesis unfolding session_inv_def using I c g(2) s' by (simp add: base)
next
  case C_wait
  note I = session_invD [OF inv]
  have kc: "k \<in> connected s" using C_wait by (simp add: connected_def)
  from m C_wait gate_wait_cases [OF I(2)] have ready: "gate_needed (se_ready_gate s) = 0"
    and s': "s' = (if disposing s then request_dispose (chan_goto k C_done s) else chan_goto k C_invoke s)"
    by (auto simp: fn_channel_def split: if_splits)
  have "\<not> disposing s \<Longrightarrow> se_portal s = P_transfer" using I(5) I(9) ready by (auto simp: disposing_def)
  then show ?thesis using s' session_inv_goto [OF inv kc, of C_invoke] session_inv_request [OF session_inv_goto [OF inv kc, of C_done]] by simp
next
  case C_invoke
  have kc: "k \<in> connected s" using C_invoke by (simp add: connected_def)
  from m C_invoke have "s' = (if se_transfer s = Tr_live then chan_goto k C_running s else chan_goto k C_crashed s)"
    by (simp add: fn_channel_def)
  then show ?thesis using using_transfer [OF inv _ disjI1 [OF C_invoke]] session_inv_goto [OF inv kc, of C_running]
      session_inv_goto [OF inv kc, of C_crashed] by (cases "se_transfer s = Tr_live") auto
next
  case C_running
  have kc: "k \<in> connected s" using C_running by (simp add: connected_def)
  from m C_running have "s' = (if se_transfer s \<noteq> Tr_live then chan_goto k C_crashed s
      else if e = Stage_ok then chan_goto k C_done s else request_dispose (chan_goto k C_done s))"
    by (simp add: fn_channel_def)
  then show ?thesis using using_transfer [OF inv _ disjI2 [OF C_running]] session_inv_goto [OF inv kc, of C_done]
      session_inv_request [OF session_inv_goto [OF inv kc, of C_done]] session_inv_goto [OF inv kc, of C_crashed]
    by (cases "se_transfer s = Tr_live"; cases "e = Stage_ok") auto
qed (use m in \<open>simp_all add: fn_channel_def\<close>)

lemma session_inv_disposer:
  assumes inv: "session_inv n s" and m: "session_dispose_impl s = Some s'"
  shows "session_inv n s'"
proof -
  note I = session_invD [OF inv]
  have init: "gate_initialized (se_conn_gate s)" "gate_initialized (se_ready_gate s)" using I(1,2) by (simp_all add: gate_valid_def)
  have f: "gate_valid (snd (gate_force_signal_all g))" if "gate_valid g" for g
    using gate.force_step [OF that] by auto
  show ?thesis
    by (cases "se_disposer s")
      (use m I init f [OF I(1)] f [OF I(2)] in
        \<open>auto simp: session_dispose_impl_def session_inv_def connected_def before_reset_def disposing_def split: if_splits\<close>)
qed

lemma session_inv_step: "session_step s s' \<Longrightarrow> session_inv n s \<Longrightarrow> session_inv n s'"
proof (induction rule: session_step.induct)
  case (channels_joined s)
  then show ?case by (auto simp: session_inv_def connected_def before_reset_def disposing_def)
qed (auto intro: session_inv_portal session_inv_channel session_inv_disposer session_inv_request)

lemma session_reachable_inv: "session_reachable n s \<Longrightarrow> session_inv n s"
  by (induction rule: session_reachable.induct) (auto intro: session_inv_start session_inv_step)

text \<open>What the disposer leaves behind at its stages.\<close>

definition session_late :: "session \<Rightarrow> bool" where
  "session_late s \<longleftrightarrow> (se_disposer s \<notin> {D_none, D_start} \<longrightarrow> gate_needed (se_conn_gate s) = 0)
     \<and> (se_disposer s \<notin> {D_none, D_start, D_conn_forced} \<longrightarrow> gate_needed (se_ready_gate s) = 0)
     \<and> (se_portal s \<noteq> P_done \<longrightarrow> se_disposer s \<noteq> D_portal_joined \<and> se_disposer s \<noteq> D_finished)
     \<and> finite {k. se_chans s k \<noteq> C_absent}"

lemma finite_goto: "finite {j. f j \<noteq> C_absent} \<Longrightarrow> finite {j. (f(k := p)) j \<noteq> C_absent}"
  by (rule finite_subset [of _ "insert k {j. f j \<noteq> C_absent}"]) auto

lemma session_late_request: "session_late s \<Longrightarrow> session_late (request_dispose s)"
  by (auto simp: session_late_def request_dispose_def)

lemma session_late_goto: "session_late s \<Longrightarrow> session_late (chan_goto k p s)"
  unfolding session_late_def using finite_goto [of "se_chans s" k p] by simp

lemma session_late_portal:
  assumes v: "gate_valid (se_ready_gate s)" and l: "session_late s" and m: "fn_portal e s = Some s'"
  shows "session_late s'"
proof -
  have ex: "session_late (portal_exit t)" if "session_late t" for t
    unfolding portal_exit_def by (rule session_late_request) (use that in \<open>simp add: session_late_def\<close>)
  obtain g where g: "gate_signal (se_ready_gate s) = (Ret (), g)" "gate_needed g = gate_needed (se_ready_gate s) - 1"
    by (rule gate_signal_cases [OF v])
  have tr: "session_late (s\<lparr>se_transfer := t\<rparr>)" "session_late (s\<lparr>se_transfer := t, se_portal := p\<rparr>)"
    "session_late (s\<lparr>se_portal := p\<rparr>)" if "se_portal s \<noteq> P_done" for t p
    using l that by (simp_all add: session_late_def)
  have sg: "session_late (s\<lparr>se_ready_gate := g, se_portal := p\<rparr>)" if "se_portal s \<noteq> P_done" for p
    using l g(2) that by (simp add: session_late_def)
  show ?thesis
    by (cases "se_portal s"; cases e)
      (use m ex [OF l] ex [OF tr(1)] tr sg g(1) in \<open>auto simp: fn_portal_def split: outcome.splits option.splits if_splits\<close>)
qed

lemma session_late_channel:
  assumes v: "gate_valid (se_conn_gate s)" and l: "session_late s" and m: "fn_channel e k s = Some s'"
  shows "session_late s'"
proof -
  obtain g where g: "gate_signal (se_conn_gate s) = (Ret (), g)" "gate_needed g = gate_needed (se_conn_gate s) - 1"
    by (rule gate_signal_cases [OF v])
  have "session_late (s\<lparr>se_conn_gate := g\<rparr>)" using l g(2) by (simp add: session_late_def)
  then show ?thesis
    by (cases "se_chans s k")
      (use m l g(1) session_late_goto [OF l] session_late_goto session_late_request in
        \<open>auto simp: fn_channel_def split: outcome.splits option.splits if_splits\<close>)
qed

lemma session_late_step: "session_step s s' \<Longrightarrow> session_inv n s \<Longrightarrow> session_late s \<Longrightarrow> session_late s'"
proof (induction rule: session_step.induct)
  case (portal_moves e s s')
  then show ?case using session_late_portal [OF session_invD(2)] by blast
next
  case (channel_moves e k s s')
  then show ?case using session_late_channel [OF session_invD(1)] by blast
next
  case (disposer_moves s s')
  note v = session_invD(1,2) [OF disposer_moves(2)]
  have "gate_needed (snd (gate_force_signal_all g)) = 0" if "gate_valid g" for g using gate.force_step [OF that] by auto
  with v have f: "gate_needed (snd (gate_force_signal_all (se_conn_gate s))) = 0" "gate_needed (snd (gate_force_signal_all (se_ready_gate s))) = 0"
    "gate_initialized (se_conn_gate s)" "gate_initialized (se_ready_gate s)" by (simp_all add: gate_valid_def)
  show ?case
    by (cases "se_disposer s") (use disposer_moves f in \<open>auto simp: session_dispose_impl_def session_late_def split: if_splits\<close>)
next
  case (channels_joined s)
  then show ?case by (auto simp: session_late_def)
next
  case (disposal_required s)
  then show ?case by (simp add: session_late_request)
qed

lemma session_reachable_late: "session_reachable n s \<Longrightarrow> session_late s"
proof (induction rule: session_reachable.induct)
  case session_first
  show ?case by (simp add: session_late_def session_start_def)
next
  case (session_next s s')
  show ?case by (rule session_late_step [OF session_next(2) session_reachable_inv [OF session_next(1)] session_next(3)])
qed

section \<open>The order of a session\<close>

text \<open>
  As long as no disposal has been required, however the threads interleave: the response is sent and
  the transfer starts only after all channels have connected, a channel uses the transfer only while
  the portal is in it and the object lives, and no assertion or access to a null pointer fails.
\<close>

lemma session_order:
  assumes "session_reachable n s" and "\<not> disposing s"
  shows "(se_portal s \<in> {P_respond, P_ready, P_transfer} \<longrightarrow> unat n \<le> card (connected s))
    \<and> (se_chans s k = C_invoke \<or> se_chans s k = C_running \<longrightarrow> se_portal s = P_transfer \<and> se_transfer s = Tr_live)
    \<and> se_chans s k \<noteq> C_crashed \<and> se_portal s \<noteq> P_crashed"
  using session_reachable_inv [OF assms(1)] session_invD(8,9,11) [OF session_reachable_inv [OF assms(1)]]
    using_transfer [OF session_reachable_inv [OF assms(1)] assms(2)] assms(2) by blast

text \<open>A schedule of moves, to build examples: of the portal, of a channel, or of the disposer.\<close>

datatype session_move = Portal_move stage_end | Channel_move stage_end nat | Disposer_move

fun move_session :: "session_move \<Rightarrow> session \<Rightarrow> session option" where
  "move_session (Portal_move e) s = fn_portal e s"
| "move_session (Channel_move e k) s = fn_channel e k s"
| "move_session Disposer_move s = session_dispose_impl s"

fun session_run :: "session_move list \<Rightarrow> session \<Rightarrow> session option" where
  "session_run [] s = Some s"
| "session_run (m # ms) s = (case move_session m s of None \<Rightarrow> None | Some s' \<Rightarrow> session_run ms s')"

lemma session_run_reachable: "session_reachable n s \<Longrightarrow> session_run ms s = Some s' \<Longrightarrow> session_reachable n s'"
proof (induction ms arbitrary: s)
  case (Cons m ms)
  from Cons.prems(2) obtain s1 where s1: "move_session m s = Some s1" "session_run ms s1 = Some s'" by (auto split: option.splits)
  have "session_step s s1" using s1(1) by (cases m) (auto intro: session_step.intros)
  with Cons s1(2) show ?case by (blast intro: session_next)
qed simp

lemmas session_eval = fn_portal_def fn_channel_def session_dispose_impl_def session_start_def chan_goto_def portal_exit_def
  request_dispose_def disposing_def gate_init_def gate_new_def gate_signal_def gate_wait_def gate_force_signal_all_def
  gate_initialized_def INVALID_SIGNAL_COUNT_def seq_st_def assert_st_def Let_def connected_def

definition demo_order :: "session_move list" where
  "demo_order = [Portal_move Stage_ok, Channel_move Stage_ok 0, Channel_move Stage_ok 0, Portal_move Stage_ok, Portal_move Stage_ok,
     Portal_move Stage_ok, Channel_move Stage_ok 0, Channel_move Stage_ok 0]"

lemma demo_order_run: "\<exists>s. session_run demo_order (session_start 1) = Some s \<and> \<not> disposing s \<and> se_chans s 0 = C_running"
  by (simp add: demo_order_def session_eval)

section \<open>The disposal while channels run\<close>

definition demo_crash :: "session_move list" where
  "demo_crash = [Portal_move Stage_ok, Channel_move Stage_ok 0, Channel_move Stage_ok 0, Channel_move Stage_ok 1, Channel_move Stage_ok 1,
     Portal_move Stage_ok, Portal_move Stage_ok, Portal_move Stage_ok, Channel_move Stage_ok 0, Channel_move Stage_ok 1,
     Channel_move Stage_ok 0, Channel_move Stage_ok 1, Channel_move Stage_failed 0, Disposer_move, Disposer_move, Disposer_move]"

text \<open>C24: the disposal resets \<open>transfer\<close> before it joins the threads that are inside it: with two channels, when one
  fails, the object is freed while the other is running on it, and its next access is one to freed
  memory.\<close>

theorem transfer_freed_under_channel:
  "\<exists>s s'. session_reachable 2 s \<and> se_transfer s = Tr_freed \<and> se_chans s 1 = C_running
    \<and> fn_channel e 1 s = Some s' \<and> se_chans s' 1 = C_crashed"
proof -
  have "\<exists>s. session_run demo_crash (session_start 2) = Some s \<and> se_transfer s = Tr_freed \<and> se_chans s 1 = C_running"
    by (simp add: demo_crash_def session_eval)
  then obtain s where s: "session_run demo_crash (session_start 2) = Some s" "se_transfer s = Tr_freed" "se_chans s 1 = C_running"
    by blast
  have "session_reachable 2 s"
    by (rule session_run_reachable [OF session_first s(1)]) (simp_all add: INVALID_SIGNAL_COUNT_def)
  moreover have "fn_channel e 1 s = Some (chan_goto 1 C_crashed s)" using s by (simp add: fn_channel_def)
  ultimately show ?thesis using s by auto
qed

section \<open>The disposal ends\<close>

abbreviation session_steps :: "session \<Rightarrow> session \<Rightarrow> bool" where
  "session_steps \<equiv> session_step\<^sup>*\<^sup>*"

lemma session_steps_reachable: "session_steps s s' \<Longrightarrow> session_reachable n s \<Longrightarrow> session_reachable n s'"
  by (induction rule: rtranclp_induct) (auto intro: session_next)

lemma disposer_advances:
  "se_disposer s \<noteq> D_none \<Longrightarrow> \<exists>s'. session_steps s s' \<and> se_disposer s' \<in> {D_reset, D_portal_joined, D_finished}
    \<and> se_portal s' = se_portal s \<and> se_chans s' = se_chans s"
proof -
  have one: "\<exists>s'. session_step s s' \<and> se_disposer s' = d' \<and> se_portal s' = se_portal s \<and> se_chans s' = se_chans s"
    if "se_disposer s = d" "(d, d') \<in> {(D_start, D_conn_forced), (D_conn_forced, D_ready_forced), (D_ready_forced, D_reset)}" for s d d'
  proof -
    have "\<exists>s'. session_dispose_impl s = Some s' \<and> se_disposer s' = d' \<and> se_portal s' = se_portal s \<and> se_chans s' = se_chans s"
      using that by (auto simp: session_dispose_impl_def)
    then show ?thesis using disposer_moves by blast
  qed
  have 3: "\<exists>s'. session_steps s s' \<and> se_disposer s' = D_reset \<and> se_portal s' = se_portal s \<and> se_chans s' = se_chans s"
    if d: "se_disposer s = D_ready_forced" for s
    using one [OF d, of D_reset] by auto
  have 2: "\<exists>s'. session_steps s s' \<and> se_disposer s' = D_reset \<and> se_portal s' = se_portal s \<and> se_chans s' = se_chans s"
    if d: "se_disposer s = D_conn_forced" for s
  proof -
    obtain s1 where "session_step s s1" "se_disposer s1 = D_ready_forced" "se_portal s1 = se_portal s" "se_chans s1 = se_chans s"
      using one [OF d, of D_ready_forced] by auto
    with 3 [of s1] show ?thesis by (auto intro: converse_rtranclp_into_rtranclp)
  qed
  have 1: "\<exists>s'. session_steps s s' \<and> se_disposer s' = D_reset \<and> se_portal s' = se_portal s \<and> se_chans s' = se_chans s"
    if d: "se_disposer s = D_start" for s
  proof -
    obtain s1 where "session_step s s1" "se_disposer s1 = D_conn_forced" "se_portal s1 = se_portal s" "se_chans s1 = se_chans s"
      using one [OF d, of D_conn_forced] by auto
    with 2 [of s1] show ?thesis by (auto intro: converse_rtranclp_into_rtranclp)
  qed
  assume "se_disposer s \<noteq> D_none"
  then show ?thesis using 1 [of s] 2 [of s] 3 [of s] by (cases "se_disposer s") auto
qed

lemma portal_returns:
  assumes r: "session_reachable n s" and d: "se_disposer s \<in> {D_reset, D_portal_joined, D_finished}"
    and p: "se_portal s \<in> {P_request, P_wait, P_respond, P_done}"
  shows "\<exists>s'. session_steps s s' \<and> se_disposer s' = se_disposer s \<and> se_portal s' = P_done \<and> se_chans s' = se_chans s"
proof (cases "se_portal s = P_done")
  case False
  have "gate_needed (se_conn_gate s) = 0" using session_reachable_late [OF r] d by (auto simp: session_late_def)
  then have "gate_wait (se_conn_gate s) = Ret (Some ())"
    using gate_wait_cases [OF session_invD(1) [OF session_reachable_inv [OF r]]] by simp
  moreover have "disposing s" using d by (auto simp: disposing_def)
  ultimately have "fn_portal Stage_failed s = Some (portal_exit s)" using p False by (auto simp: fn_portal_def)
  then have "session_step s (portal_exit s)" by (rule portal_moves)
  then show ?thesis using d by (intro exI [of _ "portal_exit s"]) (auto simp: portal_exit_def request_dispose_def)
qed auto

lemma channel_returns:
  assumes r: "session_reachable n s" and d: "se_disposer s = D_portal_joined" and k: "se_chans s k = C_accepted \<or> se_chans s k = C_wait"
  shows "\<exists>s'. session_steps s s' \<and> se_disposer s' = D_portal_joined \<and> se_chans s' = (se_chans s)(k := C_done)"
proof -
  have wait: "\<exists>s'. session_step t s' \<and> se_disposer s' = D_portal_joined \<and> se_chans s' = (se_chans t)(k := C_done)"
    if "session_reachable n t" "se_disposer t = D_portal_joined" "se_chans t k = C_wait" for t
  proof -
    have "gate_needed (se_ready_gate t) = 0" using session_reachable_late [OF that(1)] that(2) by (auto simp: session_late_def)
    then have "gate_wait (se_ready_gate t) = Ret (Some ())"
      using gate_wait_cases [OF session_invD(2) [OF session_reachable_inv [OF that(1)]]] by simp
    moreover have "disposing t" using that(2) by (simp add: disposing_def)
    ultimately have "fn_channel Stage_ok k t = Some (request_dispose (chan_goto k C_done t))" using that(3) by (simp add: fn_channel_def)
    then have "session_step t (request_dispose (chan_goto k C_done t))" by (rule channel_moves)
    then show ?thesis using that(2) by (intro exI [of _ "request_dispose (chan_goto k C_done t)"]) (simp add: request_dispose_disposer)
  qed
  show ?thesis
  proof (cases "se_chans s k = C_wait")
    case True
    with wait [OF r d] show ?thesis by blast
  next
    case False
    with k have acc: "se_chans s k = C_accepted" by simp
    obtain g where "gate_signal (se_conn_gate s) = (Ret (), g)"
      by (rule gate_signal_cases [OF session_invD(1) [OF session_reachable_inv [OF r]]])
    with acc have "fn_channel Stage_ok k s = Some (chan_goto k C_wait (s\<lparr>se_conn_gate := g\<rparr>))" by (simp add: fn_channel_def)
    then have st: "session_step s (chan_goto k C_wait (s\<lparr>se_conn_gate := g\<rparr>))" by (rule channel_moves)
    let ?t = "chan_goto k C_wait (s\<lparr>se_conn_gate := g\<rparr>)"
    have t: "se_disposer ?t = D_portal_joined" "se_chans ?t k = C_wait" using d by simp_all
    obtain s' where "session_step ?t s'" "se_disposer s' = D_portal_joined" "se_chans s' = (se_chans ?t)(k := C_done)"
      using wait [OF session_next [OF r st] t] by blast
    with st show ?thesis by (intro exI [of _ s']) auto
  qed
qed

definition quiet :: "session \<Rightarrow> bool" where
  "quiet s \<longleftrightarrow> (\<forall>k. se_chans s k \<in> {C_absent, C_accepted, C_wait, C_done})"

definition pending :: "session \<Rightarrow> nat set" where
  "pending s = {k. se_chans s k = C_accepted \<or> se_chans s k = C_wait}"

lemma channels_return:
  "finite A \<Longrightarrow> pending s = A \<Longrightarrow> session_reachable n s \<Longrightarrow> se_disposer s = D_portal_joined \<Longrightarrow> quiet s
    \<Longrightarrow> \<exists>s'. session_steps s s' \<and> se_disposer s' = D_portal_joined \<and> quiet s' \<and> pending s' = {}"
proof (induction A arbitrary: s rule: finite_induct)
  case (insert k A)
  have k: "se_chans s k = C_accepted \<or> se_chans s k = C_wait" using insert.prems(1) by (auto simp: pending_def)
  obtain s1 where s1: "session_steps s s1" "se_disposer s1 = D_portal_joined" "se_chans s1 = (se_chans s)(k := C_done)"
    using channel_returns [OF insert.prems(2,3) k] by blast
  have "pending s1 = A" using insert.prems(1) insert.hyps(2) s1(3) by (auto simp: pending_def split: if_splits)
  moreover have "quiet s1" using insert.prems(4) s1(3) by (auto simp: quiet_def)
  ultimately obtain s' where "session_steps s1 s'" "se_disposer s' = D_portal_joined" "quiet s'" "pending s' = {}"
    using insert.IH session_steps_reachable [OF s1(1) insert.prems(2)] s1(2) by blast
  with s1(1) show ?case by (meson rtranclp_trans)
qed auto


definition demo_dispose :: "session_move list" where
  "demo_dispose = [Channel_move Stage_ok 0, Channel_move Stage_ok 0, Channel_move Stage_ok 1, Portal_move Stage_failed]"


end
