(* ===== verification/Client_Session.thy ===== *)
theory Client_Session
  imports Session
begin

text \<open>
  The threads of a client (\<open>client_portal_state\<close> and \<open>client_channel_state\<close> in \<open>client.h\<close> and
  \<open>client.cpp\<close>): the portal's \<open>fn_thread_work\<close>, the channels' \<open>fn_thread_work\<close> and the thread that runs
  \<open>dispose_impl\<close>. As in the session of the server a step is one access to what they share, and what a
  thread exchanges with its peer is told by an argument of the step.
\<close>

section \<open>The state\<close>

datatype client_portal_pc =
    CP_negotiate \<comment> \<open>up to the server's information\<close>
  | CP_channels \<comment> \<open>in the loop that creates the channels\<close>
  | CP_request \<comment> \<open>about to make and send the request, with the files of \<open>transfer\<close> for an upload\<close>
  | CP_respond \<comment> \<open>about to receive the response, and to prepare \<open>transfer\<close> for a download\<close>
  | CP_callback \<comment> \<open>about to use \<open>transfer\<close>, to set its callback\<close>
  | CP_signal \<comment> \<open>about to signal \<open>gate_client_portal_ready\<close>\<close>
  | CP_invoke \<comment> \<open>about to use \<open>transfer\<close>, to invoke it\<close>
  | CP_transfer \<comment> \<open>in \<open>transfer->invoke_portal\<close>\<close>
  | CP_done
  | CP_crashed

datatype client_channel_pc =
    KC_absent
  | KC_connect \<comment> \<open>creating its socket, connecting and sending the header\<close>
  | KC_wait \<comment> \<open>in \<open>gate_client_portal_ready.wait()\<close>\<close>
  | KC_invoke \<comment> \<open>found no dispose required, about to use \<open>transfer\<close>\<close>
  | KC_running \<comment> \<open>in \<open>transfer->invoke_channel\<close>\<close>
  | KC_done
  | KC_crashed

text \<open>How far \<open>dispose_impl\<close> has come; the transfer is reset before the gate is forced.\<close>

datatype client_disposer_pc = CD_none | CD_start | CD_reset | CD_forced | CD_portal_joined | CD_finished

text \<open>\<open>ks_channels\<close> is how many channels have been added, \<open>ks_download\<close> is \<open>is_from_server_to_client\<close>,
  \<open>ks_exit\<close> that \<open>require_exit\<close> was called.\<close>

record client_session =
  ks_ready_gate :: gate_guard
  ks_transfer :: transfer_ptr
  ks_portal :: client_portal_pc
  ks_chans :: "nat \<Rightarrow> client_channel_pc"
  ks_channels :: nat
  ks_download :: bool
  ks_disposer :: client_disposer_pc
  ks_exit :: bool

text \<open>After \<open>init\<close>, which has made the transfer and connected the portal.\<close>

definition client_session_start :: "bool \<Rightarrow> client_session" where
  "client_session_start download = \<lparr>ks_ready_gate = snd (gate_init 1 gate_new), ks_transfer = Tr_live, ks_portal = CP_negotiate,
     ks_chans = (\<lambda>_. KC_absent), ks_channels = 0,
     ks_download = download, ks_disposer = CD_none, ks_exit = False\<rparr>"

definition ks_disposing :: "client_session \<Rightarrow> bool" where
  "ks_disposing s \<longleftrightarrow> ks_disposer s \<noteq> CD_none"

definition ks_request_dispose :: "client_session \<Rightarrow> client_session" where
  "ks_request_dispose s = (if ks_disposer s = CD_none then s\<lparr>ks_disposer := CD_start\<rparr> else s)"

text \<open>\<open>acquire_unique\<close> gives no lock once \<open>dispose_impl\<close> has passed \<open>acquire_rundown\<close>.\<close>

definition ks_rundown :: "client_session \<Rightarrow> bool" where
  "ks_rundown s \<longleftrightarrow> ks_disposer s = CD_portal_joined \<or> ks_disposer s = CD_finished"

section \<open>The threads\<close>

text \<open>The sweeper of the portal's thread: every return requires the disposal and the exit of the process.\<close>

definition client_portal_exit :: "client_session \<Rightarrow> client_session" where
  "client_portal_exit s = (ks_request_dispose s)\<lparr>ks_portal := CP_done, ks_exit := True\<rparr>"

definition kchan_goto :: "nat \<Rightarrow> client_channel_pc \<Rightarrow> client_session \<Rightarrow> client_session" where
  "kchan_goto k p s = s\<lparr>ks_chans := (ks_chans s)(k := p)\<rparr>"

text \<open>
  The result of a stage is \<open>Stage_ok\<close> or a failure. In \<open>CP_channels\<close> \<open>Stage_ok\<close> means that there is
  another channel, which is created and started before it is added.
\<close>

definition client_portal_work :: "stage_end \<Rightarrow> client_session \<Rightarrow> client_session option" where
  "client_portal_work e s = (case ks_portal s of
       CP_negotiate \<Rightarrow> Some (if e = Stage_ok then s\<lparr>ks_portal := CP_channels\<rparr> else client_portal_exit s)
     | CP_channels \<Rightarrow>
         if e = Stage_ok then
           (if ks_rundown s then Some (client_portal_exit s)
            else Some (kchan_goto (ks_channels s) KC_connect (s\<lparr>ks_channels := ks_channels s + 1\<rparr>)))
         else Some (s\<lparr>ks_portal := CP_request\<rparr>)
     | CP_request \<Rightarrow> Some (if \<not> ks_download s \<and> ks_transfer s \<noteq> Tr_live then s\<lparr>ks_portal := CP_crashed\<rparr>
         else if e = Stage_ok then s\<lparr>ks_portal := CP_respond\<rparr> else client_portal_exit s)
     | CP_respond \<Rightarrow> Some (if e = Stage_ok then
           (if ks_download s \<and> ks_transfer s \<noteq> Tr_live then s\<lparr>ks_portal := CP_crashed\<rparr> else s\<lparr>ks_portal := CP_callback\<rparr>)
         else client_portal_exit s)
     | CP_callback \<Rightarrow> Some (if ks_transfer s = Tr_live then s\<lparr>ks_portal := CP_signal\<rparr> else s\<lparr>ks_portal := CP_crashed\<rparr>)
     | CP_signal \<Rightarrow> (case gate_signal (ks_ready_gate s) of
           (Ret _, g) \<Rightarrow> Some (s\<lparr>ks_ready_gate := g, ks_portal := CP_invoke\<rparr>)
         | _ \<Rightarrow> Some (s\<lparr>ks_portal := CP_crashed\<rparr>))
     | CP_invoke \<Rightarrow> Some (if ks_transfer s = Tr_live then s\<lparr>ks_portal := CP_transfer\<rparr> else s\<lparr>ks_portal := CP_crashed\<rparr>)
     | CP_transfer \<Rightarrow> Some (if ks_transfer s = Tr_live then client_portal_exit s else s\<lparr>ks_portal := CP_crashed\<rparr>)
     | CP_done \<Rightarrow> None
     | CP_crashed \<Rightarrow> None)"

text \<open>Every return of a channel but the last requires the disposal of the portal.\<close>

definition client_channel_work :: "stage_end \<Rightarrow> nat \<Rightarrow> client_session \<Rightarrow> client_session option" where
  "client_channel_work e k s = (case ks_chans s k of
       KC_absent \<Rightarrow> None
     | KC_connect \<Rightarrow> Some (if e = Stage_ok then kchan_goto k KC_wait s else ks_request_dispose (kchan_goto k KC_done s))
     | KC_wait \<Rightarrow> (case gate_wait (ks_ready_gate s) of
           Ret None \<Rightarrow> None
         | Ret (Some _) \<Rightarrow> Some (if ks_disposing s then ks_request_dispose (kchan_goto k KC_done s) else kchan_goto k KC_invoke s)
         | _ \<Rightarrow> Some (kchan_goto k KC_crashed s))
     | KC_invoke \<Rightarrow> Some (if ks_transfer s = Tr_live then kchan_goto k KC_running s else kchan_goto k KC_crashed s)
     | KC_running \<Rightarrow> Some (if ks_transfer s \<noteq> Tr_live then kchan_goto k KC_crashed s
         else if e = Stage_ok then kchan_goto k KC_done s else ks_request_dispose (kchan_goto k KC_done s))
     | KC_done \<Rightarrow> None
     | KC_crashed \<Rightarrow> None)"

text \<open>Disposing a channel closes its socket, which ends what its thread blocks in, and joins the thread.\<close>

definition client_channel_joined :: "client_session \<Rightarrow> nat \<Rightarrow> bool" where
  "client_channel_joined s k \<longleftrightarrow> ks_chans s k = KC_done"

text \<open>\<open>dispose_impl\<close> of the portal.\<close>

definition client_dispose_impl :: "client_session \<Rightarrow> client_session option" where
  "client_dispose_impl s = (case ks_disposer s of
       CD_none \<Rightarrow> None
     | CD_start \<Rightarrow> Some (s\<lparr>ks_disposer := CD_reset, ks_transfer := (if ks_transfer s = Tr_live then Tr_freed else ks_transfer s)\<rparr>)
     | CD_reset \<Rightarrow> Some (s\<lparr>ks_disposer := CD_forced,
         ks_ready_gate := (if gate_initialized (ks_ready_gate s) then snd (gate_force_signal_all (ks_ready_gate s)) else ks_ready_gate s)\<rparr>)
     | CD_forced \<Rightarrow> if ks_portal s = CP_done then Some (s\<lparr>ks_disposer := CD_portal_joined\<rparr>) else None
     | CD_portal_joined \<Rightarrow> if \<forall>k<ks_channels s. client_channel_joined s k then Some (s\<lparr>ks_disposer := CD_finished\<rparr>) else None
     | CD_finished \<Rightarrow> None)"

text \<open>The disposal is also required by \<open>main\<close> when the process has to exit.\<close>

inductive client_session_step :: "client_session \<Rightarrow> client_session \<Rightarrow> bool" where
  client_portal_moves: "client_portal_work e s = Some s' \<Longrightarrow> client_session_step s s'"
| client_channel_moves: "client_channel_work e k s = Some s' \<Longrightarrow> client_session_step s s'"
| client_disposer_moves: "client_dispose_impl s = Some s' \<Longrightarrow> client_session_step s s'"
| client_main_disposes: "client_session_step s (ks_request_dispose s)"

inductive client_session_reachable :: "client_session \<Rightarrow> bool" where
  client_session_first: "client_session_reachable (client_session_start download)"
| client_session_next: "client_session_reachable s \<Longrightarrow> client_session_step s s' \<Longrightarrow> client_session_reachable s'"

section \<open>The invariant\<close>

definition past_signal :: "client_portal_pc \<Rightarrow> bool" where
  "past_signal p \<longleftrightarrow> p = CP_invoke \<or> p = CP_transfer \<or> p = CP_done \<or> p = CP_crashed"

definition gate_forced :: "client_disposer_pc \<Rightarrow> bool" where
  "gate_forced d \<longleftrightarrow> d = CD_forced \<or> d = CD_portal_joined \<or> d = CD_finished"

definition ks_gate_inv :: "client_session \<Rightarrow> bool" where
  "ks_gate_inv s \<longleftrightarrow> gate_valid (ks_ready_gate s)
     \<and> (if gate_forced (ks_disposer s) then gate_needed (ks_ready_gate s) = 0
        else gate_needed (ks_ready_gate s) = 0 \<longrightarrow> past_signal (ks_portal s))"

definition ks_slots_inv :: "client_session \<Rightarrow> bool" where
  "ks_slots_inv s \<longleftrightarrow> (\<forall>k. ks_chans s k = KC_absent \<longleftrightarrow> ks_channels s \<le> k)"

definition ks_end_inv :: "client_session \<Rightarrow> bool" where
  "ks_end_inv s \<longleftrightarrow> (ks_portal s = CP_done \<longrightarrow> ks_exit s \<and> ks_disposing s) \<and> (ks_rundown s \<longrightarrow> ks_portal s = CP_done)"

definition ks_alive_inv :: "client_session \<Rightarrow> bool" where
  "ks_alive_inv s \<longleftrightarrow> (\<not> ks_disposing s \<longrightarrow> ks_transfer s = Tr_live \<and> ks_portal s \<noteq> CP_crashed)"

definition using_transfer :: "client_channel_pc \<Rightarrow> bool" where
  "using_transfer p \<longleftrightarrow> p = KC_invoke \<or> p = KC_running"

definition portal_ready :: "client_portal_pc \<Rightarrow> bool" where
  "portal_ready p \<longleftrightarrow> p = CP_invoke \<or> p = CP_transfer"

definition ks_use_inv :: "client_session \<Rightarrow> bool" where
  "ks_use_inv s \<longleftrightarrow> (\<not> ks_disposing s \<longrightarrow> (\<forall>k. ks_chans s k \<noteq> KC_crashed \<and> (using_transfer (ks_chans s k) \<longrightarrow> portal_ready (ks_portal s))))"

definition ks_inv :: "client_session \<Rightarrow> bool" where
  "ks_inv s \<longleftrightarrow> ks_gate_inv s \<and> ks_slots_inv s \<and> ks_end_inv s \<and> ks_alive_inv s \<and> ks_use_inv s"

lemma ks_invD:
  assumes "ks_inv s"
  shows "ks_gate_inv s" "ks_slots_inv s" "ks_end_inv s" "ks_alive_inv s" "ks_use_inv s"
  using assms by (simp_all add: ks_inv_def)

lemma ks_request_simps [simp]:
  "ks_disposing (ks_request_dispose s)" "ks_portal (ks_request_dispose s) = ks_portal s" "ks_chans (ks_request_dispose s) = ks_chans s"
  "ks_transfer (ks_request_dispose s) = ks_transfer s" "ks_ready_gate (ks_request_dispose s) = ks_ready_gate s"
  "ks_channels (ks_request_dispose s) = ks_channels s" "ks_exit (ks_request_dispose s) = ks_exit s"
  "ks_rundown (ks_request_dispose s) = ks_rundown s"
  by (simp_all add: ks_request_dispose_def ks_disposing_def ks_rundown_def)

lemma ks_request_disposer: "ks_disposer (ks_request_dispose s) = (if ks_disposer s = CD_none then CD_start else ks_disposer s)"
  by (simp add: ks_request_dispose_def)

lemma kchan_goto_simps [simp]:
  "ks_disposer (kchan_goto k p s) = ks_disposer s" "ks_portal (kchan_goto k p s) = ks_portal s"
  "ks_transfer (kchan_goto k p s) = ks_transfer s" "ks_ready_gate (kchan_goto k p s) = ks_ready_gate s"
  "ks_chans (kchan_goto k p s) = (ks_chans s)(k := p)" "ks_channels (kchan_goto k p s) = ks_channels s"
  "ks_exit (kchan_goto k p s) = ks_exit s" "ks_disposing (kchan_goto k p s) = ks_disposing s"
  "ks_rundown (kchan_goto k p s) = ks_rundown s"
  by (simp_all add: kchan_goto_def ks_disposing_def ks_rundown_def)

text \<open>Each piece, for a step that leaves what it is about.\<close>

lemma ks_gate_same:
  assumes "ks_gate_inv s" and "ks_ready_gate s' = ks_ready_gate s" and "gate_forced (ks_disposer s') = gate_forced (ks_disposer s)"
    and "past_signal (ks_portal s) \<longrightarrow> past_signal (ks_portal s')"
  shows "ks_gate_inv s'"
  using assms by (simp add: ks_gate_inv_def split: if_splits)

lemma ks_slots_same: "ks_slots_inv s \<Longrightarrow> ks_chans s' = ks_chans s \<Longrightarrow> ks_channels s' = ks_channels s \<Longrightarrow> ks_slots_inv s'"
  by (simp add: ks_slots_inv_def)

lemma ks_use_same:
  "ks_use_inv s \<Longrightarrow> ks_chans s' = ks_chans s \<Longrightarrow> (ks_disposing s \<longrightarrow> ks_disposing s') \<Longrightarrow> (portal_ready (ks_portal s) \<longrightarrow> portal_ready (ks_portal s') \<or> ks_disposing s')
    \<Longrightarrow> ks_use_inv s'"
  by (auto simp: ks_use_inv_def)

lemma gate_forced_request: "gate_forced (ks_disposer (ks_request_dispose s)) = gate_forced (ks_disposer s)"
  by (simp add: ks_request_disposer gate_forced_def)

lemma ks_inv_request: "ks_inv s \<Longrightarrow> ks_inv (ks_request_dispose s)"
  unfolding ks_inv_def
  by (intro conjI; elim conjE)
    (simp_all add: ks_gate_same [of s] ks_slots_same [of s] ks_use_same [of s] gate_forced_request ks_end_inv_def ks_alive_inv_def)

lemma ks_inv_start: "ks_inv (client_session_start download)"
proof -
  have "gate_valid (snd (gate_init 1 gate_new)) \<and> gate_needed (snd (gate_init 1 gate_new)) = 1"
    by (simp add: gate_init_def gate_new_def gate_valid_def gate_needed_def gate_initialized_def INVALID_SIGNAL_COUNT_def)
  then show ?thesis
    by (simp add: ks_inv_def ks_gate_inv_def ks_slots_inv_def ks_end_inv_def ks_alive_inv_def ks_use_inv_def client_session_start_def
        ks_disposing_def ks_rundown_def gate_forced_def using_transfer_def)
qed

text \<open>The portal goes from one point to another and nothing else changes.\<close>

definition portal_moves_on :: "client_portal_pc \<Rightarrow> client_portal_pc \<Rightarrow> bool" where
  "portal_moves_on p q \<longleftrightarrow> p \<noteq> CP_done \<and> q \<noteq> CP_done \<and> (past_signal p \<longrightarrow> past_signal q) \<and> (portal_ready p \<longrightarrow> portal_ready q)"

lemma ks_portal_upd [simp]:
  "ks_disposing (s\<lparr>ks_portal := p\<rparr>) = ks_disposing s" "ks_rundown (s\<lparr>ks_portal := p\<rparr>) = ks_rundown s"
  "ks_disposing (s\<lparr>ks_ready_gate := g\<rparr>) = ks_disposing s" "ks_rundown (s\<lparr>ks_ready_gate := g\<rparr>) = ks_rundown s"
  by (simp_all add: ks_disposing_def ks_rundown_def)

lemma ks_inv_move:
  assumes inv: "ks_inv s" and p: "portal_moves_on (ks_portal s) p" "p \<noteq> CP_crashed"
  shows "ks_inv (s\<lparr>ks_portal := p\<rparr>)"
  using ks_invD [OF inv] p unfolding ks_inv_def
  by (intro conjI)
    (simp_all add: ks_gate_same [of s] ks_slots_same [of s] ks_use_same [of s] ks_end_inv_def ks_alive_inv_def portal_moves_on_def)

lemma ks_inv_portal_crash:
  assumes inv: "ks_inv s" and p: "ks_portal s \<noteq> CP_done" "ks_disposing s"
  shows "ks_inv (s\<lparr>ks_portal := CP_crashed\<rparr>)"
  using ks_invD [OF inv] p unfolding ks_inv_def
  by (intro conjI)
    (simp_all add: ks_gate_same [of s] ks_slots_same [of s] ks_use_same [of s] ks_end_inv_def ks_alive_inv_def past_signal_def)

lemma ks_inv_exit:
  assumes inv: "ks_inv s"
  shows "ks_inv (client_portal_exit s)"
proof -
  let ?r = "ks_request_dispose s"
  have inv: "ks_inv ?r" by (rule ks_inv_request [OF inv])
  have d: "ks_disposing (client_portal_exit s)" "ks_rundown (client_portal_exit s) = ks_rundown ?r"
    by (simp_all add: client_portal_exit_def ks_request_dispose_def ks_disposing_def ks_rundown_def)
  show ?thesis
    using ks_invD [OF inv] d unfolding ks_inv_def
    by (intro conjI)
      (simp_all add: ks_gate_same [of ?r] ks_slots_same [of ?r] ks_use_same [of ?r] ks_end_inv_def ks_alive_inv_def
        past_signal_def client_portal_exit_def)
qed

lemma ks_inv_goto:
  assumes inv: "ks_inv s" and k: "ks_chans s k \<noteq> KC_absent" and p: "p \<noteq> KC_absent"
    and a: "\<not> ks_disposing s \<Longrightarrow> p \<noteq> KC_crashed \<and> (using_transfer p \<longrightarrow> portal_ready (ks_portal s))"
  shows "ks_inv (kchan_goto k p s)"
proof -
  note I = ks_invD [OF inv]
  have "ks_slots_inv (kchan_goto k p s)" using I(2) k p by (simp add: ks_slots_inv_def)
  moreover have "ks_use_inv (kchan_goto k p s)" using I(5) a by (simp add: ks_use_inv_def)
  ultimately show ?thesis using I
    by (simp add: ks_inv_def ks_gate_same [of s] ks_end_inv_def ks_alive_inv_def)
qed

lemma ks_inv_add:
  assumes inv: "ks_inv s"
  shows "ks_inv (kchan_goto (ks_channels s) KC_connect (s\<lparr>ks_channels := ks_channels s + 1\<rparr>))" (is "ks_inv ?s")
proof -
  note I = ks_invD [OF inv]
  have d: "ks_disposing (s\<lparr>ks_channels := n\<rparr>) = ks_disposing s" "ks_rundown (s\<lparr>ks_channels := n\<rparr>) = ks_rundown s" for n
    by (simp_all add: ks_disposing_def ks_rundown_def)
  have "ks_chans ?s j = KC_absent \<longleftrightarrow> ks_channels ?s \<le> j" for j
    using I(2) [unfolded ks_slots_inv_def, rule_format, of j] by (cases "j = ks_channels s") (simp_all, arith)
  then have "ks_slots_inv ?s" unfolding ks_slots_inv_def by blast
  moreover have "ks_use_inv ?s" using I(5) by (simp add: ks_use_inv_def d using_transfer_def)
  moreover have "ks_gate_inv ?s" by (rule ks_gate_same [OF I(1)]) simp_all
  moreover have "ks_end_inv ?s" "ks_alive_inv ?s" using I(3,4) by (simp_all add: ks_end_inv_def ks_alive_inv_def d)
  ultimately show ?thesis unfolding ks_inv_def by blast
qed

lemma ks_inv_signal:
  assumes inv: "ks_inv s" and p: "ks_portal s = CP_signal"
    and g: "gate_valid g" "gate_needed g = gate_needed (ks_ready_gate s) - 1"
  shows "ks_inv (s\<lparr>ks_ready_gate := g, ks_portal := CP_invoke\<rparr>)" (is "ks_inv ?s")
proof -
  note I = ks_invD [OF inv]
  have "ks_gate_inv ?s" using I(1) g by (simp add: ks_gate_inv_def past_signal_def split: if_splits)
  moreover have "ks_use_inv ?s" by (rule ks_use_same [OF I(5)]) (simp_all add: portal_ready_def)
  ultimately show ?thesis using I p
    by (simp add: ks_inv_def ks_slots_same [of s] ks_end_inv_def ks_alive_inv_def)
qed

lemma ks_live: "ks_inv s \<Longrightarrow> ks_transfer s \<noteq> Tr_live \<Longrightarrow> ks_disposing s"
  by (auto simp: ks_inv_def ks_alive_inv_def)

lemmas portal_moves_simps = portal_moves_on_def past_signal_def portal_ready_def

lemma ks_inv_portal:
  assumes inv: "ks_inv s" and m: "client_portal_work e s = Some s'"
  shows "ks_inv s'"
proof -
  note mv = ks_inv_move [OF inv, unfolded portal_moves_simps] and ex = ks_inv_exit [OF inv]
  have crash: "ks_portal s \<noteq> CP_done \<Longrightarrow> ks_transfer s \<noteq> Tr_live \<Longrightarrow> ks_inv (s\<lparr>ks_portal := CP_crashed\<rparr>)"
    using ks_inv_portal_crash [OF inv] ks_live [OF inv] by blast
  show ?thesis
  proof (cases "ks_portal s")
    case CP_negotiate
    with m ex mv [of CP_channels] show ?thesis by (simp add: client_portal_work_def split: if_splits)
  next
    case CP_channels
    with m ex mv [of CP_request] ks_inv_add [OF inv] show ?thesis by (simp add: client_portal_work_def split: if_splits)
  next
    case CP_request
    with m ex mv [of CP_respond] crash show ?thesis by (simp add: client_portal_work_def split: if_splits)
  next
    case CP_respond
    with m ex mv [of CP_callback] crash show ?thesis by (simp add: client_portal_work_def split: if_splits)
  next
    case CP_callback
    with m mv [of CP_signal] crash show ?thesis by (simp add: client_portal_work_def split: if_splits)
  next
    case CP_signal
    have v: "gate_valid (ks_ready_gate s)" using ks_invD(1) [OF inv] by (simp add: ks_gate_inv_def)
    obtain g where g: "gate_signal (ks_ready_gate s) = (Ret (), g)" "gate_valid g" "gate_needed g = gate_needed (ks_ready_gate s) - 1"
      by (rule gate_signal_cases [OF v])
    with m CP_signal ks_inv_signal [OF inv CP_signal g(2,3)] show ?thesis by (simp add: client_portal_work_def)
  next
    case CP_invoke
    with m mv [of CP_transfer] crash show ?thesis by (simp add: client_portal_work_def split: if_splits)
  next
    case CP_transfer
    with m ex crash show ?thesis by (simp add: client_portal_work_def split: if_splits)
  qed (use m in \<open>simp_all add: client_portal_work_def\<close>)
qed

lemma ks_inv_channel:
  assumes inv: "ks_inv s" and m: "client_channel_work e k s = Some s'"
  shows "ks_inv s'"
proof -
  note I = ks_invD [OF inv] and goto = ks_inv_goto [OF inv, of k]
  have v: "gate_valid (ks_ready_gate s)" using I(1) by (simp add: ks_gate_inv_def)
  have ready: "portal_ready (ks_portal s)" if "gate_needed (ks_ready_gate s) = 0" "\<not> ks_disposing s"
  proof -
    have "\<not> gate_forced (ks_disposer s)" using that(2) by (auto simp: ks_disposing_def gate_forced_def)
    with I(1) that(1) have "past_signal (ks_portal s)" by (simp add: ks_gate_inv_def)
    with I(3,4) that(2) show ?thesis by (auto simp: past_signal_def portal_ready_def ks_end_inv_def ks_alive_inv_def)
  qed
  have use: "\<not> ks_disposing s \<Longrightarrow> using_transfer (ks_chans s k) \<Longrightarrow> portal_ready (ks_portal s)"
    using I(5) by (simp add: ks_use_inv_def)
  have gd: "ks_inv (kchan_goto k KC_done s)" if "ks_chans s k \<noteq> KC_absent" by (rule goto [OF that]) (simp_all add: using_transfer_def)
  have crash: "ks_chans s k \<noteq> KC_absent \<Longrightarrow> ks_transfer s \<noteq> Tr_live \<Longrightarrow> ks_inv (kchan_goto k KC_crashed s)"
    by (rule goto) (use ks_live [OF inv] in simp_all)
  show ?thesis
  proof (cases "ks_chans s k")
    case KC_wait
    then have "\<not> ks_disposing s \<Longrightarrow> gate_needed (ks_ready_gate s) = 0 \<Longrightarrow> ks_inv (kchan_goto k KC_invoke s)"
      using ready by (intro goto) simp_all
    with m KC_wait ks_inv_request [OF gd] show ?thesis
      by (simp add: client_channel_work_def gate_wait_cases [OF v] split: if_splits)
  next
    case KC_connect
    then have "ks_inv (kchan_goto k KC_wait s)" by (intro goto) (simp_all add: using_transfer_def)
    with m KC_connect ks_inv_request [OF gd] show ?thesis by (simp add: client_channel_work_def split: if_splits)
  next
    case KC_invoke
    then have "ks_inv (kchan_goto k KC_running s)" using use by (intro goto) (simp_all add: using_transfer_def)
    with m KC_invoke crash show ?thesis by (simp add: client_channel_work_def split: if_splits)
  next
    case KC_running
    with m crash gd ks_inv_request [OF gd] show ?thesis by (simp add: client_channel_work_def split: if_splits)
  qed (use m in \<open>simp_all add: client_channel_work_def\<close>)
qed

lemma ks_inv_disposer:
  assumes inv: "ks_inv s" and m: "client_dispose_impl s = Some s'"
  shows "ks_inv s'"
proof -
  note I = ks_invD [OF inv]
  have v: "gate_valid (ks_ready_gate s)" using I(1) by (simp add: ks_gate_inv_def)
  have f: "gate_valid (snd (gate_force_signal_all (ks_ready_gate s)))" "gate_needed (snd (gate_force_signal_all (ks_ready_gate s))) = 0"
    "gate_initialized (ks_ready_gate s)" using gate.force_step [OF v] v by (auto simp: gate_valid_def)
  have same: "ks_chans s' = ks_chans s" "ks_channels s' = ks_channels s" "ks_portal s' = ks_portal s" "ks_exit s' = ks_exit s" "ks_disposing s'"
    using m by (auto simp: client_dispose_impl_def ks_disposing_def split: client_disposer_pc.splits if_splits)
  have "ks_gate_inv s'"
    using m I(1) f by (cases "ks_disposer s") (auto simp: client_dispose_impl_def ks_gate_inv_def gate_forced_def split: if_splits)
  moreover have "ks_end_inv s'"
    using m I(3) same by (cases "ks_disposer s") (auto simp: client_dispose_impl_def ks_end_inv_def ks_rundown_def split: if_splits)
  moreover have "ks_slots_inv s'" using ks_slots_same [OF I(2)] same by simp
  moreover have "ks_alive_inv s'" "ks_use_inv s'" using same(5) by (simp_all add: ks_alive_inv_def ks_use_inv_def)
  ultimately show ?thesis by (simp add: ks_inv_def)
qed

lemma ks_inv_step: "client_session_step s s' \<Longrightarrow> ks_inv s \<Longrightarrow> ks_inv s'"
  by (induction rule: client_session_step.induct) (blast intro: ks_inv_portal ks_inv_channel ks_inv_disposer ks_inv_request)+

lemma client_session_inv: "client_session_reachable s \<Longrightarrow> ks_inv s"
  by (induction rule: client_session_reachable.induct) (blast intro: ks_inv_start ks_inv_step)+

section \<open>The order of a client's session\<close>

text \<open>C36: as long as the disposal of a client has not been required, however its threads interleave: a channel uses the
  transfer only after the portal has signalled that it is ready, while the portal is in it and the
  object lives, and no thread fails an assertion or follows a null pointer. A portal that has returned
  has required the disposal and the exit of the process, so that \<open>main\<close> wakes up.\<close>

theorem client_session_order:
  assumes "client_session_reachable s"
  shows "(\<not> ks_disposing s \<longrightarrow> ks_transfer s = Tr_live \<and> ks_portal s \<noteq> CP_crashed \<and> ks_chans s k \<noteq> KC_crashed
      \<and> (ks_chans s k = KC_invoke \<or> ks_chans s k = KC_running \<longrightarrow> ks_portal s = CP_invoke \<or> ks_portal s = CP_transfer))
    \<and> (ks_portal s = CP_done \<longrightarrow> ks_disposing s \<and> ks_exit s)"
  using ks_invD(3,4,5) [OF client_session_inv [OF assms]]
  unfolding ks_end_inv_def ks_alive_inv_def ks_use_inv_def using_transfer_def portal_ready_def by blast

text \<open>A schedule of moves, to build examples.\<close>

datatype client_move = Client_portal_move stage_end | Client_channel_move stage_end nat | Client_disposer_move

fun move_client :: "client_move \<Rightarrow> client_session \<Rightarrow> client_session option" where
  "move_client (Client_portal_move e) s = client_portal_work e s"
| "move_client (Client_channel_move e k) s = client_channel_work e k s"
| "move_client Client_disposer_move s = client_dispose_impl s"

fun client_session_run :: "client_move list \<Rightarrow> client_session \<Rightarrow> client_session option" where
  "client_session_run [] s = Some s"
| "client_session_run (m # ms) s = (case move_client m s of None \<Rightarrow> None | Some s' \<Rightarrow> client_session_run ms s')"

lemma client_session_run_reachable:
  "client_session_reachable s \<Longrightarrow> client_session_run ms s = Some s' \<Longrightarrow> client_session_reachable s'"
proof (induction ms arbitrary: s)
  case (Cons m ms)
  from Cons.prems(2) obtain s1 where s1: "move_client m s = Some s1" "client_session_run ms s1 = Some s'" by (auto split: option.splits)
  have "client_session_step s s1" using s1(1) by (cases m) (auto intro: client_session_step.intros)
  with Cons s1(2) show ?case by (blast intro: client_session_next)
qed simp

lemmas client_session_eval = client_channel_joined_def client_portal_work_def client_channel_work_def client_dispose_impl_def client_session_start_def
  kchan_goto_def client_portal_exit_def ks_request_dispose_def ks_disposing_def ks_rundown_def gate_init_def gate_new_def gate_signal_def
  gate_wait_def gate_force_signal_all_def gate_initialized_def INVALID_SIGNAL_COUNT_def seq_st_def assert_st_def Let_def

definition demo_client :: "client_move list" where
  "demo_client = [Client_portal_move Stage_ok, Client_portal_move Stage_ok, Client_portal_move Stage_failed, Client_portal_move Stage_ok,
     Client_portal_move Stage_ok, Client_portal_move Stage_ok, Client_channel_move Stage_ok 0, Client_portal_move Stage_ok, Client_channel_move Stage_ok 0,
     Client_channel_move Stage_ok 0]"

theorem client_session_order_witness:
  "\<exists>s. client_session_run demo_client (client_session_start False) = Some s \<and> ks_chans s 0 = KC_running \<and> ks_portal s = CP_invoke"
proof -
  have "\<exists>s. client_session_run demo_client (client_session_start False) = Some s \<and> ks_chans s 0 = KC_running \<and> \<not> ks_disposing s
      \<and> ks_portal s \<noteq> CP_transfer"
    by (simp add: demo_client_def client_session_eval)
  then obtain s where s: "client_session_run demo_client (client_session_start False) = Some s" "ks_chans s 0 = KC_running" "\<not> ks_disposing s"
    "ks_portal s \<noteq> CP_transfer" by blast
  have "client_session_reachable s" by (rule client_session_run_reachable [OF client_session_first s(1)])
  from client_session_order [OF this, of 0] s show ?thesis by blast
qed

section \<open>The disposal does not deadlock\<close>


text \<open>A channel that cannot connect, while the portal waits for the response.\<close>

definition demo_client_failure :: "client_move list" where
  "demo_client_failure = [Client_portal_move Stage_ok, Client_portal_move Stage_ok, Client_portal_move Stage_failed,
     Client_portal_move Stage_ok, Client_channel_move Stage_failed 0]"


text \<open>
  The portal may be about to set its callback when a channel fails: the transfer it needs is reset
  while it is on its way.
\<close>

lemma client_portal_crashes:
  "\<exists>s s'. client_session_reachable s \<and> ks_portal s = CP_callback \<and> ks_transfer s = Tr_freed
    \<and> client_portal_work e s = Some s' \<and> ks_portal s' = CP_crashed"
proof -
  have "\<exists>s. client_session_run (demo_client_failure @ [Client_portal_move Stage_ok, Client_disposer_move]) (client_session_start False) = Some s
      \<and> ks_portal s = CP_callback \<and> ks_transfer s = Tr_freed"
    by (simp add: demo_client_failure_def client_session_eval)
  then obtain s where s: "client_session_run (demo_client_failure @ [Client_portal_move Stage_ok, Client_disposer_move]) (client_session_start False) = Some s"
    "ks_portal s = CP_callback" "ks_transfer s = Tr_freed" by blast
  have "client_session_reachable s" by (rule client_session_run_reachable [OF client_session_first s(1)])
  moreover have "client_portal_work e s = Some (s\<lparr>ks_portal := CP_crashed\<rparr>)" using s by (simp add: client_portal_work_def)
  ultimately show ?thesis using s by (intro exI [of _ s] exI [of _ "s\<lparr>ks_portal := CP_crashed\<rparr>"]) simp
qed

end
