(* ===== verification/Launch.thy ===== *)
theory Launch
  imports Xcp_Prelude
begin

text \<open>
  \<open>launch_thread\<close> of \<open>common.h\<close>, which starts a thread for every accepted socket and hands it the
  \<open>std::thread\<close> object that it has to detach and delete. Launcher and thread synchronise on a mutex
  that lives, with the pointer, in a pair on the heap that the thread deletes. A step is one access to
  what they share.
\<close>

section \<open>The two threads\<close>

datatype launcher_pc =
    L_lock \<comment> \<open>the pair is allocated, its pointer null\<close>
  | L_spawn \<comment> \<open>holding the mutex, about to construct the thread object\<close>
  | L_construct nat \<comment> \<open>in the constructor, the thread may already run\<close>
  | L_store nat \<comment> \<open>about to store the pointer\<close>
  | L_unlock nat
  | L_returned nat
  | L_crashed

datatype launched_pc =
    T_absent
  | T_lock
  | T_unlock
  | T_read
  | T_delete nat \<comment> \<open>has read the pointer, about to delete the pair\<close>
  | T_fn nat \<comment> \<open>in \<open>fn(thr)\<close>\<close>
  | T_crashed

datatype launch_holder = Nobody | Launcher | Launched

text \<open>
  \<open>la_pair\<close> is the pair: \<open>None\<close> once it has been deleted, otherwise its second component, a pointer to
  a thread object (named by a number) or null.
\<close>

record launch =
  la_holder :: launch_holder
  la_pair :: "nat option option"
  la_launcher :: launcher_pc
  la_thread :: launched_pc

definition launch_start :: launch where
  "launch_start = \<lparr>la_holder = Nobody, la_pair = Some None, la_launcher = L_lock, la_thread = T_absent\<rparr>"

text \<open>
  The launcher; \<open>t\<close> names the object that \<open>new std::thread\<close> allocates. Using the deleted pair, or its
  mutex, is undefined behaviour.
\<close>

definition launcher_work :: "nat \<Rightarrow> launch \<Rightarrow> launch option" where
  "launcher_work t s = (case la_launcher s of
       L_lock \<Rightarrow> (if la_pair s = None then Some (s\<lparr>la_launcher := L_crashed\<rparr>)
           else if la_holder s = Nobody then Some (s\<lparr>la_holder := Launcher, la_launcher := L_spawn\<rparr>) else None)
     | L_spawn \<Rightarrow> Some (s\<lparr>la_launcher := L_construct t, la_thread := T_lock\<rparr>)
     | L_construct u \<Rightarrow> Some (s\<lparr>la_launcher := L_store u\<rparr>)
     | L_store u \<Rightarrow> Some (if la_pair s = None then s\<lparr>la_launcher := L_crashed\<rparr>
           else s\<lparr>la_pair := Some (Some u), la_launcher := L_unlock u\<rparr>)
     | L_unlock u \<Rightarrow> Some (if la_pair s = None then s\<lparr>la_launcher := L_crashed\<rparr>
           else s\<lparr>la_holder := Nobody, la_launcher := L_returned u\<rparr>)
     | L_returned u \<Rightarrow> None
     | L_crashed \<Rightarrow> None)"

text \<open>The thread; deleting the pair while its mutex is held is undefined behaviour as well.\<close>

definition launched_work :: "launch \<Rightarrow> launch option" where
  "launched_work s = (case la_thread s of
       T_absent \<Rightarrow> None
     | T_lock \<Rightarrow> (if la_pair s = None then Some (s\<lparr>la_thread := T_crashed\<rparr>)
           else if la_holder s = Nobody then Some (s\<lparr>la_holder := Launched, la_thread := T_unlock\<rparr>) else None)
     | T_unlock \<Rightarrow> Some (if la_pair s = None then s\<lparr>la_thread := T_crashed\<rparr> else s\<lparr>la_holder := Nobody, la_thread := T_read\<rparr>)
     | T_read \<Rightarrow> Some (case la_pair s of Some (Some u) \<Rightarrow> s\<lparr>la_thread := T_delete u\<rparr> | _ \<Rightarrow> s\<lparr>la_thread := T_crashed\<rparr>)
     | T_delete u \<Rightarrow> Some (if la_pair s = None \<or> la_holder s \<noteq> Nobody then s\<lparr>la_thread := T_crashed\<rparr>
           else s\<lparr>la_pair := None, la_thread := T_fn u\<rparr>)
     | T_fn u \<Rightarrow> None
     | T_crashed \<Rightarrow> None)"

inductive launch_step :: "launch \<Rightarrow> launch \<Rightarrow> bool" where
  launcher_moves: "launcher_work t s = Some s' \<Longrightarrow> launch_step s s'"
| launched_moves: "launched_work s = Some s' \<Longrightarrow> launch_step s s'"

inductive launch_reachable :: "launch \<Rightarrow> bool" where
  launch_first: "launch_reachable launch_start"
| launch_next: "launch_reachable s \<Longrightarrow> launch_step s s' \<Longrightarrow> launch_reachable s'"

section \<open>The invariant\<close>

text \<open>
  What the thread can have done at each point of the launcher, and who holds the mutex: until the
  launcher has released the mutex the thread waits for it, and the pair is the launcher's.
\<close>

fun launch_inv :: "launch \<Rightarrow> bool" where
  "launch_inv s \<longleftrightarrow> (case la_launcher s of
       L_lock \<Rightarrow> la_thread s = T_absent \<and> la_holder s = Nobody \<and> la_pair s = Some None
     | L_spawn \<Rightarrow> la_thread s = T_absent \<and> la_holder s = Launcher \<and> la_pair s = Some None
     | L_construct u \<Rightarrow> la_thread s = T_lock \<and> la_holder s = Launcher \<and> la_pair s = Some None
     | L_store u \<Rightarrow> la_thread s = T_lock \<and> la_holder s = Launcher \<and> la_pair s = Some None
     | L_unlock u \<Rightarrow> la_thread s = T_lock \<and> la_holder s = Launcher \<and> la_pair s = Some (Some u)
     | L_returned u \<Rightarrow> (la_holder s, la_pair s, la_thread s) \<in> {(Nobody, Some (Some u), T_lock), (Launched, Some (Some u), T_unlock),
           (Nobody, Some (Some u), T_read), (Nobody, Some (Some u), T_delete u), (Nobody, None, T_fn u)}
     | L_crashed \<Rightarrow> False)"

lemma launch_inv_step: "launch_step s s' \<Longrightarrow> launch_inv s \<Longrightarrow> launch_inv s'"
proof (induction rule: launch_step.induct)
  case (launcher_moves t s s')
  then show ?case by (cases "la_launcher s") (auto simp: launcher_work_def)
next
  case (launched_moves s s')
  then show ?case by (cases "la_launcher s") (auto simp: launched_work_def)
qed

lemma launch_reachable_inv: "launch_reachable s \<Longrightarrow> launch_inv s"
  by (induction rule: launch_reachable.induct) (simp add: launch_start_def, blast intro: launch_inv_step)

text \<open>C31: whatever the interleaving of \<open>launch_thread\<close> with the thread it starts, neither uses the deleted pair,
  reads a null pointer or destroys a mutex that is held. When the thread calls its function, the
  thread object it is given has been constructed and is the one that \<open>launch_thread\<close> returned, and the
  pair has been deleted. Until then one of the two can go on.\<close>

theorem launch_hands_over:
  assumes "launch_reachable s"
  shows "la_launcher s \<noteq> L_crashed \<and> la_thread s \<noteq> T_crashed
    \<and> (la_thread s = T_fn u \<longrightarrow> la_launcher s = L_returned u \<and> la_pair s = None)
    \<and> (la_thread s \<noteq> T_fn u \<longrightarrow> (\<exists>v. la_thread s = T_fn v) \<or> (\<exists>s'. launch_step s s'))"
proof -
  have inv: "launch_inv s" by (rule launch_reachable_inv [OF assms])
  have go: "(\<exists>v. la_thread s = T_fn v) \<or> (\<exists>s'. launcher_work 0 s = Some s') \<or> (\<exists>s'. launched_work s = Some s')"
    using inv by (cases "la_launcher s") (auto simp: launcher_work_def launched_work_def)
  show ?thesis using inv go by (cases "la_launcher s") (auto intro: launch_step.intros)
qed

text \<open>Every step is progress, so a thread that is launched gets to its function.\<close>

definition launch_left :: "launch \<Rightarrow> nat" where
  "launch_left s =
     (case la_launcher s of L_lock \<Rightarrow> 10 | L_spawn \<Rightarrow> 9 | L_construct u \<Rightarrow> 8 | L_store u \<Rightarrow> 7 | L_unlock u \<Rightarrow> 6 | L_returned u \<Rightarrow> 0 | L_crashed \<Rightarrow> 0)
     + (case la_thread s of T_absent \<Rightarrow> 5 | T_lock \<Rightarrow> 4 | T_unlock \<Rightarrow> 3 | T_read \<Rightarrow> 2 | T_delete u \<Rightarrow> 1 | T_fn u \<Rightarrow> 0 | T_crashed \<Rightarrow> 0)"

lemma launch_step_decreases:
  assumes "launch_reachable s" and "launch_step s s'"
  shows "launch_left s' < launch_left s"
  using assms(2) launch_reachable_inv [OF assms(1)]
proof (induction rule: launch_step.induct)
  case (launcher_moves t s s')
  then show ?case by (cases "la_launcher s") (auto simp: launcher_work_def launch_left_def)
next
  case (launched_moves s s')
  then show ?case by (cases "la_launcher s") (auto simp: launched_work_def launch_left_def)
qed

text \<open>An execution, to build examples.\<close>

fun launch_run :: "bool list \<Rightarrow> launch \<Rightarrow> launch option" where
  "launch_run [] s = Some s"
| "launch_run (launcher # ms) s = (case (if launcher then launcher_work 7 s else launched_work s) of
      None \<Rightarrow> None | Some s' \<Rightarrow> launch_run ms s')"

lemma launch_run_reachable: "launch_reachable s \<Longrightarrow> launch_run ms s = Some s' \<Longrightarrow> launch_reachable s'"
proof (induction ms arbitrary: s)
  case (Cons m ms)
  from Cons.prems(2) obtain s1 where s1: "launch_step s s1" "launch_run ms s1 = Some s'"
    by (auto split: option.splits if_splits intro: launch_step.intros)
  from Cons.IH [OF launch_next [OF Cons.prems(1) s1(1)] s1(2)] show ?case .
qed simp

theorem launch_hands_over_witness:
  "\<exists>s. launch_run [True, True, True, True, True, False, False, False, False] launch_start = Some s
    \<and> la_thread s = T_fn 7 \<and> la_launcher s = L_returned 7 \<and> la_pair s = None"
proof -
  have "\<exists>s. launch_run [True, True, True, True, True, False, False, False, False] launch_start = Some s \<and> la_thread s = T_fn 7"
    by (simp add: launch_start_def launcher_work_def launched_work_def)
  then obtain s where s: "launch_run [True, True, True, True, True, False, False, False, False] launch_start = Some s" "la_thread s = T_fn 7"
    by blast
  from launch_hands_over [OF launch_run_reachable [OF launch_first s(1)], of 7] s show ?thesis by simp
qed

end
