(* ===== verification/Accept.thy ===== *)
theory Accept
  imports Sock_Setup
begin

text \<open>
  The life of the listeners of the server (\<open>server_portal_state\<close> and \<open>server_channel_state\<close> in
  \<open>server.cpp\<close>): the set-up of all of them in \<open>init\<close> and their disposal, on the system's calls; and the
  accept loop \<open>fn_thread_accept\<close> interleaved with \<open>dispose_impl\<close> and the threads it launches.
\<close>

section \<open>Setting up and closing the listeners\<close>

text \<open>The state: the descriptor of the portal, those of the channels, and the system's.\<close>

type_synonym 'w listeners = "int \<times> int list \<times> 'w"

text \<open>A channel that fails is disposed of, which closes nothing; those before it stay.\<close>

fun channels_init :: "'w sock_api \<Rightarrow> tcp_sockaddr list list \<Rightarrow> 'w listeners \<Rightarrow> bool outcome \<times> 'w listeners" where
  "channels_init api [] st = (Ret True, st)"
| "channels_init api (addrs # rest) (pfd, cfds, w) =
     (case channel_listen api addrs (zero_sockaddr, (INVALID_SOCKET_VALUE, w)) of
        (Ret ok, (b, (fd, w'))) \<Rightarrow> if ok then channels_init api rest (pfd, cfds @ [fd], w')
          else (Ret False, (pfd, cfds, snd (close_socket api (fd, w'))))
      | (Throw e, (b, (fd, w'))) \<Rightarrow> (Throw e, (pfd, cfds, w'))
      | (Abort, (b, (fd, w'))) \<Rightarrow> (Abort, (pfd, cfds, w'))
      | (Undefined, (b, (fd, w'))) \<Rightarrow> (Undefined, (pfd, cfds, w')))"

definition portal_init :: "'w sock_api \<Rightarrow> tcp_sockaddr list \<Rightarrow> 'w listeners \<Rightarrow> bool outcome \<times> 'w listeners" where
  "portal_init api addrs st =
     (case portal_listen api addrs (zero_sockaddr, (fst st, snd (snd st))) of
        (r, (b, (fd, w'))) \<Rightarrow> (r, (fd, fst (snd st), w')))"

text \<open>\<open>server_portal_state::init\<close>, up to the start of the accept thread.\<close>

definition server_init :: "'w sock_api \<Rightarrow> tcp_sockaddr list list \<Rightarrow> tcp_sockaddr list \<Rightarrow> 'w \<Rightarrow> bool outcome \<times> 'w listeners" where
  "server_init api chans portal w =
     seq_st (channels_init api chans) (\<lambda>ok. if ok then portal_init api portal else return_st False) (INVALID_SOCKET_VALUE, [], w)"

text \<open>The sockets that \<open>server_portal_state::dispose_impl\<close> closes: its own and then those of the channels.\<close>

definition close_channels :: "'w sock_api \<Rightarrow> int list \<Rightarrow> 'w \<Rightarrow> 'w" where
  "close_channels api cfds w = fold (\<lambda>fd w. snd (close_socket api (fd, w))) cfds w"

definition server_close :: "'w sock_api \<Rightarrow> 'w listeners \<Rightarrow> 'w" where
  "server_close api st = close_channels api (fst (snd st)) (snd (close_socket api (fst st, snd (snd st))))"

section \<open>Every descriptor is closed\<close>

text \<open>The open descriptors are those from before and, each once, those of the listeners.\<close>

definition listeners_own :: "('w \<Rightarrow> int set) \<Rightarrow> int set \<Rightarrow> int list \<Rightarrow> 'w \<Rightarrow> bool" where
  "listeners_own fds F cfds w \<longleftrightarrow> distinct cfds \<and> set cfds \<inter> F = {} \<and> INVALID_SOCKET_VALUE \<notin> set cfds \<and> fds w = F \<union> set cfds"

lemma listeners_own_add:
  assumes "listeners_own fds F cfds w" and "fd \<noteq> INVALID_SOCKET_VALUE" "fd \<notin> fds w" "fds w' = insert fd (fds w)"
  shows "listeners_own fds F (cfds @ [fd]) w'"
  using assms by (auto simp: listeners_own_def)

lemma listeners_own_same: "listeners_own fds F cfds w \<Longrightarrow> fds w' = fds w \<Longrightarrow> listeners_own fds F cfds w'"
  by (simp add: listeners_own_def)

lemma fds_close:
  assumes "api_fds api fds"
  shows "fds (snd (close_socket api (fd, w))) = (if fd = INVALID_SOCKET_VALUE then fds w else fds w - {fd})"
  by (simp add: close_socket_def api_keep(1) [OF assms])

lemma listen_fds:
  assumes "api_fds api fds" and "try_addresses (try_listen api) addrs (b, (fd, w)) = (Ret ok, (b', (fd', w')))"
  shows "if ok then fd' \<noteq> INVALID_SOCKET_VALUE \<and> fd' \<notin> fds w \<and> fds w' = insert fd' (fds w) else fds w' = fds w"
  using try_addresses_fds [OF try_listen_fds [OF assms(1)] assms(2)] by (cases ok) auto

lemma listen_failed:
  "attempt_fds fds attempt \<Longrightarrow> try_addresses attempt as st = (Ret False, st') \<Longrightarrow> as \<noteq> [] \<or> fst (snd st) = INVALID_SOCKET_VALUE
    \<Longrightarrow> fst (snd st') = INVALID_SOCKET_VALUE"
proof (induction as arbitrary: st)
  case (Cons a as)
  from Cons.prems(2) obtain b st1 where at: "attempt a (fst st, (INVALID_SOCKET_VALUE, snd (snd st))) = (Ret b, st1)"
    and rest: "(if b then (Ret True, st1) else try_addresses attempt as st1) = (Ret False, st')"
    by (auto simp: seq_st_Ret_iff)
  from rest have b: "\<not> b" "try_addresses attempt as st1 = (Ret False, st')" by (auto split: if_splits)
  with Cons.prems(1) at have "fst (snd st1) = INVALID_SOCKET_VALUE" unfolding attempt_fds_def by blast
  with Cons.IH [OF Cons.prems(1) b(2)] show ?case by simp
qed simp

lemma channels_init_own:
  "api_fds api fds \<Longrightarrow> listeners_own fds F (fst (snd st)) (snd (snd st)) \<Longrightarrow> channels_init api chans st = (Ret ok, st') \<Longrightarrow>
    listeners_own fds F (fst (snd st')) (snd (snd st')) \<and> fst st' = fst st"
proof (induction api chans st rule: channels_init.induct)
  case (2 api addrs rest pfd cfds w)
  obtain r b fd w' where l: "channel_listen api addrs (zero_sockaddr, (INVALID_SOCKET_VALUE, w)) = (r, (b, (fd, w')))"
    by (metis prod.exhaust)
  with "2.prems"(3) obtain okc where r: "r = Ret okc" by (cases r) auto
  note l = l [unfolded r]
  from l have t: "try_addresses (try_listen api) addrs (zero_sockaddr, (INVALID_SOCKET_VALUE, w)) = (Ret okc, (b, (fd, w')))"
    by (simp add: channel_listen_def split: if_splits)
  note f = listen_fds [OF "2.prems"(1) t]
  show ?case
  proof (cases okc)
    case True
    have "listeners_own fds F (cfds @ [fd]) w'" using listeners_own_add [of fds F cfds w fd w'] "2.prems"(2) f True by simp
    with "2.IH" [OF l [symmetric] refl refl refl _ "2.prems"(1)] True "2.prems"(3) l show ?thesis by simp
  next
    case False
    with t have tf: "try_addresses (try_listen api) addrs (zero_sockaddr, (INVALID_SOCKET_VALUE, w)) = (Ret False, (b, (fd, w')))" by simp
    have "fd = INVALID_SOCKET_VALUE" using listen_failed [OF try_listen_fds [OF "2.prems"(1)] tf] by simp
    with False "2.prems"(2,3) l f listeners_own_same [of fds F cfds w w'] show ?thesis by (auto simp: close_socket_def)
  qed
qed simp
lemma server_init_own:
  assumes "api_fds api fds" and "server_init api chans portal w = (Ret ok, (pfd, cfds, w'))"
  shows "if ok then listeners_own fds (fds w) (pfd # cfds) w' else pfd = INVALID_SOCKET_VALUE \<and> listeners_own fds (fds w) cfds w'"
proof -
  let ?start = "(INVALID_SOCKET_VALUE, [], w)"
  from assms(2) obtain okc pfd1 cfds1 w1 where c: "channels_init api chans ?start = (Ret okc, (pfd1, cfds1, w1))"
    and rest: "(if okc then portal_init api portal else return_st False) (pfd1, cfds1, w1) = (Ret ok, (pfd, cfds, w'))"
    by (auto simp: server_init_def seq_st_Ret_iff)
  have "listeners_own fds (fds w) (fst (snd ?start)) (snd (snd ?start))" by (simp add: listeners_own_def)
  from channels_init_own [OF assms(1) this c] have own: "listeners_own fds (fds w) cfds1 w1" and p: "pfd1 = INVALID_SOCKET_VALUE" by simp_all
  show ?thesis
  proof (cases okc)
    case True
    obtain r b fd w2 where l: "portal_listen api portal (zero_sockaddr, (pfd1, w1)) = (r, (b, (fd, w2)))" by (metis prod.exhaust)
    with rest True have r: "r = Ret ok" and eq: "pfd = fd" "cfds = cfds1" "w' = w2" by (simp_all add: portal_init_def)
    from l [unfolded r portal_listen_def] have t: "try_addresses (try_listen api) portal (zero_sockaddr, (pfd1, w1)) = (Ret ok, (b, (fd, w2)))" .
    note f = listen_fds [OF assms(1) t]
    show ?thesis
    proof (cases ok)
      case True
      with own f eq show ?thesis by (auto simp: listeners_own_def)
    next
      case False
      with t have tf: "try_addresses (try_listen api) portal (zero_sockaddr, (pfd1, w1)) = (Ret False, (b, (fd, w2)))" by simp
      have "fd = INVALID_SOCKET_VALUE" using listen_failed [OF try_listen_fds [OF assms(1)] tf] p by simp
      with False f eq own listeners_own_same [of fds _ cfds1 w1 w2] show ?thesis by simp
    qed
  next
    case False
    with rest own p show ?thesis by (simp add: return_st_def)
  qed
qed

lemma close_channels_fds:
  "api_fds api fds \<Longrightarrow> INVALID_SOCKET_VALUE \<notin> set cfds \<Longrightarrow> fds (close_channels api cfds w) = fds w - set cfds"
  by (induction cfds arbitrary: w) (auto simp: close_channels_def fds_close)

text \<open>C30: however many channels the server has and addresses they resolve to, and whichever call fails: after a
  successful \<open>init\<close> every listener has a descriptor of its own, open until the server is disposed of;
  and whether \<open>init\<close> succeeds or fails, the disposal leaves exactly the descriptors open that were open
  before.\<close>

theorem server_closes_listeners:
  assumes "api_fds api fds" and "server_init api chans portal w = (Ret ok, (pfd, cfds, w'))"
  shows "(ok \<longrightarrow> distinct (pfd # cfds) \<and> set (pfd # cfds) \<inter> fds w = {} \<and> fds w' = fds w \<union> set (pfd # cfds))
    \<and> fds (server_close api (pfd, cfds, w')) = fds w"
proof -
  note own = server_init_own [OF assms]
  have inv: "INVALID_SOCKET_VALUE \<notin> set cfds" using own by (simp add: listeners_own_def split: if_splits)
  have "fds (server_close api (pfd, cfds, w')) = fds w"
    using own unfolding server_close_def by (auto simp: close_channels_fds [OF assms(1) inv] fds_close [OF assms(1)] listeners_own_def split: if_splits)
  moreover have "ok \<longrightarrow> distinct (pfd # cfds) \<and> set (pfd # cfds) \<inter> fds w = {} \<and> fds w' = fds w \<union> set (pfd # cfds)"
    using own unfolding listeners_own_def by (cases ok) auto
  ultimately show ?thesis by simp
qed

text \<open>An example: two descriptors are free, and the portal cannot be bound.\<close>

definition two_free_api :: "int set sock_api" where
  "two_free_api = demo_api\<lparr>sa_socket := (\<lambda>fam w. if 3 \<notin> w then (3, insert 3 w) else if 4 \<notin> w then (4, insert 4 w) else (-1, w))\<rparr>"

definition demo_addr4 :: tcp_sockaddr where
  "demo_addr4 = Addr_ipv4 \<lparr>sin_port = 5, sin_addr = 0\<rparr>"

definition demo_addr6 :: tcp_sockaddr where
  "demo_addr6 = Addr_ipv6 \<lparr>sin6_port = 5, sin6_flowinfo = 0, sin6_addr = in6addr_any, sin6_scope_id = 0\<rparr>"

lemma two_free_fds: "api_fds two_free_api (\<lambda>w. w)"
  by (simp add: api_fds_def two_free_api_def demo_api_def INVALID_SOCKET_VALUE_def)

lemma demo_server_init:
  "server_init two_free_api [[demo_addr4]] [demo_addr6] {0} = (Ret False, (-1, [3], {0, 3}))"
  by (simp add: server_init_def portal_init_def channel_listen_def portal_listen_def try_listen_def sweep_scope_def and_then_def seq_st_def
      on_socket_def init_tcp_def socket_bind_def socket_listen_def enable_dual_stack_if_inet6_def drop_attempt_def close_socket_def
      two_free_api_def demo_api_def demo_addr4_def demo_addr6_def INVALID_SOCKET_VALUE_def AF_INET_def AF_INET6_def insert_commute Let_def) auto

theorem server_closes_listeners_witness:
  "server_close two_free_api (-1, [3], {0, 3}) = {0}"
  using server_closes_listeners [OF two_free_fds demo_server_init] by simp

end
