(* ===== verification/Accept_Loop.thy ===== *)
theory Accept_Loop
  imports Xcp_Prelude
begin

text \<open>
  The accept loop of a listener of the server (\<open>fn_thread_accept\<close> of \<open>server_portal_state\<close> and of
  \<open>server_channel_state\<close> in \<open>server.cpp\<close>, which are the same) interleaved with its \<open>dispose_impl\<close>, with
  the threads it launches for the accepted sockets, and with the end of \<open>main\<close> (\<open>xcpd.cpp\<close>), which
  requires the exit, disposes of the server and frees it. A step is one access to what they share.
\<close>

section \<open>The state\<close>

text \<open>The member \<open>sock\<close>: a listening socket, one that has been closed, or null after \<open>reset\<close>.\<close>

datatype listen_ptr = Sock_listening | Sock_closed | Sock_null

datatype accept_pc =
    Ac_top \<comment> \<open>about to follow \<open>sock\<close> and call \<open>accept\<close>\<close>
  | Ac_accept \<comment> \<open>in \<open>accept\<close>\<close>
  | Ac_failed \<comment> \<open>\<open>accept\<close> failed, about to look whether the exit is required\<close>
  | Ac_launch \<comment> \<open>holding an accepted socket, about to launch its thread\<close>
  | Ac_done
  | Ac_crashed

datatype greeter_pc =
    G_absent
  | G_greeting \<comment> \<open>receiving the greeting from the accepted socket\<close>
  | G_portal \<comment> \<open>about to use the state of the portal\<close>
  | G_done
  | G_crashed

datatype listener_disposer = Ld_none | Ld_close | Ld_reset | Ld_join | Ld_free | Ld_freed

record listener =
  ls_sock :: listen_ptr
  ls_accept :: accept_pc
  ls_threads :: "nat \<Rightarrow> greeter_pc"
  ls_launched :: nat
  ls_accepted :: nat \<comment> \<open>sockets accepted so far\<close>
  ls_exit :: bool
  ls_disposer :: listener_disposer

text \<open>After \<open>init\<close>.\<close>

definition listener_start :: listener where
  "listener_start = \<lparr>ls_sock = Sock_listening, ls_accept = Ac_top, ls_threads = (\<lambda>_. G_absent), ls_launched = 0, ls_accepted = 0,
     ls_exit = False, ls_disposer = Ld_none\<rparr>"

section \<open>The threads\<close>

text \<open>
  \<open>fn_thread_accept\<close>; \<open>got\<close> tells whether a connection is accepted, which takes a listening socket. The
  exit is looked up only after a failed \<open>accept\<close>.
\<close>

definition fn_thread_accept :: "bool \<Rightarrow> listener \<Rightarrow> listener option" where
  "fn_thread_accept got s = (case ls_accept s of
       Ac_top \<Rightarrow> Some (s\<lparr>ls_accept := (if ls_sock s = Sock_null then Ac_crashed else Ac_accept)\<rparr>)
     | Ac_accept \<Rightarrow> Some (if got \<and> ls_sock s = Sock_listening then s\<lparr>ls_accept := Ac_launch, ls_accepted := ls_accepted s + 1\<rparr>
         else s\<lparr>ls_accept := Ac_failed\<rparr>)
     | Ac_failed \<Rightarrow> Some (s\<lparr>ls_accept := (if ls_exit s then Ac_done else Ac_top)\<rparr>)
     | Ac_launch \<Rightarrow> Some (s\<lparr>ls_threads := (ls_threads s)(ls_launched s := G_greeting), ls_launched := ls_launched s + 1, ls_accept := Ac_top\<rparr>)
     | Ac_done \<Rightarrow> None
     | Ac_crashed \<Rightarrow> None)"

text \<open>The loop of a channel of the server is the same code.\<close>

definition channel_fn_thread_accept :: "bool \<Rightarrow> listener \<Rightarrow> listener option" where
  "channel_fn_thread_accept = fn_thread_accept"

text \<open>
  A launched thread: with a good greeting it uses the portal through a plain pointer. It has been
  detached and nobody waits for it.
\<close>

definition launched_greeter :: "bool \<Rightarrow> nat \<Rightarrow> listener \<Rightarrow> listener option" where
  "launched_greeter good i s = (case ls_threads s i of
       G_absent \<Rightarrow> None
     | G_greeting \<Rightarrow> Some (s\<lparr>ls_threads := (ls_threads s)(i := (if good then G_portal else G_done))\<rparr>)
     | G_portal \<Rightarrow> Some (s\<lparr>ls_threads := (ls_threads s)(i := (if ls_disposer s = Ld_freed then G_crashed else G_done))\<rparr>)
     | G_done \<Rightarrow> None
     | G_crashed \<Rightarrow> None)"

text \<open>\<open>dispose_impl\<close> and, after it, the release of the server by \<open>main\<close>.\<close>

definition listener_dispose :: "listener \<Rightarrow> listener option" where
  "listener_dispose s = (case ls_disposer s of
       Ld_none \<Rightarrow> if ls_exit s then Some (s\<lparr>ls_disposer := Ld_close\<rparr>) else None
     | Ld_close \<Rightarrow> Some (s\<lparr>ls_sock := Sock_closed, ls_disposer := Ld_reset\<rparr>)
     | Ld_reset \<Rightarrow> Some (s\<lparr>ls_sock := Sock_null, ls_disposer := Ld_join\<rparr>)
     | Ld_join \<Rightarrow> if ls_accept s = Ac_done then Some (s\<lparr>ls_disposer := Ld_free\<rparr>) else None
     | Ld_free \<Rightarrow> Some (s\<lparr>ls_disposer := Ld_freed\<rparr>)
     | Ld_freed \<Rightarrow> None)"

text \<open>The exit is required by a signal, or by the sweeper of \<open>main\<close> before it disposes of the server.\<close>

inductive listener_step :: "listener \<Rightarrow> listener \<Rightarrow> bool" where
  accept_moves: "fn_thread_accept got s = Some s' \<Longrightarrow> listener_step s s'"
| greeter_moves: "launched_greeter good i s = Some s' \<Longrightarrow> listener_step s s'"
| listener_disposes: "listener_dispose s = Some s' \<Longrightarrow> listener_step s s'"
| exit_required: "listener_step s (s\<lparr>ls_exit := True\<rparr>)"

inductive listener_reachable :: "listener \<Rightarrow> bool" where
  listener_first: "listener_reachable listener_start"
| listener_next: "listener_reachable s \<Longrightarrow> listener_step s s' \<Longrightarrow> listener_reachable s'"

section \<open>The invariant\<close>

text \<open>Every accepted socket has its thread, or is about to get it.\<close>

definition handed_over :: "listener \<Rightarrow> bool" where
  "handed_over s \<longleftrightarrow> ls_accepted s = ls_launched s + (if ls_accept s = Ac_launch then 1 else 0)
     \<and> (\<forall>i. ls_threads s i = G_absent \<longleftrightarrow> ls_launched s \<le> i)"

definition listening_until :: "listener \<Rightarrow> bool" where
  "listening_until s \<longleftrightarrow> (ls_disposer s = Ld_none \<or> ls_disposer s = Ld_close \<longrightarrow> ls_sock s = Sock_listening)
     \<and> (ls_disposer s = Ld_reset \<longrightarrow> ls_sock s = Sock_closed) \<and> (ls_accept s = Ac_crashed \<longrightarrow> ls_sock s = Sock_null)
     \<and> (ls_disposer s \<noteq> Ld_none \<or> ls_accept s = Ac_done \<longrightarrow> ls_exit s)"

definition freed_last :: "listener \<Rightarrow> bool" where
  "freed_last s \<longleftrightarrow> (ls_disposer s = Ld_free \<or> ls_disposer s = Ld_freed \<longrightarrow> ls_accept s = Ac_done)
     \<and> ((\<exists>i. ls_threads s i = G_crashed) \<longrightarrow> ls_disposer s = Ld_freed)"

lemma handed_over_goto:
  "handed_over s \<Longrightarrow> ls_threads s i \<noteq> G_absent \<Longrightarrow> p \<noteq> G_absent \<Longrightarrow> handed_over (s\<lparr>ls_threads := (ls_threads s)(i := p)\<rparr>)"
  by (simp add: handed_over_def)

lemma handed_over_launch:
  assumes "handed_over s" and "ls_accept s = Ac_launch"
  shows "handed_over (s\<lparr>ls_threads := (ls_threads s)(ls_launched s := G_greeting), ls_launched := ls_launched s + 1, ls_accept := Ac_top\<rparr>)"
proof -
  have "((ls_threads s)(ls_launched s := G_greeting)) i = G_absent \<longleftrightarrow> ls_launched s + 1 \<le> i" for i
    using assms(1) [unfolded handed_over_def, THEN conjunct2, rule_format, of i] by (cases "i = ls_launched s") (simp_all, arith)
  then show ?thesis using assms by (simp add: handed_over_def)
qed

lemma handed_over_same:
  assumes "handed_over s" and "ls_threads s' = ls_threads s" "ls_launched s' = ls_launched s"
    and "ls_accepted s' + (if ls_accept s = Ac_launch then 1 else 0) = ls_accepted s + (if ls_accept s' = Ac_launch then 1 else 0)"
  shows "handed_over s'"
proof -
  have "ls_accepted s' = ls_launched s' + (if ls_accept s' = Ac_launch then 1 else 0)"
    using assms(1)[unfolded handed_over_def, THEN conjunct1] assms(3,4) by (simp split: if_splits)
  with assms(1-3) show ?thesis unfolding handed_over_def by simp
qed

lemma accept_keeps:
  assumes "fn_thread_accept got s = Some s'" and "handed_over s" "listening_until s" "freed_last s"
  shows "handed_over s' \<and> listening_until s' \<and> freed_last s'"
proof (cases "ls_accept s")
  case Ac_launch
  with assms(1) have s': "s' = s\<lparr>ls_threads := (ls_threads s)(ls_launched s := G_greeting), ls_launched := ls_launched s + 1, ls_accept := Ac_top\<rparr>"
    by (simp add: fn_thread_accept_def)
  have "handed_over s'" unfolding s' by (rule handed_over_launch [OF assms(2) Ac_launch])
  moreover have "freed_last s'" using assms(4) Ac_launch by (auto simp: s' freed_last_def)
  ultimately show ?thesis using assms(3) Ac_launch by (simp add: s' listening_until_def)
qed (use assms(1,3,4) in \<open>auto intro!: handed_over_same [OF assms(2)] simp: fn_thread_accept_def listening_until_def freed_last_def split: if_splits\<close>)

lemma greeter_keeps:
  assumes "launched_greeter good i s = Some s'" and "handed_over s" "listening_until s" "freed_last s"
  shows "handed_over s' \<and> listening_until s' \<and> freed_last s'"
proof -
  from assms(1) obtain p where s': "s' = s\<lparr>ls_threads := (ls_threads s)(i := p)\<rparr>" and i: "ls_threads s i \<noteq> G_absent"
    and p: "p \<noteq> G_absent" "p = G_crashed \<longrightarrow> ls_disposer s = Ld_freed"
    by (cases "ls_threads s i") (auto simp: launched_greeter_def)
  have "handed_over s'" unfolding s' by (rule handed_over_goto [OF assms(2) i p(1)])
  moreover have "freed_last s'" using assms(4) p(2) by (auto simp: s' freed_last_def)
  ultimately show ?thesis using assms(3) by (simp add: s' listening_until_def)
qed

lemma dispose_keeps:
  assumes "listener_dispose s = Some s'" and "handed_over s" "listening_until s" "freed_last s"
  shows "handed_over s' \<and> listening_until s' \<and> freed_last s'"
  using assms(1,3,4)
  by (cases "ls_disposer s")
    (auto intro!: handed_over_same [OF assms(2)] simp: listener_dispose_def listening_until_def freed_last_def split: if_splits)

lemma listener_inv: "listener_reachable s \<Longrightarrow> handed_over s \<and> listening_until s \<and> freed_last s"
proof (induction rule: listener_reachable.induct)
  case listener_first
  show ?case by (simp add: listener_start_def handed_over_def listening_until_def freed_last_def)
next
  case (listener_next s s')
  from listener_next.hyps(2) listener_next.IH show ?case
  proof (induction rule: listener_step.induct)
    case (exit_required s)
    then show ?case using handed_over_same [of s "s\<lparr>ls_exit := True\<rparr>"] by (simp add: listening_until_def freed_last_def)
  qed (blast dest: accept_keeps greeter_keeps dispose_keeps)+
qed

text \<open>C28: as long as the disposal of the server has not closed the listening socket, its accept loop neither ends nor
  fails unless the exit of the process is required, no launched thread touches a freed server, and every
  accepted socket is handed to exactly one launched thread.\<close>

theorem accept_loop_serves:
  assumes "listener_reachable s" and "ls_disposer s = Ld_none \<or> ls_disposer s = Ld_close"
  shows "ls_accept s \<noteq> Ac_crashed \<and> (ls_accept s = Ac_done \<longrightarrow> ls_exit s) \<and> (\<forall>i. ls_threads s i \<noteq> G_crashed)
    \<and> ls_accepted s = card {i. ls_threads s i \<noteq> G_absent} + (if ls_accept s = Ac_launch then 1 else 0)"
proof -
  note inv = listener_inv [OF assms(1)]
  have "{i. ls_threads s i \<noteq> G_absent} = {..<ls_launched s}"
    using inv by (auto simp: handed_over_def not_le)
  then have "card {i. ls_threads s i \<noteq> G_absent} = ls_launched s" by simp
  with inv assms(2) show ?thesis unfolding handed_over_def listening_until_def freed_last_def by auto
qed
text \<open>Moves, to build examples.\<close>

datatype listener_move = Accept_move bool | Greeter_move bool nat | Dispose_move | Exit_move

fun move_listener :: "listener_move \<Rightarrow> listener \<Rightarrow> listener option" where
  "move_listener (Accept_move got) s = fn_thread_accept got s"
| "move_listener (Greeter_move good i) s = launched_greeter good i s"
| "move_listener Dispose_move s = listener_dispose s"
| "move_listener Exit_move s = Some (s\<lparr>ls_exit := True\<rparr>)"

fun listener_run :: "listener_move list \<Rightarrow> listener \<Rightarrow> listener option" where
  "listener_run [] s = Some s"
| "listener_run (m # ms) s = (case move_listener m s of None \<Rightarrow> None | Some s' \<Rightarrow> listener_run ms s')"

lemma move_listener_step: "move_listener m s = Some s' \<Longrightarrow> listener_step s s'"
  by (cases m) (auto intro: listener_step.intros)

lemma listener_run_Cons: "listener_run (m # ms) s = Some s' \<longleftrightarrow> (\<exists>s1. move_listener m s = Some s1 \<and> listener_run ms s1 = Some s')"
  by (auto split: option.splits)

lemma listener_run_reachable: "listener_reachable s \<Longrightarrow> listener_run ms s = Some s' \<Longrightarrow> listener_reachable s'"
proof (induction ms arbitrary: s)
  case (Cons m ms)
  then show ?case unfolding listener_run_Cons by (blast intro: listener_next move_listener_step)
qed simp

lemmas listener_eval = fn_thread_accept_def launched_greeter_def listener_dispose_def listener_start_def

theorem accept_loop_serves_witness:
  "\<exists>s. listener_run [Accept_move True, Accept_move True, Accept_move False, Greeter_move True 0] listener_start = Some s
    \<and> ls_accepted s = card {i. ls_threads s i \<noteq> G_absent} \<and> ls_accept s \<noteq> Ac_crashed"
proof -
  have "\<exists>s. listener_run [Accept_move True, Accept_move True, Accept_move False, Greeter_move True 0] listener_start = Some s
      \<and> ls_disposer s = Ld_none \<and> ls_accept s = Ac_top"
    by (simp add: listener_eval)
  then obtain s where s: "listener_run [Accept_move True, Accept_move True, Accept_move False, Greeter_move True 0] listener_start = Some s"
    "ls_disposer s = Ld_none" "ls_accept s = Ac_top" by blast
  have "listener_reachable s" by (rule listener_run_reachable [OF listener_first s(1)])
  from accept_loop_serves [OF this] s show ?thesis by auto
qed

section \<open>The accept loop stops\<close>

definition is_accept_move :: "listener_move \<Rightarrow> bool" where
  "is_accept_move m \<longleftrightarrow> (case m of Accept_move got \<Rightarrow> True | _ \<Rightarrow> False)"

definition accept_left :: "listener \<Rightarrow> nat" where
  "accept_left s = (case ls_accept s of Ac_launch \<Rightarrow> 4 | Ac_top \<Rightarrow> 3 | Ac_accept \<Rightarrow> 2 | Ac_failed \<Rightarrow> 1 | Ac_done \<Rightarrow> 0 | Ac_crashed \<Rightarrow> 0)"

definition stopping :: "listener \<Rightarrow> bool" where
  "stopping s \<longleftrightarrow> ls_sock s \<noteq> Sock_listening \<and> ls_exit s"

lemma accept_left_accept:
  "fn_thread_accept got s = Some s' \<Longrightarrow> stopping s \<Longrightarrow> stopping s' \<and> accept_left s' + 1 \<le> accept_left s"
  by (cases "ls_accept s") (auto simp: fn_thread_accept_def stopping_def accept_left_def)

lemma accept_left_other:
  assumes "move_listener m s = Some s'" and "\<not> is_accept_move m" and "stopping s"
  shows "stopping s' \<and> accept_left s' = accept_left s"
proof (cases m)
  case (Greeter_move good i)
  with assms show ?thesis by (cases "ls_threads s i") (auto simp: launched_greeter_def stopping_def accept_left_def)
next
  case Dispose_move
  with assms show ?thesis
    by (cases "ls_disposer s") (auto simp: listener_dispose_def stopping_def accept_left_def split: if_splits)
qed (use assms in \<open>auto simp: is_accept_move_def stopping_def accept_left_def\<close>)

lemma stopping_run:
  "stopping s \<Longrightarrow> listener_run ms s = Some s' \<Longrightarrow> length (filter is_accept_move ms) + accept_left s' \<le> accept_left s"
proof (induction ms arbitrary: s)
  case (Cons m ms)
  from Cons.prems(2) obtain s1 where s1: "move_listener m s = Some s1" "listener_run ms s1 = Some s'" unfolding listener_run_Cons by blast
  show ?case
  proof (cases "is_accept_move m")
    case True
    with s1(1) obtain got where "fn_thread_accept got s = Some s1" by (cases m) (auto simp: is_accept_move_def)
    with accept_left_accept Cons.prems(1) Cons.IH [OF _ s1(2)] True show ?thesis by fastforce
  next
    case False
    with accept_left_other [OF s1(1) False Cons.prems(1)] Cons.IH [OF _ s1(2)] show ?thesis by simp
  qed
qed simp

lemma reachable_stopping: "listener_reachable s \<Longrightarrow> ls_sock s \<noteq> Sock_listening \<Longrightarrow> stopping s"
  using listener_inv [of s] by (auto simp: listening_until_def stopping_def)

text \<open>C29: once the disposal has closed the listening socket, the thread of the accept loop takes at most four more
  steps in any execution, and it can take them until it has ended or crashed: joining it does not wait
  for ever.\<close>

theorem accept_loop_stops:
  assumes "listener_reachable s" and "ls_sock s \<noteq> Sock_listening" and "listener_run ms s = Some s'"
  shows "length (filter is_accept_move ms) \<le> 4
    \<and> (ls_accept s' = Ac_done \<or> ls_accept s' = Ac_crashed \<or> (\<exists>s''. fn_thread_accept got s' = Some s''))"
proof -
  have "accept_left s \<le> 4" by (simp add: accept_left_def split: accept_pc.splits)
  with stopping_run [OF reachable_stopping [OF assms(1,2)] assms(3)]
  have "length (filter is_accept_move ms) \<le> 4" by linarith
  moreover have "ls_accept s' = Ac_done \<or> ls_accept s' = Ac_crashed \<or> (\<exists>s''. fn_thread_accept got s' = Some s'')"
    by (cases "ls_accept s'") (simp_all add: fn_thread_accept_def)
  ultimately show ?thesis by blast
qed

text \<open>The longest end: the socket is closed while an accepted one is being handed over.\<close>

definition demo_stop :: "listener_move list" where
  "demo_stop = [Accept_move True, Accept_move True, Exit_move, Dispose_move, Dispose_move]"

definition demo_stop_end :: "listener_move list" where
  "demo_stop_end = [Accept_move False, Accept_move False, Dispose_move, Accept_move False, Accept_move False, Dispose_move]"

theorem accept_loop_stops_witness:
  "\<exists>s s'. listener_run demo_stop listener_start = Some s \<and> listener_run demo_stop_end s = Some s' \<and> ls_disposer s' = Ld_free
    \<and> length (filter is_accept_move demo_stop_end) \<le> 4"
proof -
  have "\<exists>s s'. listener_run demo_stop listener_start = Some s \<and> ls_sock s = Sock_closed \<and> listener_run demo_stop_end s = Some s'
      \<and> ls_disposer s' = Ld_free"
    by (simp add: demo_stop_def demo_stop_end_def listener_eval)
  then obtain s s' where s: "listener_run demo_stop listener_start = Some s" "ls_sock s = Sock_closed"
    "listener_run demo_stop_end s = Some s'" "ls_disposer s' = Ld_free" by blast
  have "listener_reachable s" by (rule listener_run_reachable [OF listener_first s(1)])
  from accept_loop_stops [OF this _ s(3)] s show ?thesis by auto
qed

section \<open>What the disposal does not wait for\<close>

text \<open>
  The pointer is reset before the thread is joined: when \<open>accept\<close> has returned a socket, the loop comes
  back to a null pointer.
\<close>

lemma accept_follows_null: "\<exists>s. listener_reachable s \<and> ls_disposer s = Ld_join \<and> ls_accept s = Ac_crashed"
proof -
  have "\<exists>s. listener_run (demo_stop @ [Dispose_move, Accept_move False, Accept_move False]) listener_start = Some s
      \<and> ls_disposer s = Ld_join \<and> ls_accept s = Ac_crashed"
    by (simp add: demo_stop_def listener_eval)
  then show ?thesis by (blast intro: listener_run_reachable listener_first)
qed

text \<open>Nobody waits for a launched thread: with a slow greeting it uses the portal after it has been freed.\<close>

lemma greeter_uses_freed: "\<exists>s i. listener_reachable s \<and> ls_accept s = Ac_done \<and> ls_threads s i = G_crashed"
proof -
  have "\<exists>s. listener_run (demo_stop @ demo_stop_end @ [Dispose_move, Greeter_move True 0, Greeter_move True 0]) listener_start = Some s
      \<and> ls_accept s = Ac_done \<and> ls_threads s 0 = G_crashed"
    by (simp add: demo_stop_def demo_stop_end_def listener_eval)
  then show ?thesis by (blast intro: listener_run_reachable listener_first)
qed

end
