(* ===== verification/Clients.thy ===== *)
theory Clients
  imports Session Handshake
begin

text \<open>
  The clients of a server (\<open>server_portal_state\<close> in \<open>server.h\<close> and \<open>server.cpp\<close>): the table from
  identities to clients, what \<open>fn_thread_unified_accepted_socket\<close> does to it for a portal and for a
  channel, the detached thread at the end of \<open>client_instance::dispose_impl\<close>, and the removal of all
  clients in \<open>server_portal_state::dispose_impl\<close>. Each client is a session of its own.
\<close>

section \<open>The state\<close>

record client_instance =
  client_identity :: identity_t
  cl_session :: session
  channel_threads :: nat \<comment> \<open>how many channels have been added\<close>
  cl_ended :: bool \<comment> \<open>\<open>dispose_impl\<close> has passed its last statement\<close>

text \<open>\<open>Removing_clients\<close>: \<open>dispose_impl\<close> holds the lock of the table.\<close>

datatype portal_phase = Serving | Dispose_required | Removing_clients | Clients_removed

text \<open>
  \<open>instances\<close> are the objects by their \<open>id\<close>; the table holds the pointers to them. \<open>found\<close> are the
  channel sockets whose client has been looked up, \<open>removals\<close> the detached threads that are to remove
  an identity and \<open>erasing\<close> those that have found no disposal required.
\<close>

record server_portal_state =
  sp_total :: u64
  clients :: "identity_t \<Rightarrow> nat option"
  instances :: "nat \<Rightarrow> client_instance option"
  next_id :: nat
  found :: "nat list"
  removals :: "identity_t list"
  erasing :: "identity_t list"
  sp_phase :: portal_phase

definition portal_start :: "u64 \<Rightarrow> server_portal_state" where
  "portal_start n = \<lparr>sp_total = n, clients = (\<lambda>_. None), instances = (\<lambda>_. None), next_id = 0, found = [], removals = [],
     erasing = [], sp_phase = Serving\<rparr>"

definition client_instance_new :: "u64 \<Rightarrow> identity_t \<Rightarrow> client_instance" where
  "client_instance_new n ident = \<lparr>client_identity = ident, cl_session = session_start n, channel_threads = 0, cl_ended = False\<rparr>"

definition put_instance :: "nat \<Rightarrow> client_instance \<Rightarrow> server_portal_state \<Rightarrow> server_portal_state" where
  "put_instance i c sp = sp\<lparr>instances := (instances sp)(i \<mapsto> c)\<rparr>"

section \<open>Accepted sockets\<close>

text \<open>\<open>insert\<close> leaves an entry that is there. \<open>None\<close>: the socket is closed and its thread detached.\<close>

definition accept_portal :: "identity_t \<Rightarrow> server_portal_state \<Rightarrow> nat option \<times> server_portal_state" where
  "accept_portal ident sp =
     (if sp_phase sp \<noteq> Serving then (None, sp)
      else (Some (next_id sp), put_instance (next_id sp) (client_instance_new (sp_total sp) ident) (sp\<lparr>
        next_id := next_id sp + 1,
        clients := (case clients sp ident of None \<Rightarrow> (clients sp)(ident \<mapsto> next_id sp) | Some _ \<Rightarrow> clients sp)\<rparr>)))"

definition find_client :: "identity_t \<Rightarrow> server_portal_state \<Rightarrow> nat option \<times> server_portal_state" where
  "find_client ident sp = (case clients sp ident of
       None \<Rightarrow> (None, sp)
     | Some i \<Rightarrow> (Some i, sp\<lparr>found := i # found sp\<rparr>))"

text \<open>The rundown refuses a channel once \<open>dispose_impl\<close> has closed it.\<close>

definition add_channel :: "nat \<Rightarrow> client_instance \<Rightarrow> server_portal_state \<Rightarrow> nat option \<times> server_portal_state" where
  "add_channel i c sp = (let sp1 = sp\<lparr>found := remove1 i (found sp)\<rparr> in
     case fn_channel Stage_ok (channel_threads c) (cl_session c) of
       None \<Rightarrow> (None, sp1)
     | Some s \<Rightarrow> (Some (channel_threads c),
         put_instance i (c\<lparr>cl_session := s, channel_threads := channel_threads c + 1\<rparr>) sp1))"

text \<open>The last statement of a client's \<open>dispose_impl\<close>, and the thread it starts.\<close>

definition client_ends :: "nat \<Rightarrow> client_instance \<Rightarrow> server_portal_state \<Rightarrow> server_portal_state" where
  "client_ends i c sp = (put_instance i (c\<lparr>cl_ended := True\<rparr>) sp)\<lparr>
     removals := (if sp_phase sp = Serving then client_identity c # removals sp else removals sp)\<rparr>"

definition remove_checks :: "identity_t \<Rightarrow> server_portal_state \<Rightarrow> server_portal_state" where
  "remove_checks ident sp = sp\<lparr>removals := remove1 ident (removals sp),
     erasing := (if sp_phase sp = Serving then ident # erasing sp else erasing sp)\<rparr>"

definition remove_erases :: "identity_t \<Rightarrow> server_portal_state \<Rightarrow> server_portal_state" where
  "remove_erases ident sp = sp\<lparr>erasing := remove1 ident (erasing sp), clients := (clients sp)(ident := None)\<rparr>"

text \<open>The disposal of the portal requires the disposal of every client of the table and waits for its end.\<close>

definition clients_gone :: "server_portal_state \<Rightarrow> bool" where
  "clients_gone sp \<longleftrightarrow> (\<forall>ident i c. clients sp ident = Some i \<longrightarrow> instances sp i = Some c \<longrightarrow> cl_ended c)"

text \<open>What one thread of a client does next; a channel does so once it has been added.\<close>

definition client_step :: "client_instance \<Rightarrow> client_instance \<Rightarrow> bool" where
  "client_step c c' \<longleftrightarrow> (\<exists>s. c' = c\<lparr>cl_session := s\<rparr> \<and>
     ((\<exists>e. fn_portal e (cl_session c) = Some s)
      \<or> (\<exists>e k. k < channel_threads c \<and> fn_channel e k (cl_session c) = Some s)
      \<or> session_dispose_impl (cl_session c) = Some s
      \<or> (se_disposer (cl_session c) = D_portal_joined
         \<and> (\<forall>k. se_chans (cl_session c) k = C_absent \<or> se_chans (cl_session c) k = C_done)
         \<and> s = (cl_session c)\<lparr>se_disposer := D_finished\<rparr>)))"

text \<open>\<open>portal_ok\<close> restricts the identities that clients come with.\<close>

inductive server_step :: "(identity_t \<Rightarrow> server_portal_state \<Rightarrow> bool) \<Rightarrow> server_portal_state \<Rightarrow> server_portal_state \<Rightarrow> bool"
  for portal_ok where
  portal_accepted: "portal_ok ident sp \<Longrightarrow> server_step portal_ok sp (snd (accept_portal ident sp))"
| channel_found: "sp_phase sp \<noteq> Removing_clients \<Longrightarrow> server_step portal_ok sp (snd (find_client ident sp))"
| channel_added: "i \<in> set (found sp) \<Longrightarrow> instances sp i = Some c \<Longrightarrow> server_step portal_ok sp (snd (add_channel i c sp))"
| client_moves: "instances sp i = Some c \<Longrightarrow> client_step c c' \<Longrightarrow> server_step portal_ok sp (put_instance i c' sp)"
| client_ended: "instances sp i = Some c \<Longrightarrow> se_disposer (cl_session c) = D_finished \<Longrightarrow> \<not> cl_ended c
    \<Longrightarrow> server_step portal_ok sp (client_ends i c sp)"
| removal_checked: "ident \<in> set (removals sp) \<Longrightarrow> server_step portal_ok sp (remove_checks ident sp)"
| client_erased: "ident \<in> set (erasing sp) \<Longrightarrow> sp_phase sp \<noteq> Removing_clients \<Longrightarrow> server_step portal_ok sp (remove_erases ident sp)"
| portal_disposed: "sp_phase sp = Serving \<Longrightarrow> server_step portal_ok sp (sp\<lparr>sp_phase := Dispose_required\<rparr>)"
| clients_locked: "sp_phase sp = Dispose_required \<Longrightarrow> server_step portal_ok sp (sp\<lparr>sp_phase := Removing_clients\<rparr>)"
| client_disposed: "sp_phase sp = Removing_clients \<Longrightarrow> clients sp ident = Some i \<Longrightarrow> instances sp i = Some c
    \<Longrightarrow> server_step portal_ok sp (put_instance i (c\<lparr>cl_session := request_dispose (cl_session c)\<rparr>) sp)"
| clients_cleared: "sp_phase sp = Removing_clients \<Longrightarrow> clients_gone sp
    \<Longrightarrow> server_step portal_ok sp (sp\<lparr>sp_phase := Clients_removed, clients := (\<lambda>_. None)\<rparr>)"

inductive server_reachable :: "(identity_t \<Rightarrow> server_portal_state \<Rightarrow> bool) \<Rightarrow> u64 \<Rightarrow> server_portal_state \<Rightarrow> bool"
  for portal_ok n where
  server_first: "0 < n \<Longrightarrow> n \<noteq> INVALID_SIGNAL_COUNT \<Longrightarrow> server_reachable portal_ok n (portal_start n)"
| server_next: "server_reachable portal_ok n sp \<Longrightarrow> server_step portal_ok sp sp' \<Longrightarrow> server_reachable portal_ok n sp'"

definition any_identity :: "identity_t \<Rightarrow> server_portal_state \<Rightarrow> bool" where
  "any_identity ident sp = True"

definition new_identity :: "identity_t \<Rightarrow> server_portal_state \<Rightarrow> bool" where
  "new_identity ident sp \<longleftrightarrow> (\<forall>i c. instances sp i = Some c \<longrightarrow> client_identity c \<noteq> ident)"


section \<open>Each client keeps its session's order\<close>

definition client_ok :: "u64 \<Rightarrow> client_instance \<Rightarrow> bool" where
  "client_ok n c \<longleftrightarrow> session_reachable n (cl_session c) \<and> (cl_ended c \<longrightarrow> se_disposer (cl_session c) = D_finished)"

definition clients_ok :: "u64 \<Rightarrow> server_portal_state \<Rightarrow> bool" where
  "clients_ok n sp \<longleftrightarrow> sp_total sp = n \<and> (\<forall>i c. instances sp i = Some c \<longrightarrow> client_ok n c \<and> i < next_id sp)
     \<and> (\<forall>ident i. clients sp ident = Some i \<longrightarrow> (\<exists>c. instances sp i = Some c \<and> client_identity c = ident))"

lemma put_instance_simps [simp]:
  "sp_total (put_instance i c sp) = sp_total sp" "clients (put_instance i c sp) = clients sp"
  "instances (put_instance i c sp) = (instances sp)(i \<mapsto> c)" "next_id (put_instance i c sp) = next_id sp"
  "found (put_instance i c sp) = found sp" "removals (put_instance i c sp) = removals sp"
  "erasing (put_instance i c sp) = erasing sp" "sp_phase (put_instance i c sp) = sp_phase sp"
  by (simp_all add: put_instance_def)

definition session_closed :: "session \<Rightarrow> bool" where
  "session_closed s \<longleftrightarrow> se_disposer s = D_finished \<and> se_portal s = P_done \<and> (\<forall>k. se_chans s k = C_absent \<or> se_chans s k = C_done)"

lemma session_closed_stays: "session_step s s' \<Longrightarrow> session_closed s \<Longrightarrow> s' = s"
proof (induction rule: session_step.induct)
  case (channel_moves e k s s')
  then have "se_chans s k = C_absent \<or> se_chans s k = C_done" by (simp add: session_closed_def)
  moreover have "se_disposer s = D_finished" using channel_moves by (simp add: session_closed_def)
  ultimately show ?case using channel_moves(1) by (auto simp: fn_channel_def)
qed (simp_all add: session_closed_def fn_portal_def session_dispose_impl_def request_dispose_def)

lemma finished_closed: "session_reachable n s \<Longrightarrow> se_disposer s = D_finished \<Longrightarrow> session_closed s"
proof (induction rule: session_reachable.induct)
  case session_first
  then show ?case by (simp add: session_start_def)
next
  case (session_next s s')
  show ?case
  proof (cases "se_disposer s = D_finished")
    case True
    with session_closed_stays [OF session_next(2)] session_next(3) show ?thesis by simp
  next
    case False
    have "session_late s'" by (rule session_reachable_late [OF session_reachable.session_next [OF session_next(1,2)]])
    then have pd: "se_portal s' = P_done" using session_next(4) by (auto simp: session_late_def)
    from session_next(2,4) False have "\<forall>k. se_chans s' k = C_absent \<or> se_chans s' k = C_done"
    proof (induction rule: session_step.induct)
      case (portal_moves e s s')
      then show ?case
        by (auto simp: fn_portal_def portal_exit_def request_dispose_def split: portal_pc.splits stage_end.splits outcome.splits option.splits if_splits prod.splits)
    next
      case (channel_moves e k s s')
      then show ?case
        by (auto simp: fn_channel_def chan_goto_def request_dispose_def split: channel_pc.splits outcome.splits option.splits if_splits prod.splits)
    next
      case (disposer_moves s s')
      then show ?case by (auto simp: session_dispose_impl_def split: disposer_pc.splits if_splits)
    next
      case (disposal_required s)
      then show ?case by (simp add: request_dispose_def split: if_splits)
    qed simp
    with pd session_next(4) show ?thesis by (simp add: session_closed_def)
  qed
qed

lemma client_step_session: "client_step c c' \<Longrightarrow> session_step (cl_session c) (cl_session c') \<and> client_identity c' = client_identity c
    \<and> cl_ended c' = cl_ended c"
  unfolding client_step_def by (auto intro: session_step.intros)

lemma client_ok_step:
  assumes "client_ok n c" and "session_step (cl_session c) s"
  shows "client_ok n (c\<lparr>cl_session := s\<rparr>)" "client_ok n (c\<lparr>cl_session := s, channel_threads := m\<rparr>)"
proof -
  have r: "session_reachable n s" using assms by (auto simp: client_ok_def intro: session_next)
  have "cl_ended c \<Longrightarrow> se_disposer s = D_finished"
    using assms finished_closed session_closed_stays by (fastforce simp: client_ok_def)
  with r show "client_ok n (c\<lparr>cl_session := s\<rparr>)" "client_ok n (c\<lparr>cl_session := s, channel_threads := m\<rparr>)"
    by (simp_all add: client_ok_def)
qed

text \<open>What replacing one client keeps.\<close>

lemma clients_ok_put:
  assumes "clients_ok n sp" and "instances sp i = Some c" and "client_identity c' = client_identity c" and "client_ok n c'"
  shows "clients_ok n (put_instance i c' sp)"
  using assms unfolding clients_ok_def by (auto split: if_splits) fastforce

lemma clients_ok_other [simp]:
  "clients_ok n (sp\<lparr>found := f\<rparr>) = clients_ok n sp" "clients_ok n (sp\<lparr>removals := r\<rparr>) = clients_ok n sp"
  "clients_ok n (sp\<lparr>sp_phase := p\<rparr>) = clients_ok n sp" "clients_ok n (sp\<lparr>removals := r, erasing := r'\<rparr>) = clients_ok n sp"
  by (simp_all add: clients_ok_def)

lemma clients_ok_step: "server_step P sp sp' \<Longrightarrow> 0 < n \<Longrightarrow> n \<noteq> INVALID_SIGNAL_COUNT \<Longrightarrow> clients_ok n sp \<Longrightarrow> clients_ok n sp'"
proof (induction rule: server_step.induct)
  case (portal_accepted ident sp)
  have "client_ok n (client_instance_new n ident)"
    using portal_accepted(2,3) by (simp add: client_ok_def client_instance_new_def session_first)
  moreover have "instances sp (next_id sp) = None"
    using portal_accepted(4) unfolding clients_ok_def by (metis less_irrefl option.exhaust)
  moreover have "clients sp x \<noteq> Some (next_id sp)" for x
    using portal_accepted(4) calculation(2) unfolding clients_ok_def by fastforce
  ultimately show ?case using portal_accepted(4)
    by (cases "clients sp ident")
      (auto simp: accept_portal_def clients_ok_def client_instance_new_def intro: less_SucI split: if_splits)
next
  case (channel_found sp ident)
  then show ?case by (simp add: find_client_def split: option.split)
next
  case (channel_added i sp c)
  have c: "client_ok n c" using channel_added by (auto simp: clients_ok_def)
  show ?case
  proof (cases "fn_channel Stage_ok (channel_threads c) (cl_session c)")
    case None
    with channel_added(5) show ?thesis by (simp add: add_channel_def)
  next
    case (Some s)
    have "client_ok n (c\<lparr>cl_session := s, channel_threads := channel_threads c + 1\<rparr>)"
      by (rule client_ok_step(2) [OF c channel_moves [OF Some]])
    with clients_ok_put [of n "sp\<lparr>found := remove1 i (found sp)\<rparr>" i c] channel_added(2,5) Some show ?thesis
      by (simp add: add_channel_def)
  qed
next
  case (client_moves sp i c c')
  have c: "client_ok n c" using client_moves by (auto simp: clients_ok_def)
  from client_moves(2) obtain s where s: "c' = c\<lparr>cl_session := s\<rparr>" by (auto simp: client_step_def)
  with client_step_session [OF client_moves(2)] have st: "session_step (cl_session c) s" by simp
  show ?case by (rule clients_ok_put [OF client_moves(5,1)]) (use s client_ok_step(1) [OF c st] in simp_all)
next
  case (client_ended sp i c)
  have "client_ok n (c\<lparr>cl_ended := True\<rparr>)" using client_ended by (auto simp: clients_ok_def client_ok_def)
  then show ?case unfolding client_ends_def
    by (simp add: clients_ok_put [OF client_ended(6,1)])
next
  case (removal_checked ident sp)
  then show ?case by (simp add: remove_checks_def)
next
  case (client_erased ident sp)
  then show ?case by (auto simp: remove_erases_def clients_ok_def)
next
  case (client_disposed sp ident i c)
  have c: "client_ok n c" using client_disposed by (auto simp: clients_ok_def)
  show ?case by (rule clients_ok_put [OF client_disposed(6,3)]) (use client_ok_step(1) [OF c disposal_required] in simp_all)
next
  case (clients_cleared sp)
  then show ?case by (simp add: clients_ok_def)
qed simp_all

lemma server_reachable_ok: "server_reachable P n sp \<Longrightarrow> clients_ok n sp \<and> 0 < n \<and> n \<noteq> INVALID_SIGNAL_COUNT"
proof (induction rule: server_reachable.induct)
  case server_first
  then show ?case by (simp add: clients_ok_def portal_start_def)
next
  case (server_next sp sp')
  then show ?case using clients_ok_step [OF server_next(2)] by blast
qed

text \<open>C25: whatever clients connect to a server, with any identities and in any interleaving, each of them goes through
  a session of its own: as long as its disposal is not required, its portal responds and transfers only
  after as many of its channels as the server has repeats, and a channel that the server adds is one of a client with
  the identity it came with, and uses the transfer of that client only.\<close>

theorem server_keeps_sessions_apart:
  assumes "server_reachable portal_ok n sp" and "instances sp i = Some c" and "\<not> disposing (cl_session c)"
  shows "(se_portal (cl_session c) \<in> {P_respond, P_ready, P_transfer} \<longrightarrow> unat n \<le> card (connected (cl_session c)))
    \<and> (se_chans (cl_session c) k = C_invoke \<or> se_chans (cl_session c) k = C_running
        \<longrightarrow> se_portal (cl_session c) = P_transfer \<and> se_transfer (cl_session c) = Tr_live)
    \<and> (find_client ident sp = (Some i, sp') \<longrightarrow> client_identity c = ident)"
proof -
  have ok: "clients_ok n sp" using server_reachable_ok [OF assms(1)] by simp
  then have r: "session_reachable n (cl_session c)" using assms(2) by (auto simp: clients_ok_def client_ok_def)
  have "find_client ident sp = (Some i, sp') \<Longrightarrow> client_identity c = ident"
    using ok assms(2) by (fastforce simp: find_client_def clients_ok_def split: option.splits)
  with session_order [OF r assms(3)] show ?thesis by blast
qed

text \<open>A schedule of moves, to build examples.\<close>

datatype server_move = Accept identity_t | Find identity_t | Add nat | Move nat session_move | Join nat | End nat
  | Check identity_t | Erase identity_t | Dispose_portal | Lock_clients | Dispose_client identity_t | Clear_clients

fun move_server :: "server_move \<Rightarrow> server_portal_state \<Rightarrow> server_portal_state option" where
  "move_server (Accept ident) sp = Some (snd (accept_portal ident sp))"
| "move_server (Find ident) sp = (if sp_phase sp \<noteq> Removing_clients then Some (snd (find_client ident sp)) else None)"
| "move_server (Add i) sp = (case instances sp i of
     Some c \<Rightarrow> if i \<in> set (found sp) then Some (snd (add_channel i c sp)) else None | None \<Rightarrow> None)"
| "move_server (Move i m) sp = (case instances sp i of None \<Rightarrow> None
     | Some c \<Rightarrow> if (case m of Channel_move e k \<Rightarrow> k < channel_threads c | _ \<Rightarrow> True)
         then map_option (\<lambda>s. put_instance i (c\<lparr>cl_session := s\<rparr>) sp) (move_session m (cl_session c)) else None)"
| "move_server (Join i) sp = (case instances sp i of None \<Rightarrow> None
     | Some c \<Rightarrow> if se_disposer (cl_session c) = D_portal_joined
           \<and> (\<forall>k. se_chans (cl_session c) k = C_absent \<or> se_chans (cl_session c) k = C_done)
         then Some (put_instance i (c\<lparr>cl_session := (cl_session c)\<lparr>se_disposer := D_finished\<rparr>\<rparr>) sp) else None)"
| "move_server (End i) sp = (case instances sp i of None \<Rightarrow> None
     | Some c \<Rightarrow> if se_disposer (cl_session c) = D_finished \<and> \<not> cl_ended c then Some (client_ends i c sp) else None)"
| "move_server (Check ident) sp = (if ident \<in> set (removals sp) then Some (remove_checks ident sp) else None)"
| "move_server (Erase ident) sp =
     (if ident \<in> set (erasing sp) \<and> sp_phase sp \<noteq> Removing_clients then Some (remove_erases ident sp) else None)"
| "move_server Dispose_portal sp = (if sp_phase sp = Serving then Some (sp\<lparr>sp_phase := Dispose_required\<rparr>) else None)"
| "move_server Lock_clients sp = (if sp_phase sp = Dispose_required then Some (sp\<lparr>sp_phase := Removing_clients\<rparr>) else None)"
| "move_server (Dispose_client ident) sp = (case clients sp ident of None \<Rightarrow> None
     | Some i \<Rightarrow> (case instances sp i of None \<Rightarrow> None
         | Some c \<Rightarrow> if sp_phase sp = Removing_clients
             then Some (put_instance i (c\<lparr>cl_session := request_dispose (cl_session c)\<rparr>) sp) else None))"
| "move_server Clear_clients sp = (if sp_phase sp = Removing_clients \<and> clients_gone sp
     then Some (sp\<lparr>sp_phase := Clients_removed, clients := (\<lambda>_. None)\<rparr>) else None)"

fun server_run :: "server_move list \<Rightarrow> server_portal_state \<Rightarrow> server_portal_state option" where
  "server_run [] sp = Some sp"
| "server_run (m # ms) sp = (case move_server m sp of None \<Rightarrow> None | Some sp' \<Rightarrow> server_run ms sp')"

lemma move_server_step:
  assumes "move_server m sp = Some sp'" and "\<And>ident. m = Accept ident \<Longrightarrow> P ident sp"
  shows "server_step P sp sp'"
proof (cases m)
  case (Move i sm)
  with assms(1) obtain c s where c: "instances sp i = Some c" "move_session sm (cl_session c) = Some s"
    "sp' = put_instance i (c\<lparr>cl_session := s\<rparr>) sp" "case sm of Channel_move e k \<Rightarrow> k < channel_threads c | _ \<Rightarrow> True"
    by (auto split: option.splits if_splits)
  then have "client_step c (c\<lparr>cl_session := s\<rparr>)" unfolding client_step_def by (cases sm) auto
  with c show ?thesis by (auto intro: client_moves)
next
  case (Join i)
  with assms(1) obtain c where c: "instances sp i = Some c" "sp' = put_instance i (c\<lparr>cl_session := (cl_session c)\<lparr>se_disposer := D_finished\<rparr>\<rparr>) sp"
    "se_disposer (cl_session c) = D_portal_joined" "\<forall>k. se_chans (cl_session c) k = C_absent \<or> se_chans (cl_session c) k = C_done"
    by (auto split: option.splits if_splits)
  then have "client_step c (c\<lparr>cl_session := (cl_session c)\<lparr>se_disposer := D_finished\<rparr>\<rparr>)" unfolding client_step_def by blast
  with c show ?thesis by (auto intro: client_moves)
qed (use assms in \<open>auto intro: server_step.intros split: option.splits if_splits\<close>)

lemma server_run_reachable:
  "server_reachable any_identity n sp \<Longrightarrow> server_run ms sp = Some sp' \<Longrightarrow> server_reachable any_identity n sp'"
proof (induction ms arbitrary: sp)
  case (Cons m ms)
  from Cons.prems(2) obtain sp1 where s: "move_server m sp = Some sp1" "server_run ms sp1 = Some sp'" by (auto split: option.splits)
  have "server_step any_identity sp sp1" by (rule move_server_step [OF s(1)]) (simp add: any_identity_def)
  with Cons s(2) show ?case by (blast intro: server_next)
qed simp

lemmas server_eval = accept_portal_def find_client_def add_channel_def client_ends_def remove_checks_def remove_erases_def
  portal_start_def client_instance_new_def put_instance_def

definition demo_serving :: "server_move list" where
  "demo_serving = [Accept example_identity, Find example_identity, Add 0, Move 0 (Portal_move Stage_ok),
     Move 0 (Channel_move Stage_ok 0), Move 0 (Portal_move Stage_ok), Move 0 (Portal_move Stage_ok), Move 0 (Portal_move Stage_ok)]"

theorem server_keeps_sessions_apart_witness:
  "\<exists>sp c. server_run demo_serving (portal_start 1) = Some sp \<and> instances sp 0 = Some c
    \<and> se_portal (cl_session c) = P_transfer \<and> 1 \<le> card (connected (cl_session c))"
proof -
  have "\<exists>sp c. server_run demo_serving (portal_start 1) = Some sp \<and> instances sp 0 = Some c
    \<and> se_portal (cl_session c) = P_transfer \<and> \<not> disposing (cl_session c)"
    by (simp add: demo_serving_def server_eval session_eval)
  then obtain sp c where s: "server_run demo_serving (portal_start 1) = Some sp" "instances sp 0 = Some c"
    "se_portal (cl_session c) = P_transfer" "\<not> disposing (cl_session c)" by blast
  have "server_reachable any_identity 1 sp"
    by (rule server_run_reachable [OF server_first s(1)]) (simp_all add: INVALID_SIGNAL_COUNT_def)
  from server_keeps_sessions_apart [OF this s(2,4)] s show ?thesis by auto
qed

section \<open>Nothing survives the portal\<close>

text \<open>The table, when no two portals come with one identity.\<close>

definition table_ok :: "server_portal_state \<Rightarrow> bool" where
  "table_ok sp \<longleftrightarrow>
     (\<forall>i j c d. instances sp i = Some c \<longrightarrow> instances sp j = Some d \<longrightarrow> client_identity c = client_identity d \<longrightarrow> i = j)
     \<and> (\<forall>i c. instances sp i = Some c \<longrightarrow> \<not> cl_ended c \<longrightarrow> clients sp (client_identity c) = Some i)
     \<and> (\<forall>ident \<in> set (removals sp) \<union> set (erasing sp). \<exists>i c. instances sp i = Some c \<and> client_identity c = ident \<and> cl_ended c)"

lemma table_ok_put:
  assumes t: "table_ok sp" and i: "instances sp i = Some c" and c: "client_identity c' = client_identity c" "cl_ended c \<longrightarrow> cl_ended c'"
  shows "table_ok (put_instance i c' sp)"
proof -
  let ?sp = "put_instance i c' sp"
  have old: "\<exists>d0. instances sp j = Some d0 \<and> client_identity d = client_identity d0 \<and> (cl_ended d0 \<longrightarrow> cl_ended d)"
    if "instances ?sp j = Some d" for j d using that i c by (cases "j = i") auto
  have new: "\<exists>d. instances ?sp j = Some d \<and> client_identity d = client_identity d0 \<and> (cl_ended d0 \<longrightarrow> cl_ended d)"
    if "instances sp j = Some d0" for j d0 using that i c by (cases "j = i") auto
  show ?thesis unfolding table_ok_def
  proof (intro conjI allI impI ballI)
    fix j k d e assume "instances ?sp j = Some d" "instances ?sp k = Some e" "client_identity d = client_identity e"
    with old [of j d] old [of k e] t show "j = k" unfolding table_ok_def by metis
  next
    fix j d assume "instances ?sp j = Some d" "\<not> cl_ended d"
    with old [of j d] t show "clients ?sp (client_identity d) = Some j" unfolding table_ok_def by (metis put_instance_simps(2))
  next
    fix ident assume "ident \<in> set (removals ?sp) \<union> set (erasing ?sp)"
    then have "ident \<in> set (removals sp) \<union> set (erasing sp)" by simp
    with t obtain j d0 where "instances sp j = Some d0" "client_identity d0 = ident" "cl_ended d0" unfolding table_ok_def by blast
    with new [of j d0] show "\<exists>j d. instances ?sp j = Some d \<and> client_identity d = ident \<and> cl_ended d" by metis
  qed
qed

definition all_ended :: "server_portal_state \<Rightarrow> bool" where
  "all_ended sp \<longleftrightarrow> (\<forall>i c. instances sp i = Some c \<longrightarrow> cl_ended c)"

lemma table_ok_other [simp]:
  "table_ok (sp\<lparr>found := f\<rparr>) = table_ok sp" "table_ok (sp\<lparr>sp_phase := p\<rparr>) = table_ok sp"
  by (simp_all add: table_ok_def)

lemma table_ok_removals:
  "table_ok sp \<Longrightarrow> set rs \<union> set es \<subseteq> set (removals sp) \<union> set (erasing sp) \<Longrightarrow> table_ok (sp\<lparr>removals := rs, erasing := es\<rparr>)"
  unfolding table_ok_def by (simp add: subset_iff) blast

lemma table_ok_accept:
  assumes t: "table_ok sp" and ok: "clients_ok n sp" and new: "new_identity ident sp"
  shows "table_ok (snd (accept_portal ident sp))"
proof (cases "sp_phase sp = Serving")
  case True
  have none: "clients sp ident = None"
    using ok new unfolding clients_ok_def new_identity_def by (metis option.exhaust)
  have fresh: "instances sp (next_id sp) = None"
    using ok unfolding clients_ok_def by (metis less_irrefl option.exhaust)
  let ?c = "client_instance_new (sp_total sp) ident" and ?sp = "snd (accept_portal ident sp)"
  have sp: "instances ?sp = (instances sp)(next_id sp \<mapsto> ?c)" "clients ?sp = (clients sp)(ident \<mapsto> next_id sp)"
    "removals ?sp = removals sp" "erasing ?sp = erasing sp"
    using True none by (simp_all add: accept_portal_def)
  have idc: "client_identity ?c = ident" by (simp add: client_instance_new_def)
  have ne: "client_identity d \<noteq> ident" if "instances sp j = Some d" for j d using new that by (simp add: new_identity_def)
  show ?thesis unfolding table_ok_def
  proof (intro conjI allI impI ballI)
    fix j k d e assume "instances ?sp j = Some d" "instances ?sp k = Some e" "client_identity d = client_identity e"
    with t ne idc fresh show "j = k" unfolding sp table_ok_def by (auto split: if_splits)
  next
    fix j d assume "instances ?sp j = Some d" "\<not> cl_ended d"
    with t ne idc show "clients ?sp (client_identity d) = Some j" unfolding sp table_ok_def by (auto split: if_splits)
  next
    fix i assume "i \<in> set (removals ?sp) \<union> set (erasing ?sp)"
    with t obtain j d where "instances sp j = Some d" "client_identity d = i" "cl_ended d" unfolding sp table_ok_def by blast
    with fresh show "\<exists>j d. instances ?sp j = Some d \<and> client_identity d = i \<and> cl_ended d" unfolding sp by (intro exI [of _ j] exI [of _ d]) auto
  qed
next
  case False
  with t show ?thesis by (simp add: accept_portal_def)
qed

lemma table_ok_erase:
  assumes t: "table_ok sp" and m: "ident \<in> set (erasing sp)"
  shows "table_ok (remove_erases ident sp)"
proof -
  from t m obtain i c where i: "instances sp i = Some c" "client_identity c = ident" "cl_ended c" unfolding table_ok_def by blast
  have "client_identity d \<noteq> ident" if "instances sp j = Some d" "\<not> cl_ended d" for j d
    using t i that unfolding table_ok_def by (metis option.inject)
  then have "table_ok (sp\<lparr>clients := (clients sp)(ident := None)\<rparr>)" using t by (auto simp: table_ok_def)
  moreover have "remove_erases ident sp
      = (sp\<lparr>clients := (clients sp)(ident := None)\<rparr>)\<lparr>removals := removals sp, erasing := remove1 ident (erasing sp)\<rparr>"
    by (cases sp) (simp add: remove_erases_def)
  ultimately show ?thesis
    using table_ok_removals [of "sp\<lparr>clients := (clients sp)(ident := None)\<rparr>" "removals sp" "remove1 ident (erasing sp)"]
    by (auto dest: notin_set_remove1)
qed

lemma table_ok_more:
  assumes "table_ok sp" and "instances sp i = Some c" and "cl_ended c"
  shows "table_ok (sp\<lparr>removals := client_identity c # removals sp\<rparr>)"
proof -
  have "\<exists>j d. instances sp j = Some d \<and> client_identity d = ident \<and> cl_ended d"
    if "ident = client_identity c \<or> ident \<in> set (removals sp) \<or> ident \<in> set (erasing sp)" for ident
    using assms that unfolding table_ok_def by blast
  with assms(1) show ?thesis unfolding table_ok_def by simp
qed

lemma gone_all_ended: "table_ok sp \<Longrightarrow> clients_gone sp \<Longrightarrow> all_ended sp"
  unfolding all_ended_def table_ok_def clients_gone_def by metis

lemma table_ok_end:
  assumes t: "table_ok sp" and i: "instances sp i = Some c"
  shows "table_ok (client_ends i c sp)"
proof -
  have p: "table_ok (put_instance i (c\<lparr>cl_ended := True\<rparr>) sp)" (is "table_ok ?sp") by (rule table_ok_put [OF t i]) simp_all
  have "instances ?sp i = Some (c\<lparr>cl_ended := True\<rparr>)" by simp
  from table_ok_more [OF p this] have "table_ok (?sp\<lparr>removals := client_identity c # removals ?sp\<rparr>)" by simp
  then have "sp_phase sp = Serving \<Longrightarrow> table_ok (client_ends i c sp)" by (simp add: client_ends_def)
  moreover have "sp_phase sp \<noteq> Serving \<Longrightarrow> client_ends i c sp = ?sp" by (cases sp) (simp add: client_ends_def put_instance_def)
  ultimately show ?thesis using p by metis
qed

lemma table_ok_step:
  "server_step new_identity sp sp' \<Longrightarrow> table_ok sp \<Longrightarrow> clients_ok n sp \<Longrightarrow> table_ok sp'"
proof (induction rule: server_step.induct)
  case (portal_accepted ident sp)
  then show ?case by (blast intro: table_ok_accept)
next
  case (channel_found sp ident)
  then show ?case by (simp add: find_client_def split: option.split)
next
  case (channel_added i sp c)
  then show ?case
    by (auto simp: add_channel_def Let_def intro!: table_ok_put [where c = c] split: option.split)
next
  case (client_moves sp i c c')
  then show ?case using client_step_session [OF client_moves(2)] table_ok_put [OF client_moves(3,1)] by simp
next
  case (client_ended sp i c)
  then show ?case by (blast intro: table_ok_end)
next
  case (removal_checked ident sp)
  have "table_ok (sp\<lparr>removals := remove1 ident (removals sp), erasing := (if sp_phase sp = Serving then ident # erasing sp else erasing sp)\<rparr>)"
    by (rule table_ok_removals [OF removal_checked(2)]) (use removal_checked(1) set_remove1_subset [of ident "removals sp"] in auto)
  then show ?case by (simp add: remove_checks_def)
next
  case (client_erased ident sp)
  then show ?case by (blast intro: table_ok_erase)
next
  case (client_disposed sp ident i c)
  then show ?case by (auto intro: table_ok_put)
next
  case (clients_cleared sp)
  from gone_all_ended [OF clients_cleared(3,2)] clients_cleared(3) show ?case by (simp add: table_ok_def all_ended_def)
qed simp_all

lemma all_ended_step:
  assumes "server_step P sp sp'" and "table_ok sp" and "sp_phase sp = Clients_removed \<longrightarrow> all_ended sp" and "clients_ok n sp"
  shows "sp_phase sp' = Clients_removed \<longrightarrow> all_ended sp'"
  using assms
proof (induction rule: server_step.induct)
  case (portal_accepted ident sp)
  then show ?case by (simp add: accept_portal_def)
next
  case (channel_found sp ident)
  then show ?case by (simp add: find_client_def all_ended_def split: option.split)
next
  case (channel_added i sp c)
  then show ?case by (auto simp: add_channel_def all_ended_def Let_def split: option.split)
next
  case (client_moves sp i c c')
  then show ?case using client_step_session [OF client_moves(2)] by (simp add: all_ended_def)
next
  case (clients_cleared sp)
  then show ?case using gone_all_ended by (simp add: all_ended_def)
qed (auto simp: client_ends_def remove_checks_def remove_erases_def all_ended_def)

lemma fresh_server:
  "server_reachable new_identity n sp \<Longrightarrow> table_ok sp \<and> (sp_phase sp = Clients_removed \<longrightarrow> all_ended sp)"
proof (induction rule: server_reachable.induct)
  case server_first
  then show ?case by (simp add: portal_start_def table_ok_def)
next
  case (server_next sp sp')
  have ok: "clients_ok n sp" using server_reachable_ok [OF server_next(1)] by simp
  from server_next(3) have "table_ok sp" "sp_phase sp = Clients_removed \<longrightarrow> all_ended sp" by simp_all
  with table_ok_step [OF server_next(2) _ ok] all_ended_step [OF server_next(2) _ _ ok] show ?case by blast
qed

text \<open>C26: when no two clients come with the same identity, the disposal of the portal leaves nothing behind: once it has
  cleared its table, every client it ever created has been disposed, its portal thread has returned and
  so has each of its channel threads.\<close>

theorem portal_disposal_complete:
  assumes "server_reachable new_identity n sp" and "sp_phase sp = Clients_removed" and "instances sp i = Some c"
  shows "cl_ended c \<and> se_portal (cl_session c) = P_done
    \<and> (\<forall>k. se_chans (cl_session c) k = C_absent \<or> se_chans (cl_session c) k = C_done)"
proof -
  have e: "cl_ended c" using fresh_server [OF assms(1)] assms(2,3) by (auto simp: all_ended_def)
  have "client_ok n c" using server_reachable_ok [OF assms(1)] assms(3) by (auto simp: clients_ok_def)
  with e show ?thesis using finished_closed by (auto simp: client_ok_def session_closed_def)
qed

lemma new_server_run:
  "server_reachable new_identity n sp \<Longrightarrow> server_run ms sp = Some sp' \<Longrightarrow> (\<forall>ident. Accept ident \<notin> set ms)
    \<Longrightarrow> server_reachable new_identity n sp'"
proof (induction ms arbitrary: sp)
  case (Cons m ms)
  from Cons.prems(2) obtain sp1 where s: "move_server m sp = Some sp1" "server_run ms sp1 = Some sp'" by (auto split: option.splits)
  have "server_step new_identity sp sp1" by (rule move_server_step [OF s(1)]) (use Cons.prems(3) in auto)
  with Cons s(2) show ?case by (auto intro: server_next)
qed simp

text \<open>A client comes, its request fails, and the portal is disposed.\<close>

definition demo_shutdown :: "server_move list" where
  "demo_shutdown = [Move 0 (Portal_move Stage_failed), Dispose_portal, Lock_clients, Dispose_client example_identity,
     Move 0 Disposer_move, Move 0 Disposer_move, Move 0 Disposer_move, Move 0 Disposer_move, Join 0, End 0, Clear_clients]"

theorem portal_disposal_complete_witness:
  "\<exists>sp c. server_run demo_shutdown (snd (accept_portal example_identity (portal_start 1))) = Some sp \<and> sp_phase sp = Clients_removed
    \<and> instances sp 0 = Some c \<and> se_portal (cl_session c) = P_done"
proof -
  have "\<exists>sp c. server_run demo_shutdown (snd (accept_portal example_identity (portal_start 1))) = Some sp
    \<and> sp_phase sp = Clients_removed \<and> instances sp 0 = Some c"
    by (simp add: demo_shutdown_def server_eval session_eval clients_gone_def)
  then obtain sp c where s: "server_run demo_shutdown (snd (accept_portal example_identity (portal_start 1))) = Some sp"
    "sp_phase sp = Clients_removed" "instances sp 0 = Some c" by blast
  have "server_reachable new_identity 1 (snd (accept_portal example_identity (portal_start 1)))"
    by (rule server_next [OF server_first portal_accepted])
      (simp_all add: INVALID_SIGNAL_COUNT_def new_identity_def portal_start_def)
  from portal_disposal_complete [OF new_server_run [OF this s(1)] s(2,3)] s show ?thesis by (auto simp: demo_shutdown_def)
qed

text \<open>Two portals with one identity: the second is not entered, and its end removes the first.\<close>

definition demo_twins :: "server_move list" where
  "demo_twins = [Accept example_identity, Accept example_identity, Move 1 (Portal_move Stage_failed),
     Move 1 Disposer_move, Move 1 Disposer_move, Move 1 Disposer_move, Move 1 Disposer_move, Join 1, End 1,
     Check example_identity, Erase example_identity, Dispose_portal, Lock_clients, Clear_clients]"

text \<open>A second portal with an identity that is in the table is not entered into it but removes it when it ends: the
  disposal of the server's portal then finds no client, and leaves the first one running.\<close>

theorem duplicate_identity_survives:
  "\<exists>sp c. server_reachable any_identity 1 sp \<and> sp_phase sp = Clients_removed \<and> instances sp 0 = Some c
    \<and> \<not> disposing (cl_session c) \<and> se_portal (cl_session c) \<noteq> P_done"
proof -
  have "\<exists>sp c. server_run demo_twins (portal_start 1) = Some sp \<and> sp_phase sp = Clients_removed \<and> instances sp 0 = Some c
    \<and> \<not> disposing (cl_session c) \<and> se_portal (cl_session c) \<noteq> P_done"
    by (simp add: demo_twins_def server_eval session_eval clients_gone_def)
  moreover have "server_run demo_twins (portal_start 1) = Some sp \<Longrightarrow> server_reachable any_identity 1 sp" for sp
    by (rule server_run_reachable [OF server_first]) (simp_all add: INVALID_SIGNAL_COUNT_def)
  ultimately show ?thesis by blast
qed

end
