(* ===== verification/Accepted.thy ===== *)
theory Accepted
  imports Clients
begin

text \<open>
  What the server does with an accepted socket from its greeting to the thread that serves it
  (\<open>fn_thread_unified_accepted_socket\<close> in \<open>server.cpp\<close>, with the roles that the two kinds of listener
  allow): the greeting of \<open>Handshake\<close> decides about the operations of \<open>Clients\<close>.
\<close>

section \<open>The handler\<close>

datatype listener_kind = Portal_listener | Channel_listener

text \<open>
  The roles that a listener allows, \<open>allow_role_portal\<close> and \<open>allow_role_channel\<close>: channels may use the
  portal when it has repeats.
\<close>

definition portal_roles :: "u64 option \<Rightarrow> bool \<times> bool" where
  "portal_roles repeats = (True, repeats \<noteq> None)"

definition channel_roles :: "bool \<times> bool" where
  "channel_roles = (False, True)"

definition allowed_roles :: "listener_kind \<Rightarrow> u64 option \<Rightarrow> bool \<times> bool" where
  "allowed_roles kind repeats = (case kind of Portal_listener \<Rightarrow> portal_roles repeats | Channel_listener \<Rightarrow> channel_roles)"

text \<open>
  How the handler ends: the sweeper closes the socket and detaches the thread, or the thread goes on as
  the portal of the client with that number, or as a channel of it.
\<close>

datatype accepted = Rejected | Serves_portal nat | Serves_channel nat nat

definition reject_socket :: "os_socket_t \<Rightarrow> server_portal_state \<Rightarrow> accepted outcome \<times> os_socket_t \<times> server_portal_state" where
  "reject_socket s sp = (Ret Rejected, non_thread_safe_close s, sp)"

definition accept_channel :: "identity_t \<Rightarrow> os_socket_t \<Rightarrow> server_portal_state \<Rightarrow> accepted outcome \<times> os_socket_t \<times> server_portal_state" where
  "accept_channel ident s sp = (case find_client ident sp of
       (None, sp1) \<Rightarrow> reject_socket s sp1
     | (Some i, sp1) \<Rightarrow> (case instances sp1 i of
           None \<Rightarrow> (Undefined, s, sp1)
         | Some c \<Rightarrow> (case add_channel i c sp1 of
               (None, sp2) \<Rightarrow> reject_socket s sp2
             | (Some k, sp2) \<Rightarrow> (Ret (Serves_channel i k), s, sp2))))"

definition fn_thread_unified_accepted_socket ::
    "endian \<Rightarrow> bool \<times> bool \<Rightarrow> os_socket_t \<Rightarrow> server_portal_state \<Rightarrow> accepted outcome \<times> os_socket_t \<times> server_portal_state" where
  "fn_thread_unified_accepted_socket g roles s sp = (case recv_greeting g (fst roles) (snd roles) s of
       (Greeting_portal ident, s1) \<Rightarrow>
         if \<not> fst roles then (Abort, s1, sp)
         else (case accept_portal ident sp of
             (None, sp1) \<Rightarrow> reject_socket s1 sp1
           | (Some i, sp1) \<Rightarrow> (Ret (Serves_portal i), s1, sp1))
     | (Greeting_channel ident, s1) \<Rightarrow> if \<not> snd roles then (Abort, s1, sp) else accept_channel ident s1 sp
     | (_, s1) \<Rightarrow> reject_socket s1 sp)"

section \<open>It is made of the steps of the server\<close>

inductive server_steps :: "server_portal_state \<Rightarrow> server_portal_state \<Rightarrow> bool" where
  no_step: "server_steps sp sp"
| one_more: "server_steps sp sp1 \<Longrightarrow> server_step any_identity sp1 sp2 \<Longrightarrow> server_steps sp sp2"

lemma one_server_step: "server_step any_identity sp sp1 \<Longrightarrow> server_steps sp sp1"
  by (blast intro: server_steps.intros)

lemma server_steps_reachable: "server_steps sp sp' \<Longrightarrow> server_reachable any_identity n sp \<Longrightarrow> server_reachable any_identity n sp'"
  by (induction rule: server_steps.induct) (auto intro: server_next)

text \<open>Why a greeting is rejected before the state of the portal is looked at.\<close>

definition greeting_refused :: "greeting \<Rightarrow> bool" where
  "greeting_refused r \<longleftrightarrow> (\<forall>i. r \<noteq> Greeting_portal i \<and> r \<noteq> Greeting_channel i)"

lemma unified_refused:
  assumes "recv_greeting g (fst roles) (snd roles) s = (r, s1)" and "greeting_refused r"
  shows "fn_thread_unified_accepted_socket g roles s sp = reject_socket s1 sp"
  using assms by (cases r) (auto simp: fn_thread_unified_accepted_socket_def greeting_refused_def)

lemma greeting_roles:
  "recv_greeting g p c s = (Greeting_portal i, s1) \<Longrightarrow> p" "recv_greeting g p c s = (Greeting_channel i, s1) \<Longrightarrow> c"
  by (auto simp: recv_greeting_def Let_def split: prod.splits bool.splits if_splits)

lemma accept_channel_cases:
  assumes inst: "\<forall>i. clients sp ident = Some i \<longrightarrow> (\<exists>c. instances sp i = Some c)"
  obtains (unknown) "clients sp ident = None" "accept_channel ident s sp = reject_socket s sp"
    | (closed_client) i c sp1 where "clients sp ident = Some i" "instances sp i = Some c"
        "sp1 = snd (add_channel i c (snd (find_client ident sp)))" "clients sp1 = clients sp" "instances sp1 = instances sp"
        "accept_channel ident s sp = reject_socket s sp1"
    | (added) i c c' sp1 where "clients sp ident = Some i" "instances sp i = Some c"
        "sp1 = snd (add_channel i c (snd (find_client ident sp)))" "clients sp1 = clients sp" "instances sp1 = (instances sp)(i \<mapsto> c')"
        "client_identity c' = client_identity c" "channel_threads c' = channel_threads c + 1"
        "accept_channel ident s sp = (Ret (Serves_channel i (channel_threads c)), s, sp1)"
proof (cases "clients sp ident")
  case None
  then have "accept_channel ident s sp = reject_socket s sp" by (simp add: accept_channel_def find_client_def)
  with None unknown show ?thesis by simp
next
  case (Some i)
  from inst Some obtain c where c: "instances sp i = Some c" by blast
  let ?sp1 = "sp\<lparr>found := i # found sp\<rparr>"
  have f: "find_client ident sp = (Some i, ?sp1)" using Some by (simp add: find_client_def)
  show ?thesis
  proof (cases "fn_channel Stage_ok (channel_threads c) (cl_session c)")
    case None
    with Some c f closed_client [of i c "snd (add_channel i c ?sp1)"] show ?thesis
      by (simp add: accept_channel_def add_channel_def)
  next
    case s: (Some se)
    with Some c f added [of i c "snd (add_channel i c ?sp1)" "c\<lparr>cl_session := se, channel_threads := channel_threads c + 1\<rparr>"] show ?thesis
      by (simp add: accept_channel_def add_channel_def)
  qed
qed

lemma accept_channel_steps:
  assumes c: "clients sp ident = Some i" "instances sp i = Some c" and p: "sp_phase sp \<noteq> Removing_clients"
  shows "server_steps sp (snd (add_channel i c (snd (find_client ident sp))))"
proof -
  let ?sp1 = "snd (find_client ident sp)"
  have s1: "server_step any_identity sp ?sp1" by (rule channel_found [OF p])
  have "i \<in> set (found ?sp1)" "instances ?sp1 i = Some c" using c by (simp_all add: find_client_def)
  then have "server_step any_identity ?sp1 (snd (add_channel i c ?sp1))" by (rule channel_added)
  with one_server_step [OF s1] show ?thesis by (rule one_more)
qed

text \<open>C27: the handler of an accepted socket, whatever the peer sends, on any reachable server whose table is not locked by
  its disposal: it neither aborts nor follows a dangling client; its effect on the server is a
  sequence of the server's steps; only a portal listener on a serving portal makes a new client, which
  gets a fresh number; a channel is added to the client of its identity in the table; and in every other case
  the socket is closed and no client has changed.\<close>

theorem accepted_socket_handled:
  assumes "server_reachable any_identity n sp" and "sp_phase sp \<noteq> Removing_clients"
    and "fn_thread_unified_accepted_socket g (allowed_roles kind repeats) s sp = (r, s', sp')"
  shows "server_steps sp sp' \<and>
    ((\<exists>i. r = Ret (Serves_portal i) \<and> kind = Portal_listener \<and> sp_phase sp = Serving \<and> instances sp i = None
        \<and> (\<exists>ident. instances sp' = (instances sp)(i \<mapsto> client_instance_new n ident)))
     \<or> (\<exists>i k c. r = Ret (Serves_channel i k) \<and> (kind = Channel_listener \<or> repeats \<noteq> None)
        \<and> clients sp (client_identity c) = Some i \<and> instances sp i = Some c \<and> k = channel_threads c
        \<and> (\<exists>c'. instances sp' = (instances sp)(i \<mapsto> c') \<and> channel_threads c' = k + 1))
     \<or> (r = Ret Rejected \<and> \<not> sock_open s' \<and> clients sp' = clients sp \<and> instances sp' = instances sp))"
proof -
  note ok = server_reachable_ok [OF assms(1), unfolded clients_ok_def]
  let ?roles = "allowed_roles kind repeats"
  obtain gr s1 where gr: "recv_greeting g (fst ?roles) (snd ?roles) s = (gr, s1)" by force
  consider (refused) "greeting_refused gr" | (portal) ident where "gr = Greeting_portal ident" | (channel) ident where "gr = Greeting_channel ident"
    unfolding greeting_refused_def by blast
  then show ?thesis
  proof cases
    case refused
    from unified_refused [OF gr this, of sp] assms(3) have "r = Ret Rejected" "s' = non_thread_safe_close s1" "sp' = sp"
      by (simp_all add: reject_socket_def)
    then show ?thesis by (simp add: no_step non_thread_safe_close_def)
  next
    case portal
    with gr greeting_roles(1) have p: "fst ?roles" by blast
    then have kind: "kind = Portal_listener" by (cases kind) (simp_all add: allowed_roles_def channel_roles_def)
    have st: "server_steps sp (snd (accept_portal ident sp))"
      by (rule one_server_step, rule portal_accepted) (simp add: any_identity_def)
    have new: "instances sp (next_id sp) = None"
    proof (cases "instances sp (next_id sp)")
      case (Some c)
      with ok have "next_id sp < next_id sp" by blast
      then show ?thesis by simp
    qed simp
    show ?thesis
    proof (cases "sp_phase sp = Serving")
      case True
      then have "r = Ret (Serves_portal (next_id sp)) \<and> sp' = snd (accept_portal ident sp)"
        using assms(3) gr portal p by (simp add: fn_thread_unified_accepted_socket_def accept_portal_def)
      moreover have "instances (snd (accept_portal ident sp)) = (instances sp)(next_id sp \<mapsto> client_instance_new n ident)"
        using True ok by (simp add: accept_portal_def)
      ultimately show ?thesis using kind True new st by blast
    next
      case False
      then have "r = Ret Rejected \<and> sp' = sp \<and> s' = non_thread_safe_close s1"
        using assms(3) gr portal p by (simp add: fn_thread_unified_accepted_socket_def accept_portal_def reject_socket_def)
      then show ?thesis by (simp add: no_step non_thread_safe_close_def)
    qed
  next
    case channel
    with gr greeting_roles(2) have p: "snd ?roles" by blast
    then have kind: "kind = Channel_listener \<or> repeats \<noteq> None"
      by (cases kind) (simp_all add: allowed_roles_def portal_roles_def)
    have h: "accept_channel ident s1 sp = (r, s', sp')"
      using assms(3) gr channel p by (simp add: fn_thread_unified_accepted_socket_def)
    have inst: "\<forall>i. clients sp ident = Some i \<longrightarrow> (\<exists>c. instances sp i = Some c)" using ok by blast
    show ?thesis
    proof (cases rule: accept_channel_cases [of sp ident s1, OF inst, case_names unknown closed_client added])
      case unknown
      from unknown(2) h have "r = Ret Rejected" "s' = non_thread_safe_close s1" "sp' = sp" by (simp_all add: reject_socket_def)
      then show ?thesis by (simp add: no_step non_thread_safe_close_def)
    next
      case (closed_client i c sp1)
      from closed_client(6) h have "r = Ret Rejected" "s' = non_thread_safe_close s1" "sp' = sp1" by (simp_all add: reject_socket_def)
      moreover from this(3) have "server_steps sp sp'" using accept_channel_steps [OF closed_client(1,2) assms(2)] closed_client(3) by simp
      ultimately show ?thesis using closed_client(4,5) by (simp add: non_thread_safe_close_def)
    next
      case (added i c c' sp1)
      have "client_identity c = ident" using ok added(1,2) by fastforce
      moreover have "server_steps sp sp'" using h added accept_channel_steps [OF added(1,2) assms(2)] by simp
      ultimately show ?thesis using h added kind by fastforce
    qed
  qed
qed
text \<open>An example: the first portal of a server.\<close>

lemma example_portal_greeting:
  "recv_greeting LittleEndian True False (example_sock (greeting_bytes ROLE_PORTAL (store_identity LittleEndian example_identity) @ [1]))
    = (Greeting_portal example_identity, example_sock [1])"
proof -
  let ?id = "store_identity LittleEndian example_identity"
  have s: "sock_open (example_sock (greeting_bytes ROLE_PORTAL ?id @ [1]))"
    "inbox (example_sock (greeting_bytes ROLE_PORTAL ?id @ [1])) = greeting_bytes ROLE_PORTAL ?id @ [1]"
    "(example_sock (greeting_bytes ROLE_PORTAL ?id @ [1]))\<lparr>inbox := [1]\<rparr> = example_sock [1]"
    by (simp_all add: example_sock_def)
  have "length ?id = 16" by (rule length_store_identity)
  from recv_greeting_bytes [OF s(1,2) this, of LittleEndian True False] show ?thesis
    by (simp only: s(3) if_True simp_thms load_store_identity)
qed

theorem accepted_socket_handled_witness:
  "\<exists>s' sp'. fn_thread_unified_accepted_socket LittleEndian (allowed_roles Portal_listener None)
      (example_sock (greeting_bytes ROLE_PORTAL (store_identity LittleEndian example_identity) @ [1])) (portal_start 1)
        = (Ret (Serves_portal 0), s', sp')
    \<and> server_steps (portal_start 1) sp'"
proof -
  have run: "fn_thread_unified_accepted_socket LittleEndian (allowed_roles Portal_listener None)
      (example_sock (greeting_bytes ROLE_PORTAL (store_identity LittleEndian example_identity) @ [1])) (portal_start 1)
        = (Ret (Serves_portal 0), example_sock [1], snd (accept_portal example_identity (portal_start 1)))"
    by (simp add: fn_thread_unified_accepted_socket_def allowed_roles_def portal_roles_def example_portal_greeting accept_portal_def
        portal_start_def)
  have "server_reachable any_identity 1 (portal_start 1)" by (rule server_first) (simp_all add: INVALID_SIGNAL_COUNT_def)
  from accepted_socket_handled [OF this _ run] run show ?thesis by (auto simp: portal_start_def)
qed

end
