(* ===== verification/Arguments.thy ===== *)
theory Arguments
  imports Options
begin

text \<open>
  How an argument of the command line becomes a value: the stream operators of \<open>tcp_endpoint\<close> and
  \<open>host_path\<close> (\<open>program_options.h\<close>) as \<open>CLI::detail::lexical_cast\<close> uses them
  (\<open>thirdparty/CLI11/CLI11.hpp\<close>), and the verbosity that \<open>-q\<close> and \<open>-v\<close> select
  (\<open>program_options.cpp\<close>, \<open>infra/logging.h\<close>).
\<close>

section \<open>Reading a word from a stream\<close>

text \<open>White space in the classic locale.\<close>

definition is_ws :: "char \<Rightarrow> bool" where
  "is_ws c \<longleftrightarrow> c = CHR '' '' \<or> c = CHR 0x09 \<or> c = CHR 0x0A \<or> c = CHR 0x0B \<or> c = CHR 0x0C \<or> c = CHR 0x0D"

text \<open>A string stream: the characters left, and whether it has failed.\<close>

type_synonym istream = "string \<times> bool"

definition istream_open :: "string \<Rightarrow> istream" where
  "istream_open input = (input, False)"

definition extract_word :: "istream \<Rightarrow> string \<times> istream" where
  "extract_word st =
     (if snd st then ([], st)
      else let s = dropWhile is_ws (fst st); w = takeWhile (\<lambda>c. \<not> is_ws c) s
        in (w, (dropWhile (\<lambda>c. \<not> is_ws c) s, w = [])))"

text \<open>\<open>Conversion_error\<close> is the exception \<open>CLI::ConversionError\<close>, \<open>Not_converted\<close> a false result.\<close>

datatype 'a conversion = Converted 'a | Not_converted | Conversion_error string

text \<open>The two operators are alike: they parse a word into a fresh object.\<close>

definition read_argument :: "(string \<Rightarrow> 'a \<Rightarrow> bool \<times> 'a) \<Rightarrow> 'a \<Rightarrow> istream \<Rightarrow> 'a conversion \<times> istream" where
  "read_argument parse fresh st = (case extract_word st of (value, st') \<Rightarrow>
     (case parse value fresh of
        (True, x) \<Rightarrow> (Converted x, st')
      | (False, x) \<Rightarrow> (Conversion_error value, st')))"

definition read_endpoint :: "istream \<Rightarrow> tcp_endpoint conversion \<times> istream" where
  "read_endpoint = read_argument endpoint_parse endpoint_new"

definition read_host_path :: "istream \<Rightarrow> host_path conversion \<times> istream" where
  "read_host_path = read_argument host_path_parse host_path_new"

text \<open>\<open>lexical_cast\<close> accepts a value when the stream has not failed and holds nothing more.\<close>

definition lexical_cast :: "(istream \<Rightarrow> 'a conversion \<times> istream) \<Rightarrow> string \<Rightarrow> 'a conversion" where
  "lexical_cast read input = (case read (istream_open input) of
       (Converted x, (rest, failed)) \<Rightarrow> if \<not> failed \<and> rest = [] then Converted x else Not_converted
     | (r, st) \<Rightarrow> r)"

text \<open>An option for a vector, such as the channels of the server; an exception ends the conversion.\<close>

fun lexical_casts :: "(istream \<Rightarrow> 'a conversion \<times> istream) \<Rightarrow> string list \<Rightarrow> 'a list conversion" where
  "lexical_casts read [] = Not_converted"
| "lexical_casts read [s] = (case lexical_cast read s of
       Converted x \<Rightarrow> Converted [x] | Not_converted \<Rightarrow> Not_converted | Conversion_error v \<Rightarrow> Conversion_error v)"
| "lexical_casts read (s # ss) = (case lexical_cast read s of
       Conversion_error v \<Rightarrow> Conversion_error v
     | Not_converted \<Rightarrow> (case lexical_casts read ss of Conversion_error v \<Rightarrow> Conversion_error v | _ \<Rightarrow> Not_converted)
     | Converted x \<Rightarrow> (case lexical_casts read ss of Converted xs \<Rightarrow> Converted (x # xs) | r \<Rightarrow> r))"

section \<open>What a parser of arguments gets to see\<close>

definition word_argument :: "string \<Rightarrow> string \<Rightarrow> bool" where
  "word_argument input w \<longleftrightarrow> (\<exists>ws. input = ws @ w \<and> list_all is_ws ws \<and> w \<noteq> [] \<and> list_all (\<lambda>c. \<not> is_ws c) w)"

lemma takeWhile_all: "list_all P xs \<Longrightarrow> takeWhile P xs = xs" "list_all P xs \<Longrightarrow> dropWhile P xs = []"
  by (induction xs) auto

lemma extract_word_whole:
  "extract_word (istream_open input) = (w, ([], False)) \<longleftrightarrow> word_argument input w"
proof
  let ?s = "dropWhile is_ws input"
  assume "extract_word (istream_open input) = (w, ([], False))"
  then have w: "w = takeWhile (\<lambda>c. \<not> is_ws c) ?s" "dropWhile (\<lambda>c. \<not> is_ws c) ?s = []" "w \<noteq> []"
    by (auto simp: extract_word_def istream_open_def Let_def)
  have "?s = takeWhile (\<lambda>c. \<not> is_ws c) ?s @ dropWhile (\<lambda>c. \<not> is_ws c) ?s" by (rule takeWhile_dropWhile_id [symmetric])
  then have "?s = w" using w(1,2) by simp
  then have "input = takeWhile is_ws input @ w" by (metis takeWhile_dropWhile_id)
  moreover have "list_all is_ws (takeWhile is_ws input)" by (auto simp: list_all_iff dest: set_takeWhileD)
  moreover have "list_all (\<lambda>c. \<not> is_ws c) w" unfolding w(1) by (auto simp: list_all_iff dest: set_takeWhileD)
  ultimately show "word_argument input w" using w(3) unfolding word_argument_def by blast
next
  assume "word_argument input w"
  then obtain ws where i: "input = ws @ w" "list_all is_ws ws" "w \<noteq> []" "list_all (\<lambda>c. \<not> is_ws c) w" unfolding word_argument_def by blast
  have "dropWhile is_ws w = w" using i(3,4) by (cases w) auto
  moreover have "dropWhile is_ws (ws @ w) = dropWhile is_ws w" using i(2) by (induction ws) auto
  ultimately show "extract_word (istream_open input) = (w, ([], False))"
    using i(3) by (simp add: extract_word_def istream_open_def i(1) takeWhile_all [OF i(4)] Let_def)
qed

text \<open>The contract of a parser behind such an operator: it refuses the empty string.\<close>

locale argument_parser =
  fixes parse :: "string \<Rightarrow> 'a \<Rightarrow> bool \<times> 'a" and fresh :: 'a
  assumes refuses_empty: "\<not> fst (parse [] x)"
begin

lemma argument_converted:
  "lexical_cast (read_argument parse fresh) input = Converted x
    \<longleftrightarrow> (\<exists>w. word_argument input w \<and> parse w fresh = (True, x))"
proof -
  obtain w st where e: "extract_word (istream_open input) = (w, st)" by (rule prod.exhaust)
  have "lexical_cast (read_argument parse fresh) input = Converted x \<longleftrightarrow> parse w fresh = (True, x) \<and> st = ([], False)"
    using e by (cases st) (auto simp: lexical_cast_def read_argument_def split: prod.splits bool.splits)
  also have "\<dots> \<longleftrightarrow> extract_word (istream_open input) = (w, ([], False)) \<and> parse w fresh = (True, x)"
    unfolding e by auto
  also have "\<dots> \<longleftrightarrow> (\<exists>w. extract_word (istream_open input) = (w, ([], False)) \<and> parse w fresh = (True, x))"
    unfolding e by simp
  also have "\<dots> \<longleftrightarrow> (\<exists>w. word_argument input w \<and> parse w fresh = (True, x))" unfolding extract_word_whole by (rule refl)
  finally show ?thesis .
qed

lemma argument_errors:
  "lexical_cast (read_argument parse fresh) input = Conversion_error v
    \<longleftrightarrow> v = fst (extract_word (istream_open input)) \<and> \<not> fst (parse v fresh)"
  by (auto simp: lexical_cast_def read_argument_def split: prod.splits bool.splits if_splits)

lemma blank_argument: "list_all is_ws input \<Longrightarrow> lexical_cast (read_argument parse fresh) input = Conversion_error []"
  using refuses_empty [of fresh]
  by (auto simp: argument_errors extract_word_def istream_open_def takeWhile_all Let_def)

lemma inner_blank_refused:
  assumes "is_ws c" and "input = u @ c # v" and "\<not> list_all is_ws u"
  shows "\<forall>x. lexical_cast (read_argument parse fresh) input \<noteq> Converted x"
proof -
  have "\<not> word_argument input w" for w
  proof
    assume "word_argument input w"
    then obtain ws where i: "u @ c # v = ws @ w" "list_all is_ws ws" "list_all (\<lambda>c. \<not> is_ws c) w"
      unfolding word_argument_def assms(2) by blast
    from i(1) consider us where "u = ws @ us" "us @ c # v = w" | us where "u @ us = ws" by (auto simp: append_eq_append_conv2)
    then show False using i(2,3) assms(1,3) by cases (auto simp: list_all_iff)
  qed
  then show ?thesis using argument_converted by blast
qed

end

lemma empty_endpoint: "endpoint_split [] = None"
  by code_simp

interpretation endpoint_argument: argument_parser endpoint_parse endpoint_new
proof
  fix ep
  have "regex_match re_valid_endpoint [] = None" using endpoint_match_split [of "[]"] empty_endpoint by simp
  then show "\<not> fst (endpoint_parse [] ep)" by (simp add: endpoint_parse_def)
qed

interpretation host_path_argument: argument_parser host_path_parse host_path_new
  by unfold_locales (simp add: host_path_parse_def)

text \<open>An argument is accepted for a path exactly when it is one word, white space before it aside, and
  \<open>host_path::parse\<close> accepts this word; the path is what it parsed. The same holds for an endpoint of the
  server and \<open>tcp_endpoint::parse\<close>.\<close>

theorem argument_is_one_word:
  "(lexical_cast read_host_path input = Converted hp
      \<longleftrightarrow> (\<exists>w. word_argument input w \<and> host_path_parse w host_path_new = (True, hp)))
    \<and> (lexical_cast read_endpoint input = Converted ep
      \<longleftrightarrow> (\<exists>w. word_argument input w \<and> endpoint_parse w endpoint_new = (True, ep)))"
  unfolding read_host_path_def read_endpoint_def
  using host_path_argument.argument_converted endpoint_argument.argument_converted by blast

text \<open>A local path with a blank in it cannot be given on the command line: \<open>host_path::parse\<close> accepts it, but the
  option refuses the argument.\<close>

theorem path_with_blank_refused:
  assumes "is_ws c" and "u \<noteq> []" and "\<not> is_ws (hd u)" and "CHR '':'' \<notin> set (u @ c # v)" and "path_chars (u @ c # v)"
  shows "host_path_parse (u @ c # v) host_path_new = (True, \<lparr>hp_user = None, hp_host = None, hp_path = u @ c # v\<rparr>)
    \<and> lexical_cast read_host_path (u @ c # v) \<noteq> Converted hp"
proof -
  have "\<not> list_all is_ws u" using assms(2,3) by (cases u) auto
  then show ?thesis
    using local_argument_parsed [OF _ assms(4,5), of host_path_new] host_path_argument.inner_blank_refused [OF assms(1) refl]
    unfolding read_host_path_def by simp
qed

theorem path_with_blank_refused_witness:
  "host_path_parse ''my file'' host_path_new = (True, \<lparr>hp_user = None, hp_host = None, hp_path = ''my file''\<rparr>)
    \<and> lexical_cast read_host_path ''my file'' \<noteq> Converted host_path_new"
  using path_with_blank_refused [of "CHR '' ''" "''my''" "''file''" host_path_new] by (simp add: is_ws_def path_chars_def)

section \<open>The options of the programs\<close>

text \<open>
  What \<open>add_options\<close> registers: the names of an option, whether it takes a value, and whether it must be
  given. CLI11 throws when a name is taken (\<open>None\<close>).
\<close>

record cli_option =
  opt_names :: "string list"
  opt_type :: "string option" \<comment> \<open>\<open>None\<close> for a flag\<close>
  opt_required :: bool

definition add_option :: "string list \<Rightarrow> string option \<Rightarrow> bool \<Rightarrow> cli_option list \<Rightarrow> cli_option list option" where
  "add_option names ty req opts =
     (if \<exists>o1 \<in> set opts. \<exists>n \<in> set names. n \<in> set (opt_names o1) then None
      else Some (opts @ [\<lparr>opt_names = names, opt_type = ty, opt_required = req\<rparr>]))"

fun then_add :: "(string list \<times> string option \<times> bool) list \<Rightarrow> cli_option list \<Rightarrow> cli_option list option" where
  "then_add [] opts = Some opts"
| "then_add ((names, ty, req) # more_opts) opts = (case add_option names ty req opts of
      None \<Rightarrow> None | Some opts' \<Rightarrow> then_add more_opts opts')"

definition base_add_options :: "cli_option list \<Rightarrow> cli_option list option" where
  "base_add_options = then_add
     [([''-V'', ''--version''], None, False), ([''-q'', ''--quiet''], None, False), ([''-v'', ''--verbose''], None, False)]"

definition xcp_add_options :: "cli_option list \<Rightarrow> cli_option list option" where
  "xcp_add_options opts = (case base_add_options opts of None \<Rightarrow> None
     | Some opts' \<Rightarrow> then_add
         [([''-P'', ''-p'', ''--port''], Some ''<port>'', False), ([''from''], Some ''<from>'', True), ([''to''], Some ''<to>'', True),
          ([''-r'', ''--recursive''], None, False), ([''-u'', ''--user''], Some ''<user>'', False),
          ([''-B'', ''--block''], Some ''<size>'', False)] opts')"

definition xcpd_add_options :: "cli_option list \<Rightarrow> cli_option list option" where
  "xcpd_add_options opts = (case base_add_options opts of None \<Rightarrow> None
     | Some opts' \<Rightarrow> then_add
         [([''-P'', ''-p'', ''--portal''], Some ''<endpoint>'', False), ([''-C'', ''--channel''], Some ''<endpoint>'', False)] opts')"

text \<open>What CLI11 has registered itself.\<close>

definition help_option :: cli_option where
  "help_option = \<lparr>opt_names = [''-h'', ''--help''], opt_type = None, opt_required = False\<rparr>"

lemma then_add_distinct:
  "distinct (concat (map opt_names opts)) \<Longrightarrow> list_all (\<lambda>o1. distinct (fst o1)) added \<Longrightarrow> then_add added opts = Some opts' \<Longrightarrow>
    distinct (concat (map opt_names opts')) \<and> map opt_names opts' = map opt_names opts @ map fst added"
proof (induction added opts rule: then_add.induct)
  case (2 names ty req more_opts opts)
  from "2.prems"(3) obtain opts1 where a: "add_option names ty req opts = Some opts1" "then_add more_opts opts1 = Some opts'"
    by (auto split: option.splits)
  then have o: "opts1 = opts @ [\<lparr>opt_names = names, opt_type = ty, opt_required = req\<rparr>]"
    and n: "\<forall>o1 \<in> set opts. set names \<inter> set (opt_names o1) = {}"
    by (auto simp: add_option_def split: if_splits)
  have "distinct (concat (map opt_names opts1))" using o n "2.prems"(1,2) by (auto simp: distinct_append)
  moreover have "list_all (\<lambda>o1. distinct (fst o1)) more_opts" using "2.prems"(2) by simp
  moreover have "map opt_names opts1 @ map fst more_opts = map opt_names opts @ map fst ((names, ty, req) # more_opts)" by (simp add: o)
  ultimately show ?case using "2.IH" [OF a(1) _ _ a(2)] by metis
qed simp

text \<open>No name of either program clashes, so registering the options does not throw.\<close>

lemma options_registered:
  "\<exists>opts. xcp_add_options [help_option] = Some opts \<and> distinct (concat (map opt_names opts))
    \<and> map opt_names (filter opt_required opts) = [[''from''], [''to'']]"
  "\<exists>opts. xcpd_add_options [help_option] = Some opts \<and> distinct (concat (map opt_names opts)) \<and> filter opt_required opts = []"
  by (simp_all add: xcp_add_options_def xcpd_add_options_def base_add_options_def add_option_def help_option_def)

section \<open>Verbosity\<close>

text \<open>The levels of the logger, from the one that lets every message through.\<close>

datatype log_level = Level_trace | Level_debug | Level_info | Level_warn | Level_err

fun level_rank :: "log_level \<Rightarrow> nat" where
  "level_rank Level_trace = 0"
| "level_rank Level_debug = 1"
| "level_rank Level_info = 2"
| "level_rank Level_warn = 3"
| "level_rank Level_err = 4"

lemma level_rank_inj: "level_rank a = level_rank b \<Longrightarrow> a = b"
  by (cases a; cases b) auto

instantiation log_level :: linorder
begin

definition less_eq_log_level :: "log_level \<Rightarrow> log_level \<Rightarrow> bool" where
  "less_eq_log_level a b \<longleftrightarrow> level_rank a \<le> level_rank b"

definition less_log_level :: "log_level \<Rightarrow> log_level \<Rightarrow> bool" where
  "less_log_level a b \<longleftrightarrow> level_rank a < level_rank b"

instance
  by standard (auto simp: less_eq_log_level_def less_log_level_def level_rank_inj)

end

definition set_logging_verbosity :: "c_int \<Rightarrow> log_level" where
  "set_logging_verbosity verbosity =
     (if sint verbosity \<ge> 2 then Level_trace
      else if sint verbosity = 1 then Level_debug
      else if sint verbosity = 0 then Level_info
      else if sint verbosity = -1 then Level_warn
      else Level_err)"

text \<open>
  The callbacks of the flags get a count and cast it to \<open>int\<close>; a sum or a difference beyond \<open>int\<close> is
  undefined behaviour.
\<close>

definition int_result :: "int \<Rightarrow> c_int outcome" where
  "int_result i = (if - (2 ^ 31) \<le> i \<and> i < 2 ^ 31 then Ret (word_of_int i) else Undefined)"

definition be_quiet :: "u64 \<Rightarrow> c_int \<Rightarrow> c_int outcome" where
  "be_quiet n verbosity = int_result (sint verbosity - sint (ucast n :: c_int))"

definition be_verbose :: "u64 \<Rightarrow> c_int \<Rightarrow> c_int outcome" where
  "be_verbose n verbosity = int_result (sint verbosity + sint (ucast n :: c_int))"

text \<open>\<open>add_options\<close> registers \<open>-q\<close> before \<open>-v\<close>; a flag that is not given is not called back.\<close>

definition base_flags :: "u64 option \<Rightarrow> u64 option \<Rightarrow> c_int \<Rightarrow> c_int outcome" where
  "base_flags quiet verbose arg_verbosity =
     (case (case quiet of None \<Rightarrow> Ret arg_verbosity | Some n \<Rightarrow> be_quiet n arg_verbosity) of
        Ret v \<Rightarrow> (case verbose of None \<Rightarrow> Ret v | Some n \<Rightarrow> be_verbose n v)
      | r \<Rightarrow> r)"

text \<open>\<open>base_program_options::post_process\<close>, with the level of the logger as its state.\<close>

definition base_post_process :: "c_int \<Rightarrow> log_level \<Rightarrow> bool \<times> log_level" where
  "base_post_process arg_verbosity level = (True, set_logging_verbosity arg_verbosity)"

fun flag_count :: "u64 option \<Rightarrow> int" where
  "flag_count None = 0"
| "flag_count (Some k) = uint k"

lemma small_count:
  assumes "uint k < 2 ^ 30"
  shows "sint (ucast k :: c_int) = uint k"
proof -
  have "int (unat k) < int (2 ^ 30)" using assms by simp
  then have n: "unat k < 2 ^ 30" by (simp only: of_nat_less_iff)
  have u: "unat (ucast k :: c_int) = unat k"
    by (simp only: unsigned_ucast_eq) (rule take_bit_nat_eq_self, use n in simp)
  have "unat (ucast k :: c_int) < 2 ^ 31" unfolding u using n by simp
  from sint_small [OF this] show ?thesis unfolding u by simp
qed

lemma int_result_small: "- (2 ^ 31) \<le> i \<Longrightarrow> i < 2 ^ 31 \<Longrightarrow> \<exists>v. int_result i = Ret v \<and> sint v = i"
proof -
  assume i: "- (2 ^ 31) \<le> i" "i < 2 ^ 31"
  then have "signed_take_bit 31 i = i" by (rule signed_take_bit_int_eq_self)
  then have "sint (word_of_int i :: c_int) = i" by (simp add: signed_of_int)
  with i show ?thesis by (simp add: int_result_def)
qed

text \<open>With any sensible numbers of \<open>-q\<close> and \<open>-v\<close> the verbosity is their difference.\<close>

lemma base_flags_difference:
  assumes "flag_count quiet < 2 ^ 30" and "flag_count verbose < 2 ^ 30"
  shows "\<exists>v. base_flags quiet verbose 0 = Ret v \<and> sint v = flag_count verbose - flag_count quiet"
proof -
  have q: "0 \<le> flag_count quiet" by (cases quiet) simp_all
  have lo: "- (2 ^ 31) \<le> - flag_count quiet" using assms(1) by simp
  have hi: "- flag_count quiet < 2 ^ 31" using q by simp
  have "\<exists>v. (case quiet of None \<Rightarrow> Ret 0 | Some n \<Rightarrow> be_quiet n 0) = Ret v \<and> sint v = - flag_count quiet"
    using assms(1) int_result_small [of "- flag_count quiet", OF lo hi]
    by (cases quiet) (auto simp: be_quiet_def small_count)
  then obtain v where v: "(case quiet of None \<Rightarrow> Ret 0 | Some n \<Rightarrow> be_quiet n 0) = Ret v" "sint v = - flag_count quiet" by blast
  have vb: "0 \<le> flag_count verbose" by (cases verbose) simp_all
  have "\<exists>w. int_result (flag_count verbose - flag_count quiet) = Ret w \<and> sint w = flag_count verbose - flag_count quiet"
    by (rule int_result_small) (use assms q vb in simp_all)
  then show ?thesis
    using v assms(2) by (cases verbose) (simp_all add: base_flags_def be_verbose_def small_count)
qed

text \<open>A client or server that is asked to be more verbose, or less quiet, lets every message through that it let
  through before: the level of the logger falls with the difference of the two counts, from \<open>info\<close>
  at 0.\<close>

theorem verbosity_monotone:
  assumes "flag_count q < 2 ^ 30" "flag_count v < 2 ^ 30" "flag_count q' < 2 ^ 30" "flag_count v' < 2 ^ 30"
    and "flag_count v - flag_count q \<le> flag_count v' - flag_count q'"
    and "base_flags q v 0 = Ret a" and "base_flags q' v' 0 = Ret b"
  shows "snd (base_post_process b l) \<le> snd (base_post_process a l)
    \<and> (flag_count v = flag_count q \<longrightarrow> snd (base_post_process a l) = Level_info)"
proof -
  have "sint a \<le> sint b" "sint a = flag_count v - flag_count q"
    using base_flags_difference [OF assms(1,2)] base_flags_difference [OF assms(3,4)] assms(5-7) by auto
  then show ?thesis by (auto simp: base_post_process_def set_logging_verbosity_def less_eq_log_level_def)
qed

theorem verbosity_monotone_witness:
  "snd (base_post_process 3 Level_info) \<le> snd (base_post_process (-1) Level_info)"
proof -
  have "base_flags (Some 1) None 0 = Ret (-1)" "base_flags None (Some 3) 0 = Ret 3"
    by code_simp+
  from verbosity_monotone [OF _ _ _ _ _ this, of Level_info] show ?thesis by simp
qed

end
