(* ===== verification/Programs.thy ===== *)
theory Programs
  imports Gate Disposable
begin

text \<open>
  The signal handling of the two programs (\<open>infra/sighandle.h\<close>) on its exit gate, and \<open>main\<close> of
  \<open>xcpd\<close> (\<open>xcpd.cpp\<close>) after the arguments have been parsed. \<open>sigaction\<close> and \<open>signal\<close> are parameters
  that return 0 or the error number.
\<close>

section \<open>Signals\<close>

datatype posix_signal = SIGINT | SIGABRT | SIGTERM | SIGQUIT | SIGTSTP | SIGPIPE

datatype disposition = Sig_default | Sig_stop_handler | Sig_ignored

definition linux_stop_signals :: "posix_signal list" where
  "linux_stop_signals = [SIGINT, SIGABRT, SIGTERM, SIGQUIT, SIGTSTP]"

definition linux_ignored_signals :: "posix_signal list" where
  "linux_ignored_signals = [SIGPIPE]"

definition windows_stop_signals :: "posix_signal list" where
  "windows_stop_signals = [SIGINT, SIGABRT, SIGTERM]"

text \<open>The process: the gate, and what a signal does.\<close>

type_synonym sig_state = "gate_guard \<times> (posix_signal \<Rightarrow> disposition)"

fun install_handlers :: "(posix_signal \<Rightarrow> int) \<Rightarrow> disposition \<Rightarrow> posix_signal list \<Rightarrow> sig_state \<Rightarrow> unit outcome \<times> sig_state" where
  "install_handlers call d [] st = (Ret (), st)"
| "install_handlers call d (sig # sigs) st =
     (if call sig \<noteq> 0 then (Throw (System_error (call sig)), st)
      else install_handlers call d sigs (fst st, (snd st)(sig := d)))"

definition init_exit_gate :: "sig_state \<Rightarrow> unit outcome \<times> sig_state" where
  "init_exit_gate st = (case setup_signal_handler (fst st) of (r, g) \<Rightarrow> (r, (g, snd st)))"

definition setup_signal_handler_linux :: "(posix_signal \<Rightarrow> int) \<Rightarrow> (posix_signal \<Rightarrow> int) \<Rightarrow> sig_state \<Rightarrow> unit outcome \<times> sig_state" where
  "setup_signal_handler_linux sigaction signal =
     seq_st init_exit_gate
       (\<lambda>_. seq_st (install_handlers sigaction Sig_stop_handler linux_stop_signals)
         (\<lambda>_. install_handlers signal Sig_ignored linux_ignored_signals))"

definition setup_signal_handler_windows :: "(posix_signal \<Rightarrow> int) \<Rightarrow> sig_state \<Rightarrow> unit outcome \<times> sig_state" where
  "setup_signal_handler_windows signal =
     seq_st init_exit_gate (\<lambda>_. install_handlers signal Sig_stop_handler windows_stop_signals)"

text \<open>A signal that arrives: \<open>stop_handler\<close> requires the exit; the default action ends the process.\<close>

datatype delivery = Handled | Ignored | Process_ended

definition stop_handler :: "posix_signal \<Rightarrow> gate_guard \<Rightarrow> unit outcome \<times> gate_guard" where
  "stop_handler sig = require_exit"

definition deliver :: "posix_signal \<Rightarrow> sig_state \<Rightarrow> delivery outcome \<times> sig_state" where
  "deliver sig st = (case snd st sig of
       Sig_default \<Rightarrow> (Ret Process_ended, st)
     | Sig_ignored \<Rightarrow> (Ret Ignored, st)
     | Sig_stop_handler \<Rightarrow> (case stop_handler sig (fst st) of
           (Ret _, g) \<Rightarrow> (Ret Handled, (g, snd st))
         | (Throw e, g) \<Rightarrow> (Throw e, (g, snd st))
         | (Abort, g) \<Rightarrow> (Abort, (g, snd st))
         | (Undefined, g) \<Rightarrow> (Undefined, (g, snd st))))"

text \<open>
  The exception handler of \<open>wait_for_exit_required\<close>, for what \<open>wait\<close> of the gate gives: an interrupted
  wait is as good as a finished one when the exit is required.
\<close>

definition EINTR :: int where
  "EINTR = 4"

definition catch_interrupted_wait :: "unit option outcome \<Rightarrow> gate_guard \<Rightarrow> unit option outcome" where
  "catch_interrupted_wait waited g = (case waited of
       Throw (System_error err) \<Rightarrow>
         if err \<noteq> EINTR then Throw (System_error err)
         else (case is_exit_required g of
             Ret True \<Rightarrow> Ret (Some ())
           | Ret False \<Rightarrow> Throw (System_error err)
           | _ \<Rightarrow> Abort)
     | _ \<Rightarrow> waited)"

lemma install_all:
  "\<forall>sig \<in> set sigs. call sig = 0 \<Longrightarrow>
    install_handlers call d sigs st = (Ret (), (fst st, \<lambda>sig. if sig \<in> set sigs then d else snd st sig))"
proof (induction sigs arbitrary: st)
  case (Cons s sigs)
  have "(\<lambda>sig. if sig \<in> set sigs then d else snd (fst st, (snd st)(s := d)) sig) = (\<lambda>sig. if sig \<in> set (s # sigs) then d else snd st sig)"
    by (rule ext) simp
  with Cons show ?case by simp
qed simp

lemma install_fails:
  "\<forall>sig \<in> set sigs. call sig = 0 \<Longrightarrow> call sig \<noteq> 0 \<Longrightarrow>
    fst (install_handlers call d (sigs @ sig # rest) st) = Throw (System_error (call sig))"
  by (induction sigs arbitrary: st) auto

lemma setup_gate: "setup_signal_handler gate_new = (Ret (), gate_new\<lparr>at_least_signal := 1\<rparr>)"
  by (simp add: setup_signal_handler_def gate_init_def gate_new_def INVALID_SIGNAL_COUNT_def)

lemma set_up_linux:
  assumes "\<forall>sig \<in> set linux_stop_signals. sigaction sig = 0" and "signal SIGPIPE = 0"
  shows "setup_signal_handler_linux sigaction signal (gate_new, \<lambda>_. Sig_default) = (Ret (), (gate_new\<lparr>at_least_signal := 1\<rparr>,
    \<lambda>sig. if sig = SIGPIPE then Sig_ignored else Sig_stop_handler))"
proof -
  have "set linux_stop_signals = UNIV - {SIGPIPE}" by (auto simp: linux_stop_signals_def) (metis posix_signal.exhaust)
  with assms show ?thesis
    by (simp add: setup_signal_handler_linux_def init_exit_gate_def setup_gate install_all linux_ignored_signals_def fun_eq_iff)
qed

text \<open>On Linux, once the signal handlers are set up, every signal that asks the program to stop makes it require
  the exit and lets its main thread through, a broken pipe does nothing, and no signal of the list ends
  the process at once; after a failed set-up of a handler the error is thrown instead.\<close>

theorem signals_require_exit:
  assumes "\<forall>sig \<in> set linux_stop_signals. sigaction sig = 0" and "signal SIGPIPE = 0"
    and "setup_signal_handler_linux sigaction signal (gate_new, \<lambda>_. Sig_default) = (r, st)"
  shows "r = Ret () \<and> is_exit_required (fst st) = Ret False \<and> wait_for_exit_required (fst st) = Ret None
    \<and> (\<exists>st'. deliver sig st = (Ret (if sig = SIGPIPE then Ignored else Handled), st')
      \<and> is_exit_required (fst st') = Ret (sig \<noteq> SIGPIPE)
      \<and> wait_for_exit_required (fst st') = Ret (if sig = SIGPIPE then None else Some ())
      \<and> (sig \<noteq> SIGPIPE \<longrightarrow> catch_interrupted_wait (Throw (System_error EINTR)) (fst st') = Ret (Some ())))"
  using set_up_linux [of sigaction signal, OF assms(1,2)] assms(3)
  by (auto simp: deliver_def stop_handler_def require_exit_def is_exit_required_def wait_for_exit_required_def gate_signal_def
      gate_can_pass_def gate_wait_def gate_initialized_def gate_new_def INVALID_SIGNAL_COUNT_def catch_interrupted_wait_def seq_st_def
      assert_st_def Let_def)

theorem signals_require_exit_witness:
  "is_exit_required (fst (snd (deliver SIGTERM (snd (setup_signal_handler_linux (\<lambda>_. 0) (\<lambda>_. 0) (gate_new, \<lambda>_. Sig_default)))))) = Ret True"
  using signals_require_exit [of "\<lambda>_. 0" "\<lambda>_. 0", OF _ _ surjective_pairing, of SIGTERM] by auto

section \<open>The server program\<close>

text \<open>What \<open>main\<close> does to the world, in order.\<close>

datatype main_event = Portal_initialised bool | Exit_awaited | Exit_required | Portal_disposed

type_synonym main_state = "gate_guard \<times> main_event list"

definition exit_sweep :: "main_state \<Rightarrow> main_state" where
  "exit_sweep st =
     (case is_exit_required (fst st) of
        Ret True \<Rightarrow> (fst st, snd st @ [Portal_disposed])
      | _ \<Rightarrow> (snd (require_exit (fst st)), snd st @ [Exit_required, Portal_disposed]))"

text \<open>
  \<open>init_ok\<close> is the result of the portal's \<open>init\<close>, and \<open>signalled\<close> how many times the exit has been
  required when the main thread waits. The result is the exit status, or \<open>None\<close> while it waits.
\<close>

definition xcpd_scope :: "bool \<Rightarrow> nat \<Rightarrow> main_state \<Rightarrow> (c_int option \<times> bool) outcome \<times> main_state" where
  "xcpd_scope init_ok signalled st =
     (let st1 = (fst st, snd st @ [Portal_initialised init_ok])
      in if \<not> init_ok then (Ret (Some 1, False), st1)
         else let st2 = (snd (gate.signals signalled (fst st1)), snd st1 @ [Exit_awaited])
           in case wait_for_exit_required (fst st2) of
                Ret (Some _) \<Rightarrow> (Ret (Some 0, False), st2)
              | Ret None \<Rightarrow> (Ret (None, True), st2)
              | Throw e \<Rightarrow> (Throw e, st2)
              | Abort \<Rightarrow> (Abort, st2)
              | Undefined \<Rightarrow> (Undefined, st2))"

definition xcpd_main :: "bool \<Rightarrow> bool \<Rightarrow> nat \<Rightarrow> c_int option outcome \<times> main_state" where
  "xcpd_main options_ok init_ok signalled =
     (if \<not> options_ok then (Ret (Some 1), (gate_new, []))
      else case setup_signal_handler gate_new of
          (Ret _, g) \<Rightarrow> sweep_scope exit_sweep (xcpd_scope init_ok signalled) (g, [])
        | (Throw e, g) \<Rightarrow> (Throw e, (g, []))
        | (Abort, g) \<Rightarrow> (Abort, (g, []))
        | (Undefined, g) \<Rightarrow> (Undefined, (g, [])))"

lemma signals_keep_level: "gate_initialized g \<Longrightarrow> at_least_signal (snd (gate.signals n g)) = at_least_signal g"
proof (induction n arbitrary: g)
  case (Suc n)
  obtain g1 where g1: "gate_signal g = (Ret (), g1)" "gate_initialized g1" "at_least_signal g1 = at_least_signal g"
    using Suc.prems by (simp add: gate_signal_def gate_initialized_def seq_st_def assert_st_def Let_def)
  with Suc.IH [OF g1(2)] show ?case by simp
qed simp

text \<open>The sweeper leaves the exit required, even when the count of the gate has wrapped.\<close>

lemma exit_sweep_requires:
  assumes "at_least_signal g = 1"
  shows "\<exists>g' es'. exit_sweep (g, es) = (g', es @ es') \<and> last es' = Portal_disposed \<and> es' \<noteq> [] \<and> is_exit_required g' = Ret True"
proof -
  have "1 \<le> curr_signal_count g \<or> curr_signal_count g = 0"
    using inc_le [of 0 "curr_signal_count g"] by (cases "curr_signal_count g = 0") (simp_all add: word_neq_0_conv)
  then show ?thesis
  proof
    assume "1 \<le> curr_signal_count g"
    with assms have r: "is_exit_required g = Ret True"
      by (simp add: is_exit_required_def gate_can_pass_def gate_initialized_def INVALID_SIGNAL_COUNT_def)
    then show ?thesis by (intro exI [of _ g] exI [of _ "[Portal_disposed]"]) (simp add: exit_sweep_def)
  next
    assume c: "curr_signal_count g = 0"
    let ?g = "g\<lparr>curr_signal_count := 1, mre := True\<rparr>"
    have "is_exit_required g = Ret False" "is_exit_required ?g = Ret True" "require_exit g = (Ret (), ?g)"
      using assms c by (simp_all add: is_exit_required_def gate_can_pass_def require_exit_def gate_signal_def gate_initialized_def
        INVALID_SIGNAL_COUNT_def seq_st_def assert_st_def Let_def)
    then show ?thesis by (intro exI [of _ ?g] exI [of _ "[Exit_required, Portal_disposed]"]) (simp add: exit_sweep_def)
  qed
qed

text \<open>C32: \<open>xcpd\<close> returns 0 exactly when its options were accepted, its portal was initialised and the exit has been
  required, and waits until then; a portal that was made is disposed of before the program returns,
  on the way of an error too, and always after the exit has been required, on which its accept loops
  rely.\<close>

theorem xcpd_disposes_after_exit:
  "\<exists>r g es. xcpd_main options_ok init_ok n = (Ret r, (g, es))
    \<and> (r = Some 0 \<longleftrightarrow> options_ok \<and> init_ok \<and> 0 < n) \<and> (r = None \<longleftrightarrow> options_ok \<and> init_ok \<and> n = 0)
    \<and> (r = Some 1 \<longleftrightarrow> \<not> (options_ok \<and> init_ok))
    \<and> (if options_ok \<and> r \<noteq> None then last es = Portal_disposed \<and> is_exit_required g = Ret True else Portal_disposed \<notin> set es)"
proof (cases "options_ok \<and> init_ok")
  case True
  let ?g = "gate_new\<lparr>at_least_signal := 1\<rparr>"
  have v: "gate_valid ?g" "gate_needed ?g = 1" "gate_initialized ?g"
    by (simp_all add: gate_new_def gate_valid_def gate_needed_def gate_initialized_def INVALID_SIGNAL_COUNT_def)
  show ?thesis
  proof (cases "n = 0")
    case True
    with \<open>options_ok \<and> init_ok\<close> show ?thesis
      using gate.signals_closed [OF v(1), of n] v(2)
      by (auto simp: xcpd_main_def setup_gate sweep_scope_def xcpd_scope_def wait_for_exit_required_def Let_def)
  next
    case False
    then obtain g where g: "gate.signals n ?g = (Ret (), g)" "gate_wait g = Ret (Some ())"
      using gate.signals_open [OF v(1), of n] v(2) by auto
    have "at_least_signal g = 1" using signals_keep_level [OF v(3), of n] g(1) by simp
    from exit_sweep_requires [OF this, of "[Portal_initialised True, Exit_awaited]"] obtain g' es' where
      "exit_sweep (g, [Portal_initialised True, Exit_awaited]) = (g', [Portal_initialised True, Exit_awaited] @ es')"
      "last es' = Portal_disposed" "es' \<noteq> []" "is_exit_required g' = Ret True" by blast
    with g False \<open>options_ok \<and> init_ok\<close> show ?thesis
      by (simp add: xcpd_main_def setup_gate sweep_scope_def xcpd_scope_def wait_for_exit_required_def Let_def)
  qed
next
  case False
  have "at_least_signal (gate_new\<lparr>at_least_signal := 1\<rparr>) = 1" by simp
  from exit_sweep_requires [OF this, of "[Portal_initialised False]"] obtain g' es' where
    "exit_sweep (gate_new\<lparr>at_least_signal := 1\<rparr>, [Portal_initialised False]) = (g', [Portal_initialised False] @ es')"
    "last es' = Portal_disposed" "es' \<noteq> []" "is_exit_required g' = Ret True" by blast
  with False show ?thesis
    by (cases options_ok) (simp_all add: xcpd_main_def setup_gate sweep_scope_def xcpd_scope_def Let_def)
qed

end
