(* ===== verification/Dialogue.thy ===== *)
theory Dialogue
  imports Client
begin

text \<open>
  The messages that the portal of a client and that of the server exchange, each step with its socket:
  the server's information, the client's request and the server's response (\<open>client_instance::fn_portal\<close>
  in \<open>server.cpp\<close>, \<open>client_portal_state::fn_thread_work\<close> in \<open>client.cpp\<close>). What they say is made in
  \<open>Server\<close> and \<open>Client\<close>, how it travels in \<open>Messages\<close>.
\<close>

section \<open>The server\<close>

text \<open>A false result is an early return.\<close>

definition send_server_information ::
    "endian \<Rightarrow> xcpd_program_options \<Rightarrow> tcp_sockaddr \<Rightarrow> server_channel_state list \<Rightarrow> os_socket_t \<Rightarrow> bool outcome \<times> os_socket_t" where
  "send_server_information h opts bound chans s = (case server_information opts bound chans of
       Ret msg \<Rightarrow> message_send SERVER_INFORMATION save_server_information h msg s
     | Throw e \<Rightarrow> (Throw e, s)
     | Abort \<Rightarrow> (Abort, s)
     | Undefined \<Rightarrow> (Undefined, s))"

definition recv_transfer_request :: "endian \<Rightarrow> os_socket_t \<Rightarrow> message_client_transfer_request option outcome \<times> os_socket_t" where
  "recv_transfer_request h s = message_recv CLIENT_TRANSFER_REQUEST load_request h s"

text \<open>The portal goes on after it has told the client that there is no error.\<close>

definition send_transfer_response :: "endian \<Rightarrow> message_server_transfer_response \<Rightarrow> os_socket_t \<Rightarrow> bool outcome \<times> os_socket_t" where
  "send_transfer_response h msg s = (case message_send SERVER_TRANSFER_RESPONSE save_response h msg s of
       (Ret sent, s') \<Rightarrow> (Ret (sent \<and> resp_error_code msg = 0), s')
     | r \<Rightarrow> r)"

section \<open>The client\<close>

definition recv_server_information :: "endian \<Rightarrow> os_socket_t \<Rightarrow> (tcp_sockaddr \<times> u64) list option outcome \<times> os_socket_t" where
  "recv_server_information h s = (case message_recv SERVER_INFORMATION load_server_information h s of
       (Ret None, s') \<Rightarrow> (Ret None, s')
     | (Ret (Some msg), s') \<Rightarrow> (Ret (Some (server_channels msg)), s')
     | (Throw e, s') \<Rightarrow> (Throw e, s')
     | (Abort, s') \<Rightarrow> (Abort, s')
     | (Undefined, s') \<Rightarrow> (Undefined, s'))"

definition send_client_request :: "endian \<Rightarrow> xcp_program_options \<Rightarrow> transfer \<Rightarrow> os_socket_t \<Rightarrow> bool outcome \<times> os_socket_t" where
  "send_client_request h opts t s = (case client_request opts t of
       Ret msg \<Rightarrow> message_send CLIENT_TRANSFER_REQUEST save_request h msg s
     | Throw e \<Rightarrow> (Throw e, s)
     | Abort \<Rightarrow> (Abort, s)
     | Undefined \<Rightarrow> (Undefined, s))"

definition recv_transfer_response ::
    "endian \<Rightarrow> 'w posix \<Rightarrow> xcp_program_options \<Rightarrow> u64 \<Rightarrow> transfer \<times> 'w \<Rightarrow> os_socket_t \<Rightarrow> bool outcome \<times> (transfer \<times> 'w) \<times> os_socket_t" where
  "recv_transfer_response h px opts n_channels st s = (case message_recv SERVER_TRANSFER_RESPONSE load_response h s of
       (Ret None, s') \<Rightarrow> (Ret False, st, s')
     | (Ret (Some msg), s') \<Rightarrow> (case client_response px opts n_channels msg st of (r, st') \<Rightarrow> (r, st', s'))
     | (Throw e, s') \<Rightarrow> (Throw e, st, s')
     | (Abort, s') \<Rightarrow> (Abort, st, s')
     | (Undefined, s') \<Rightarrow> (Undefined, st, s'))"

section \<open>Over the wire\<close>

text \<open>What a side has written since it held \<open>s\<close> has arrived at the other, before \<open>rest\<close>.\<close>

definition arrives :: "os_socket_t \<Rightarrow> os_socket_t \<Rightarrow> os_socket_t \<Rightarrow> byte list \<Rightarrow> bool" where
  "arrives s s' r rest \<longleftrightarrow> sock_open r \<and> outbox s @ inbox r = outbox s' @ rest"

lemma request_travels:
  assumes "client_request opts t = Ret req" and "request_ok req" and "send_client_request h opts t c = (Ret True, c')"
    and "arrives c c' s rest"
  shows "recv_transfer_request g s = (Ret (Some (request_view req)), s\<lparr>inbox := rest\<rparr>)"
proof -
  have "message_send CLIENT_TRANSFER_REQUEST save_request h req c = (Ret True, c')"
    using assms(1,3) by (simp add: send_client_request_def)
  from request_codec.message_round_trip [OF _ assms(2) this, of s rest g] assms(4) show ?thesis
    by (simp add: recv_transfer_request_def arrives_def)
qed

lemma response_sent:
  assumes "send_transfer_response h msg s = (Ret True, s')"
  shows "message_send SERVER_TRANSFER_RESPONSE save_response h msg s = (Ret True, s')" and "resp_error_code msg = 0"
  using assms by (auto simp: send_transfer_response_def split: prod.splits outcome.splits)

lemma response_travels:
  assumes "response_ok msg" and "message_send SERVER_TRANSFER_RESPONSE save_response h msg s = (Ret True, s')" and "arrives s s' c rest"
  shows "recv_transfer_response g px opts n st c
    = (case client_response px opts n msg st of (r, st') \<Rightarrow> (r, st', c\<lparr>inbox := rest\<rparr>))"
  using response_codec.message_round_trip [OF _ assms(1,2), of c rest g] assms(3)
  by (simp add: recv_transfer_response_def arrives_def)

text \<open>The channels that the server tells arrive on a host of the same byte order.\<close>

lemma information_travels:
  assumes "server_information opts bound chans = Ret info" and "server_information_ok info"
    and "send_server_information h opts bound chans s = (Ret True, s')" and "arrives s s' c rest"
  shows "recv_server_information h c = (Ret (Some (server_channels info)), c\<lparr>inbox := rest\<rparr>)"
proof -
  have "message_send SERVER_INFORMATION save_server_information h info s = (Ret True, s')"
    using assms(1,3) by (simp add: send_server_information_def)
  from server_information_codec.message_round_trip [OF refl assms(2) this, of c rest] assms(4) show ?thesis
    by (simp add: recv_server_information_def arrives_def)
qed

lemma agreed_ends:
  assumes "client_init_transfer pxc opts wc = (Ret True, Some tc, wc1)"
    and "client_request opts tc = Ret req" and "request_ok req" and "response_ok resp"
    and "send_client_request hc opts tc c = (Ret True, c1)" and "arrives c c1 s sr"
    and "recv_transfer_request hs s = (Ret (Some q), s1)" and "handle_request env pxs n_server q ws = (Ret resp, Some ts, ws1)"
    and "send_transfer_response hs resp s1 = (Ret True, s2)" and "arrives s1 s2 c2 cr"
    and "recv_transfer_response hc pxc opts n_client (tc, wc1) c2 = (Ret True, (tc1, wc2), c3)"
    and "opens_valid pxc" and "opens_valid pxs" and "errno_nonzero pxs"
    and "C = unat (if from_server_to_client opts then n_client else n_server)"
  obtains src dst info where "transfer_ends tc1 ts = Some (src, dst)" "source_ready src" "src_info src = Some info"
    "dest_ready info C dst"
proof -
  have q: "q = request_view req" using request_travels [OF assms(2,3,5,6), of hs] assms(7) by simp
  have "client_response pxc opts n_client resp (tc, wc1) = (Ret True, (tc1, wc2))"
    using response_travels [OF assms(4) response_sent(1) [OF assms(9)] assms(10), of hc pxc opts n_client "(tc, wc1)"] assms(11)
    by (simp split: prod.splits)
  from negotiated_ends [OF assms(1,2) assms(8) [unfolded q] this assms(12-15)] that show thesis .
qed

text \<open>C2: a copy that a client and a server negotiate is a copy, over the wire: let the client prepare its end
  and send its request, let the server, on a host of any byte order, receive it, make its own end and answer
  without an error, and let the client receive the answer and accept it. Then one of them has a
  source and the other a destination, and whichever way their channels interleave, if those of the
  destination all return successfully, each file has the bytes of the source's.\<close>

theorem copy_over_wire:
  assumes "client_init_transfer pxc opts wc = (Ret True, Some tc, wc1)"
    and "client_request opts tc = Ret req" and "request_ok req" and "response_ok resp"
    and "send_client_request hc opts tc c = (Ret True, c1)" and "arrives c c1 s sr"
    and "recv_transfer_request hs s = (Ret (Some q), s1)" and "handle_request env pxs n_server q ws = (Ret resp, Some ts, ws1)"
    and "send_transfer_response hs resp s1 = (Ret True, s2)" and "arrives s1 s2 c2 cr"
    and "recv_transfer_response hc pxc opts n_client (tc, wc1) c2 = (Ret True, (tc1, wc2), c3)"
    and "opens_valid pxc" and "opens_valid pxs" and "errno_nonzero pxs"
    and "C = unat (if from_server_to_client opts then n_client else n_server)"
  shows "\<exists>src dst info. transfer_ends tc1 ts = Some (src, dst) \<and> src_info src = Some info
    \<and> (\<forall>contents ss ds h g ms s n. files_stable contents C info src \<longrightarrow> (\<forall>k<C. outbox (ss k) = [])
        \<longrightarrow> xfer_run h g contents C ms (transfer_start src dst ss ds) = Some s
        \<longrightarrow> (\<forall>k<C. dc_pc (cn_dst (xf_conns s k)) = Dst_returned True) \<longrightarrow> n < length (files_info info)
        \<longrightarrow> contents (src_handle (send_ctx src ! n)) = Some (dst_pages (recv_ctx (xf_dst s) ! n)))"
proof -
  from agreed_ends [OF assms] obtain src dst info where "transfer_ends tc1 ts = Some (src, dst)"
    and r: "source_ready src" "src_info src = Some info" "dest_ready info C dst" .
  with ready_copy [OF r(1,2) dest_ready_sized [OF r(3)]] show ?thesis by blast
qed

text \<open>The download of \<open>Client\<close>, between a little-endian client and a big-endian server.\<close>

definition download_request :: message_client_transfer_request where
  "download_request = \<lparr>is_from_server_to_client = True, server_path = ''/a'', transfer_block_size = 2, is_recursive = 0,
     req_user = empty_user_name, req_transfer_info = None\<rparr>"

lemmas archive_eval = archive_of_def output_archive_def saveBinary_def out_convert_def cat_def save_as_def save_pair_def save_bool_def
  save_u32_def save_u64_def save_string_def save_uint_def save_user_name_def user_members_def save_optional_def save_vector_def

lemma download_request_sent:
  "\<exists>c1. message_send CLIENT_TRANSFER_REQUEST save_request LittleEndian download_request (wire_sock []) = (Ret True, c1)"
proof -
  have "\<exists>b. archive_of save_request LittleEndian download_request = Ret b \<and> length b < 4000"
    by (simp add: download_request_def empty_user_name_def save_request_def archive_eval)
  then show ?thesis using message_send_enough [where s = "wire_sock []"] by (fastforce simp: wire_sock_def INT32_MAX_def)
qed

lemma download_response_sent:
  "\<exists>s2. message_send SERVER_TRANSFER_RESPONSE save_response BigEndian (response 0 [] (Some demo_info)) (wire_sock []) = (Ret True, s2)"
proof -
  have "\<exists>b. archive_of save_response BigEndian (response 0 [] (Some demo_info)) = Ret b \<and> length b < 4000"
    by (simp add: response_def demo_info_def save_response_def save_transfer_info_def save_file_info_def archive_eval)
  then show ?thesis using message_send_enough [where s = "wire_sock []"] by (fastforce simp: wire_sock_def INT32_MAX_def)
qed

lemma wire_arrives: "arrives (wire_sock []) s' (wire_sock (outbox s')) []"
  by (simp add: arrives_def wire_sock_def)

text \<open>The whole dialogue of that download.\<close>

lemma download_dialogue:
  obtains c1 s2 where
    "client_init_transfer copy_px download_opts () = (Ret True, Some (Transfer_destination (transfer_destination_ctor ''b'')), ())"
    "client_request download_opts (Transfer_destination (transfer_destination_ctor ''b'')) = Ret download_request"
    "request_ok download_request" "response_ok (response 0 [] (Some demo_info))"
    "send_client_request LittleEndian download_opts (Transfer_destination (transfer_destination_ctor ''b'')) (wire_sock []) = (Ret True, c1)"
    "recv_transfer_request BigEndian (wire_sock (outbox c1)) = (Ret (Some (request_view download_request)), wire_sock [])"
    "handle_request demo_env download_px 2 (request_view download_request) ()
      = (Ret (response 0 [] (Some demo_info)), Some (Transfer_source demo_source), ())"
    "send_transfer_response BigEndian (response 0 [] (Some demo_info)) (wire_sock []) = (Ret True, s2)"
    "recv_transfer_response LittleEndian copy_px download_opts 2 (Transfer_destination (transfer_destination_ctor ''b''), ())
        (wire_sock (outbox s2)) = (Ret True, (Transfer_destination demo_destination, ()), wire_sock [])"
    "opens_valid download_px" "errno_nonzero download_px"
proof -
  let ?dst = "Transfer_destination (transfer_destination_ctor ''b'')" and ?resp = "response 0 [] (Some demo_info)"
  have req: "client_request download_opts ?dst = Ret download_request"
    by (simp add: client_request_def download_opts_def download_request_def)
  with download_negotiated have n: "client_init_transfer copy_px download_opts () = (Ret True, Some ?dst, ())"
    "handle_request demo_env download_px 2 (request_view download_request) () = (Ret ?resp, Some (Transfer_source demo_source), ())"
    "client_response copy_px download_opts 2 ?resp (?dst, ()) = (Ret True, (Transfer_destination demo_destination, ()))"
    by auto
  obtain c1 where c1: "message_send CLIENT_TRANSFER_REQUEST save_request LittleEndian download_request (wire_sock []) = (Ret True, c1)"
    using download_request_sent by blast
  then have send: "send_client_request LittleEndian download_opts ?dst (wire_sock []) = (Ret True, c1)"
    using req by (simp add: send_client_request_def)
  have ok: "request_ok download_request" "response_ok ?resp"
    by (simp_all add: request_ok_def download_request_def user_name_ok_def empty_user_name_def response_ok_def response_def
        transfer_info_ok_def demo_info_def file_info_ok_def)
  have recv: "recv_transfer_request BigEndian (wire_sock (outbox c1)) = (Ret (Some (request_view download_request)), wire_sock [])"
    using request_travels [OF req ok(1) send wire_arrives, of BigEndian] by (simp add: wire_sock_def)
  obtain s2 where s2: "message_send SERVER_TRANSFER_RESPONSE save_response BigEndian ?resp (wire_sock []) = (Ret True, s2)"
    using download_response_sent by blast
  then have answer: "send_transfer_response BigEndian ?resp (wire_sock []) = (Ret True, s2)"
    by (simp add: send_transfer_response_def response_def)
  have heard: "recv_transfer_response LittleEndian copy_px download_opts 2 (?dst, ()) (wire_sock (outbox s2))
      = (Ret True, (Transfer_destination demo_destination, ()), wire_sock [])"
    using response_travels [OF ok(2) s2 wire_arrives, of LittleEndian copy_px download_opts 2 "(?dst, ())"] n(3) by (simp add: wire_sock_def)
  have px: "opens_valid download_px" "errno_nonzero download_px"
    using copy_px_valid copy_px_errno by (simp_all add: download_px_def opens_valid_def errno_nonzero_def)
  show thesis by (rule that [OF n(1) req ok send recv n(2) answer heard px])
qed

lemma download_channels: "2 = unat (if from_server_to_client download_opts then 2 else 2 :: u64)"
  by simp

lemma download_ends:
  "transfer_ends (Transfer_destination demo_destination) (Transfer_source demo_source) = Some (demo_source, demo_destination)"
  "src_info demo_source = Some demo_info"
  by (simp_all add: demo_source_def)

theorem copy_over_wire_witness:
  "demo_contents (src_handle (send_ctx demo_source ! 0)) = Some (dst_pages (recv_ctx (xf_dst demo_final) ! 0))"
proof (rule download_dialogue, goal_cases)
  case d: (1 c1 s2)
  from copy_over_wire [OF d(1-5) wire_arrives d(6-8) wire_arrives d(9) copy_px_valid d(10,11) download_channels, unfolded download_ends(1)]
    download_ends(2)
  show ?case by (intro download_copied) auto
qed

end
