(* ===== verification/Semaphore.thy ===== *)
theory Semaphore
  imports Xcp_Prelude
begin

text \<open>
  \<open>infra/semaphore.h\<close>, on Linux and on Windows. The calls of the two systems are parameters over an
  abstract state \<open>'w\<close>; the specification is a counter.
\<close>

section \<open>The calls of the systems\<close>

text \<open>
  On Linux a call gives 0 or its \<open>errno\<close>; a \<open>sem_wait\<close> that has to wait gives \<open>None\<close>. On Windows
  \<open>CreateSemaphoreA\<close> and \<open>ReleaseSemaphore\<close> give \<open>None\<close> or the error of a failure.
\<close>

record 'w linux_sem =
  ls_init :: "u32 \<Rightarrow> 'w \<Rightarrow> int \<times> 'w"
  ls_wait :: "'w \<Rightarrow> (int \<times> 'w) option"
  ls_trywait :: "'w \<Rightarrow> int \<times> 'w"
  ls_post :: "'w \<Rightarrow> int \<times> 'w"
  ls_destroy :: "'w \<Rightarrow> int \<times> 'w"

datatype wait_result = Wait_object_0 | Wait_timeout | Wait_failed

record 'w windows_sem =
  ws_create :: "u32 \<Rightarrow> 'w \<Rightarrow> int option \<times> 'w"
  ws_wait :: "bool \<Rightarrow> 'w \<Rightarrow> (wait_result \<times> 'w) option" \<comment> \<open>with or without a timeout of 0\<close>
  ws_release :: "'w \<Rightarrow> int option \<times> 'w"
  ws_close :: "'w \<Rightarrow> bool \<times> 'w"
  ws_last_error :: "'w \<Rightarrow> int"

definition EAGAIN :: int where
  "EAGAIN = 11"

definition EOVERFLOW :: int where
  "EOVERFLOW = 75"

definition LONG_MAX :: u32 where
  "LONG_MAX = 0x7FFFFFFF"

section \<open>The class on Linux\<close>

definition semaphore_linux :: "'w linux_sem \<Rightarrow> u32 \<Rightarrow> 'w \<Rightarrow> unit outcome \<times> 'w" where
  "semaphore_linux api init_value w = (case ls_init api init_value w of
       (err, w') \<Rightarrow> (if err \<noteq> 0 then Throw (System_error err) else Ret (), w'))"

text \<open>\<open>None\<close> while the thread waits.\<close>

definition internal_wait_linux :: "'w linux_sem \<Rightarrow> bool \<Rightarrow> 'w \<Rightarrow> (bool outcome \<times> 'w) option" where
  "internal_wait_linux api is_nonblock w =
     (case (if is_nonblock then Some (ls_trywait api w) else ls_wait api w) of
        None \<Rightarrow> None
      | Some (err, w') \<Rightarrow> Some (if err = 0 then Ret True else if err = EAGAIN then Ret False else Throw (System_error err), w'))"

definition post_linux :: "'w linux_sem \<Rightarrow> 'w \<Rightarrow> unit outcome \<times> 'w" where
  "post_linux api w = (case ls_post api w of (err, w') \<Rightarrow> (if err \<noteq> 0 then Throw (System_error err) else Ret (), w'))"

section \<open>The class on Windows\<close>

definition semaphore_windows :: "'w windows_sem \<Rightarrow> u32 \<Rightarrow> 'w \<Rightarrow> unit outcome \<times> 'w" where
  "semaphore_windows api init_value w =
     (if init_value > LONG_MAX then (Throw Invalid_argument, w)
      else case ws_create api init_value w of
          (Some gle, w') \<Rightarrow> (Throw (System_error gle), w')
        | (None, w') \<Rightarrow> (Ret (), w'))"

definition internal_wait_windows :: "'w windows_sem \<Rightarrow> bool \<Rightarrow> 'w \<Rightarrow> (bool outcome \<times> 'w) option" where
  "internal_wait_windows api is_nonblock w = (case ws_wait api is_nonblock w of
       None \<Rightarrow> None
     | Some (ret, w') \<Rightarrow> Some (case ret of
           Wait_object_0 \<Rightarrow> Ret True
         | Wait_timeout \<Rightarrow> if is_nonblock then Ret False else Throw (System_error (ws_last_error api w'))
         | Wait_failed \<Rightarrow> Throw (System_error (ws_last_error api w')), w'))"

definition post_windows :: "'w windows_sem \<Rightarrow> 'w \<Rightarrow> unit outcome \<times> 'w" where
  "post_windows api w = (case ws_release api w of
       (Some gle, w') \<Rightarrow> (Throw (System_error gle), w')
     | (None, w') \<Rightarrow> (Ret (), w'))"

section \<open>Both platforms\<close>

text \<open>The destructors ignore what the system says; that of Windows does nothing without a handle.\<close>

definition destroy_linux :: "'w linux_sem \<Rightarrow> 'w \<Rightarrow> 'w" where
  "destroy_linux api w = snd (ls_destroy api w)"

definition destroy_windows :: "'w windows_sem \<Rightarrow> int option \<Rightarrow> 'w \<Rightarrow> int option \<times> 'w" where
  "destroy_windows api sem_handle w = (case sem_handle of
       None \<Rightarrow> (None, w)
     | Some _ \<Rightarrow> (None, snd (ws_close api w)))"

text \<open>\<open>wait\<close> drops the result of the internal wait.\<close>

definition sem_wait :: "(bool \<Rightarrow> 'w \<Rightarrow> (bool outcome \<times> 'w) option) \<Rightarrow> 'w \<Rightarrow> (unit outcome \<times> 'w) option" where
  "sem_wait internal_wait w = (case internal_wait False w of
       None \<Rightarrow> None
     | Some (Ret _, w') \<Rightarrow> Some (Ret (), w')
     | Some (Throw e, w') \<Rightarrow> Some (Throw e, w')
     | Some (Abort, w') \<Rightarrow> Some (Abort, w')
     | Some (Undefined, w') \<Rightarrow> Some (Undefined, w'))"

definition sem_try_wait :: "(bool \<Rightarrow> 'w \<Rightarrow> (bool outcome \<times> 'w) option) \<Rightarrow> 'w \<Rightarrow> (bool outcome \<times> 'w) option" where
  "sem_try_wait internal_wait w = internal_wait True w"

section \<open>The contract of a semaphore\<close>

text \<open>
  \<open>count\<close> reads the counter and \<open>limit\<close> is its greatest value. A failed \<open>post\<close> leaves the counter.
\<close>

locale counting_semaphore =
  fixes post :: "'w \<Rightarrow> unit outcome \<times> 'w" and wait :: "'w \<Rightarrow> (unit outcome \<times> 'w) option"
    and try_wait :: "'w \<Rightarrow> (bool outcome \<times> 'w) option" and count :: "'w \<Rightarrow> nat" and limit :: nat
  assumes post_counts: "count w < limit \<Longrightarrow> \<exists>w'. post w = (Ret (), w') \<and> count w' = count w + 1"
    and wait_counts: "if count w = 0 then wait w = None else \<exists>w'. wait w = Some (Ret (), w') \<and> count w' = count w - 1"
    and try_counts: "\<exists>w'. try_wait w = Some (Ret (count w > 0), w') \<and> count w' = count w - 1"
begin

fun posts :: "nat \<Rightarrow> 'w \<Rightarrow> unit outcome \<times> 'w" where
  "posts 0 w = (Ret (), w)"
| "posts (Suc k) w = seq_st post (\<lambda>_. posts k) w"

fun tries :: "nat \<Rightarrow> 'w \<Rightarrow> bool outcome list" where
  "tries 0 w = []"
| "tries (Suc k) w = (case try_wait w of None \<Rightarrow> [] | Some (r, w') \<Rightarrow> r # tries k w')"

lemma posts_count: "count w + k \<le> limit \<Longrightarrow> \<exists>w'. posts k w = (Ret (), w') \<and> count w' = count w + k"
proof (induction k arbitrary: w)
  case (Suc k)
  from Suc.prems have "count w < limit" by simp
  from post_counts [OF this] obtain w1 where w1: "post w = (Ret (), w1)" "count w1 = count w + 1" by blast
  with Suc.IH [of w1] Suc.prems show ?case by simp
qed simp

lemma tries_succeed: "tries k w = replicate (min k (count w)) (Ret True) @ replicate (k - count w) (Ret False)"
proof (induction k arbitrary: w)
  case (Suc k)
  from try_counts [of w] obtain w' where w': "try_wait w = Some (Ret (count w > 0), w')" "count w' = count w - 1" by blast
  with Suc.IH [of w'] show ?case by (cases "count w") auto
qed simp

text \<open>After \<open>k\<close> posts on an empty semaphore exactly \<open>k\<close> of any number of tries succeed, the first ones.\<close>

lemma posts_then_tries:
  assumes "count w = 0" and "k \<le> limit"
  shows "\<exists>w'. posts k w = (Ret (), w') \<and> tries n w' = replicate (min n k) (Ret True) @ replicate (n - k) (Ret False)"
  using posts_count [of w k] assms tries_succeed by auto

end
section \<open>Both classes keep it\<close>

text \<open>The documented calls: a counter with the greatest value of either system.\<close>

definition SEM_VALUE_MAX :: nat where
  "SEM_VALUE_MAX = 2147483647"

definition posix_counter :: "nat linux_sem" where
  "posix_counter = \<lparr>ls_init = (\<lambda>n w. if unat n \<le> SEM_VALUE_MAX then (0, unat n) else (22, w)),
     ls_wait = (\<lambda>w. if w = 0 then None else Some (0, w - 1)),
     ls_trywait = (\<lambda>w. if w = 0 then (EAGAIN, w) else (0, w - 1)),
     ls_post = (\<lambda>w. if w < SEM_VALUE_MAX then (0, w + 1) else (EOVERFLOW, w)),
     ls_destroy = (\<lambda>w. (0, w))\<rparr>"

definition windows_counter :: "nat windows_sem" where
  "windows_counter = \<lparr>ws_create = (\<lambda>n w. (None, unat n)),
     ws_wait = (\<lambda>nonblock w. if w > 0 then Some (Wait_object_0, w - 1) else if nonblock then Some (Wait_timeout, w) else None),
     ws_release = (\<lambda>w. if w < unat LONG_MAX then (None, w + 1) else (Some 298, w)),
     ws_close = (\<lambda>w. (True, w)), ws_last_error = (\<lambda>w. 0)\<rparr>"

interpretation linux_semaphore: counting_semaphore "post_linux posix_counter" "sem_wait (internal_wait_linux posix_counter)"
  "sem_try_wait (internal_wait_linux posix_counter)" "\<lambda>w. w" SEM_VALUE_MAX
  by unfold_locales
    (auto simp: post_linux_def sem_wait_def sem_try_wait_def internal_wait_linux_def posix_counter_def EAGAIN_def)

interpretation windows_semaphore: counting_semaphore "post_windows windows_counter" "sem_wait (internal_wait_windows windows_counter)"
  "sem_try_wait (internal_wait_windows windows_counter)" "\<lambda>w. w" "unat LONG_MAX"
  by unfold_locales
    (auto simp: post_windows_def sem_wait_def sem_try_wait_def internal_wait_windows_def windows_counter_def)

text \<open>
  The two classes are the same semaphore: both accept exactly the initial values up to 2147483647, and
  after any posts the same tries succeed.
\<close>

theorem semaphores_agree:
  assumes "k \<le> 2147483647"
  shows "(fst (semaphore_linux posix_counter n w) = Ret ()) = (fst (semaphore_windows windows_counter n w) = Ret ())"
    and "\<exists>v u. linux_semaphore.posts k 0 = (Ret (), v) \<and> windows_semaphore.posts k 0 = (Ret (), u)
      \<and> linux_semaphore.tries m v = windows_semaphore.tries m u
      \<and> linux_semaphore.tries m v = replicate (min m k) (Ret True) @ replicate (m - k) (Ret False)"
proof -
  have max: "unat LONG_MAX = 2147483647" by (simp add: LONG_MAX_def)
  have "n \<le> LONG_MAX \<longleftrightarrow> unat n \<le> 2147483647" unfolding word_le_nat_alt max ..
  then show "(fst (semaphore_linux posix_counter n w) = Ret ()) = (fst (semaphore_windows windows_counter n w) = Ret ())"
    by (auto simp: semaphore_linux_def semaphore_windows_def posix_counter_def windows_counter_def SEM_VALUE_MAX_def not_less)
  show "\<exists>v u. linux_semaphore.posts k 0 = (Ret (), v) \<and> windows_semaphore.posts k 0 = (Ret (), u)
      \<and> linux_semaphore.tries m v = windows_semaphore.tries m u
      \<and> linux_semaphore.tries m v = replicate (min m k) (Ret True) @ replicate (m - k) (Ret False)"
    using linux_semaphore.posts_then_tries [of 0 k m] windows_semaphore.posts_then_tries [of 0 k m] assms max
    by (auto simp: SEM_VALUE_MAX_def)
qed

text \<open>
  A wait that is interrupted by a signal, or whose call fails in any other way but \<open>EAGAIN\<close>, throws the
  system's error and has not taken the semaphore.
\<close>

lemma wait_throws:
  assumes "ls_wait api w = Some (err, w')" and "err \<noteq> 0" "err \<noteq> EAGAIN"
  shows "sem_wait (internal_wait_linux api) w = Some (Throw (System_error err), w')"
  using assms by (simp add: sem_wait_def internal_wait_linux_def)

end
