(* ===== verification/Windows_User.thy ===== *)
theory Windows_User
  imports User
begin

text \<open>
  The Windows branches of \<open>infra/user.cpp\<close>: security identifiers, the home directory of a profile in
  the registry, and the names of the current user. The accounts and the registry are parameters.
\<close>

section \<open>The system\<close>

datatype reg_type = Reg_sz | Reg_expand_sz | Reg_other

datatype name_format = Name_sam_compatible | Name_user_principal

text \<open>
  \<open>reg_query_profile_image\<close> gives the status, and else the type of the value and the bytes it wrote, the
  terminating zero included; \<open>expand_environment\<close> what it wrote up to the terminating zero.
\<close>

record win_accounts =
  lookup_account :: "string \<Rightarrow> byte list option"
  sid_to_string :: "byte list \<Rightarrow> string option"
  reg_open_profile :: "string \<Rightarrow> bool"
  reg_query_profile_image :: "string \<Rightarrow> u32 + reg_type \<times> string"
  expand_environment :: "string \<Rightarrow> string option"
  win_user_name :: "string option"
  win_user_name_ex :: "name_format \<Rightarrow> string option"

section \<open>Security identifiers\<close>

definition try_get_windows_user_sid :: "win_accounts \<Rightarrow> string \<Rightarrow> bool \<times> string" where
  "try_get_windows_user_sid env name = (case lookup_account env name of
       None \<Rightarrow> (False, [])
     | Some sid \<Rightarrow> (case sid_to_string env sid of
           None \<Rightarrow> (False, [])
         | Some str_sid \<Rightarrow> (True, str_sid)))"

section \<open>Home directories\<close>

definition BUF_SIZE :: nat where
  "BUF_SIZE = 2048"

definition NUL :: char where
  "NUL = CHR 0x00"

text \<open>\<open>std::string::resize\<close>, and the string that a C function sees.\<close>

definition resize_string :: "nat \<Rightarrow> string \<Rightarrow> string" where
  "resize_string n s = take n s @ replicate (n - length s) NUL"

definition c_string :: "string \<Rightarrow> string" where
  "c_string s = takeWhile (\<lambda>c. c \<noteq> NUL) s"

text \<open>
  The value is written over the buffer; a value that does not fit has a status of failure. The length
  without the terminating zero is computed on a \<open>DWORD\<close>, and the sweeper clears the string of a failure.
\<close>

definition image_buffer :: "string \<Rightarrow> string" where
  "image_buffer data = data @ replicate (BUF_SIZE - length data) NUL"

definition image_length :: "string \<Rightarrow> nat" where
  "image_length data = unat ((word_of_nat (length data) :: u32) - 1)"

definition try_get_home_by_sid :: "win_accounts \<Rightarrow> string \<Rightarrow> bool \<times> string" where
  "try_get_home_by_sid env sid =
     (if \<not> reg_open_profile env sid then (False, [])
      else case reg_query_profile_image env sid of
          Inl status \<Rightarrow> (False, [])
        | Inr (ty, data) \<Rightarrow>
            let home = resize_string (image_length data) (image_buffer data) in
            (case ty of
               Reg_expand_sz \<Rightarrow> (case expand_environment env (c_string home) of
                   None \<Rightarrow> (False, [])
                 | Some expanded \<Rightarrow> (True, c_string expanded))
             | Reg_sz \<Rightarrow> (True, home)
             | Reg_other \<Rightarrow> (False, [])))"

definition home_by_sid :: "win_accounts \<Rightarrow> string \<Rightarrow> string option" where
  "home_by_sid env sid = (case try_get_home_by_sid env sid of (True, home) \<Rightarrow> Some home | (False, _) \<Rightarrow> None)"

definition home_by_name :: "win_accounts \<Rightarrow> string \<Rightarrow> string option" where
  "home_by_name env name = (case try_get_windows_user_sid env name of
       (True, sid) \<Rightarrow> home_by_sid env sid
     | (False, _) \<Rightarrow> None)"

definition get_user_home_path_windows :: "win_accounts \<Rightarrow> user_name_t \<Rightarrow> string" where
  "get_user_home_path_windows env name =
     (let by_name = (\<lambda>n. if n \<noteq> [] then home_by_name env n else None)
      in case (if user_sid name \<noteq> [] then home_by_sid env (user_sid name) else None) of Some home \<Rightarrow> home
       | None \<Rightarrow> (case by_name (domain_user_name name) of Some home \<Rightarrow> home
       | None \<Rightarrow> (case by_name (user_principal_name name) of Some home \<Rightarrow> home
       | None \<Rightarrow> (case by_name (user_name name) of Some home \<Rightarrow> home
       | None \<Rightarrow> []))))"

section \<open>The current user\<close>

definition get_user_name_windows :: "win_accounts \<Rightarrow> user_name_t \<Rightarrow> bool \<times> user_name_t" where
  "get_user_name_windows env name = (case win_user_name env of
       None \<Rightarrow> (False, name)
     | Some buffer \<Rightarrow>
         let domain = (case win_user_name_ex env Name_sam_compatible of None \<Rightarrow> [] | Some b \<Rightarrow> b);
             upn = (case win_user_name_ex env Name_user_principal of None \<Rightarrow> [] | Some b \<Rightarrow> b)
         in (True, name\<lparr>user_name := buffer, domain_user_name := domain, user_principal_name := upn,
              user_sid := snd (try_get_windows_user_sid env domain)\<rparr>))"

section \<open>What they find\<close>

lemma c_string_simps [simp]: "c_string [] = []" "c_string (c # s) = (if c = NUL then [] else c # c_string s)"
  by (simp_all add: c_string_def)

lemma image_whole:
  assumes "length dir < BUF_SIZE"
  shows "resize_string (image_length (dir @ [NUL])) (image_buffer (dir @ [NUL])) = dir"
proof -
  have "image_length (dir @ [NUL]) = length dir"
    using assms by (simp add: image_length_def BUF_SIZE_def unat_of_nat)
  then show ?thesis using assms by (simp add: resize_string_def image_buffer_def BUF_SIZE_def)
qed

text \<open>The SIDs that are tried, in order: that of the request first, then those of its names.\<close>

definition sid_candidates :: "win_accounts \<Rightarrow> user_name_t \<Rightarrow> string list" where
  "sid_candidates env u = (if user_sid u \<noteq> [] then [user_sid u] else [])
     @ map (\<lambda>n. snd (try_get_windows_user_sid env n))
         (filter (\<lambda>n. n \<noteq> [] \<and> fst (try_get_windows_user_sid env n)) [domain_user_name u, user_principal_name u, user_name u])"

lemma home_by_name_sid:
  "home_by_name env n = (if fst (try_get_windows_user_sid env n) then home_by_sid env (snd (try_get_windows_user_sid env n)) else None)"
  by (simp add: home_by_name_def split: prod.splits bool.splits)

text \<open>
  On Windows the home directory is the profile of the first SID that has one, and a profile whose value
  is an ordinary string gives that string.
\<close>

theorem get_user_home_path_windows_first:
  "get_user_home_path_windows env u = (case first_some (home_by_sid env) (sid_candidates env u) of Some d \<Rightarrow> d | None \<Rightarrow> [])"
  by (simp add: get_user_home_path_windows_def sid_candidates_def home_by_name_sid Let_def split: option.split)

lemma profile_string:
  assumes "reg_open_profile env sid" and "reg_query_profile_image env sid = Inr (Reg_sz, dir @ [NUL])" and "length dir < BUF_SIZE"
  shows "home_by_sid env sid = Some dir"
  using assms image_whole [OF assms(3)] by (simp add: home_by_sid_def try_get_home_by_sid_def Let_def)

text \<open>A registry value without any byte, not even a terminating zero, becomes a string of 4 GB.\<close>

lemma empty_image_underflows:
  assumes "reg_open_profile env sid" and "reg_query_profile_image env sid = Inr (Reg_sz, [])"
  shows "\<exists>home. try_get_home_by_sid env sid = (True, home) \<and> length home = 4294967295"
proof -
  have "image_length [] = 4294967295" by (simp add: image_length_def unsigned_minus_1_eq_mask mask_eq_exp_minus_1)
  with assms show ?thesis
    by (simp add: try_get_home_by_sid_def resize_string_def image_buffer_def BUF_SIZE_def Let_def)
qed

end
