(* ===== verification/Windows_IO.thy ===== *)
theory Windows_IO
  imports Transfer_Open Sock_Setup
begin

text \<open>
  The Windows branches of the data path of a socket (\<open>infra/network.cpp\<close>) and of opening the files of a
  transfer (\<open>transfer.cpp\<close>). The calls of the system are parameters over an abstract state \<open>'w\<close>; a
  failure gives the error of \<open>GetLastError\<close> or \<open>WSAGetLastError\<close>.
\<close>

section \<open>Sockets\<close>

definition WSA_IO_PENDING :: u32 where
  "WSA_IO_PENDING = 997"

text \<open>
  \<open>wn_send\<close> and \<open>wn_transmit\<close> (with the low and the high word of the offset and the header) give
  \<open>None\<close> for success; \<open>wn_overlapped\<close> waits for a pending operation and gives what it has written.
\<close>

record 'w win_net =
  wn_send :: "byte list list \<Rightarrow> 'w \<Rightarrow> u32 option \<times> 'w"
  wn_transmit :: "int \<Rightarrow> u32 \<Rightarrow> u32 \<Rightarrow> u32 \<Rightarrow> byte list option \<Rightarrow> 'w \<Rightarrow> u32 option \<times> 'w"
  wn_overlapped :: "'w \<Rightarrow> u32 option \<times> 'w"

definition internal_sendv_windows :: "'w win_net \<Rightarrow> byte list list \<Rightarrow> u64 \<Rightarrow> 'w \<Rightarrow> bool \<times> 'w" where
  "internal_sendv_windows api vec expected_written w = (case wn_send api vec w of
       (None, w1) \<Rightarrow> (True, w1)
     | (Some wsagle, w1) \<Rightarrow>
         if wsagle = WSA_IO_PENDING then
           (case wn_overlapped api w1 of
              (None, w2) \<Rightarrow> (False, w2)
            | (Some sent, w2) \<Rightarrow> (ucast sent = expected_written, w2))
         else (False, w1))"

text \<open>A length that does not fit a \<open>ULONG\<close> is an \<open>ASSERT\<close>.\<close>

definition socket_sendv_windows :: "'w win_net \<Rightarrow> byte list list \<Rightarrow> 'w \<Rightarrow> bool outcome \<times> 'w" where
  "socket_sendv_windows api vec w =
     (if \<exists>v \<in> set vec. length v \<ge> 2 ^ 32 then (Abort, w)
      else case internal_sendv_windows api vec (word_of_nat (sum_list (map length vec))) w of (ok, w') \<Rightarrow> (Ret ok, w'))"

definition offset_low :: "u64 \<Rightarrow> u32" where
  "offset_low offset = ucast (offset AND 0xFFFFFFFF)"

definition offset_high :: "u64 \<Rightarrow> u32" where
  "offset_high offset = ucast (drop_bit 32 offset)"

text \<open>When the operation is pending the length of the header is read, whether there is one or not.\<close>

definition send_file_windows ::
    "'w win_net \<Rightarrow> int \<Rightarrow> u64 \<Rightarrow> u32 \<Rightarrow> byte list option \<Rightarrow> 'w \<Rightarrow> bool outcome \<times> 'w" where
  "send_file_windows api file_handle offset nbytes header w =
     (case wn_transmit api file_handle nbytes (offset_low offset) (offset_high offset) header w of
        (None, w1) \<Rightarrow> (Ret True, w1)
      | (Some wsagle, w1) \<Rightarrow>
          if wsagle = WSA_IO_PENDING then
            (case wn_overlapped api w1 of
               (None, w2) \<Rightarrow> (Ret False, w2)
             | (Some written, w2) \<Rightarrow> (case header of
                 None \<Rightarrow> (Undefined, w2)
               | Some h \<Rightarrow> (Ret (written = nbytes + word_of_nat (length h)), w2)))
          else (Ret False, w1))"

lemma offset_joined: "push_bit 32 (ucast (offset_high off)) OR ucast (offset_low off) = (off :: u64)"
proof -
  have m: "(0xFFFFFFFF :: u64) = mask 32"
    by (simp add: mask_eq_exp_minus_1)
  show ?thesis
    unfolding offset_high_def offset_low_def m by (rule bit_word_eqI) (auto simp: bit_simps)
qed

text \<open>Without TCP fast open: a connection like any other, and then the header.\<close>

definition connect_and_send_windows ::
    "'w win_net \<Rightarrow> 'w sock_api \<Rightarrow> tcp_sockaddr \<Rightarrow> byte list \<Rightarrow> 'w addr_st \<Rightarrow> bool outcome \<times> 'w addr_st" where
  "connect_and_send_windows net api addr bs = seq_st (socket_connect api addr)
     (\<lambda>ok st. if ok then (case socket_sendv_windows net [bs] (snd (snd st)) of
                 (r, w) \<Rightarrow> (r, (fst st, (fst (snd st), w)))) else (Ret False, st))"

lemma connect_and_send_windows_sent:
  "connect_and_send_windows net api addr bs st = (Ret True, st') \<Longrightarrow>
   \<exists>st1. socket_connect api addr st = (Ret True, st1) \<and>
         socket_sendv_windows net [bs] (snd (snd st1)) = (Ret True, snd (snd st'))"
  by (auto simp: connect_and_send_windows_def seq_st_Ret_iff split: if_splits prod.splits)

section \<open>Files\<close>

record 'w win_files =
  wf_create_read :: "string \<Rightarrow> 'w \<Rightarrow> (u32 + int) \<times> 'w"
  wf_file_size :: "int \<Rightarrow> 'w \<Rightarrow> u32 + u64"
  wf_open_always :: "string \<Rightarrow> 'w \<Rightarrow> (u32 + int) \<times> 'w"
  wf_set_pointer :: "int \<Rightarrow> u64 \<Rightarrow> 'w \<Rightarrow> u32 option \<times> 'w"
  wf_set_end :: "int \<Rightarrow> 'w \<Rightarrow> u32 option \<times> 'w"
  wf_create_mapping :: "int \<Rightarrow> 'w \<Rightarrow> (u32 + int) \<times> 'w"
  wf_map_view :: "int \<Rightarrow> 'w \<Rightarrow> (u32 + byte list) \<times> 'w"
  wf_close :: "int \<Rightarrow> 'w \<Rightarrow> 'w"
  wf_last_error :: "u32 \<Rightarrow> string" \<comment> \<open>\<open>str_getlasterror\<close>\<close>

definition EIO :: c_int where
  "EIO = 5"

definition win_message :: "'w win_files \<Rightarrow> string \<Rightarrow> u32 \<Rightarrow> string" where
  "win_message fapi what gle = what @ '' failed. GetLastError = '' @ string_of_nat (unat gle) @ '' ('' @ wf_last_error fapi gle @ '')''"

definition win_error :: "'w win_files \<Rightarrow> string \<Rightarrow> u32 \<Rightarrow> cpp_exception" where
  "win_error fapi what gle = Transfer_error EIO (win_message fapi what gle)"

definition source_open_regular_file_windows ::
    "'w win_files \<Rightarrow> string \<Rightarrow> 'w source_st \<Rightarrow> (send_file_context \<times> basic_file_info) outcome \<times> 'w source_st" where
  "source_open_regular_file_windows fapi path s = (case s of (src, w) \<Rightarrow>
     (case wf_create_read fapi path w of
        (Inl gle, w1) \<Rightarrow> (Throw (win_error fapi (''CreateFileW() '' @ path @ '' for read'') gle), (src, w1))
      | (Inr h, w1) \<Rightarrow> (case wf_file_size fapi h w1 of
          Inl gle \<Rightarrow> (Throw (win_error fapi (''GetFileSizeEx() '' @ path) gle), (src, w1))
        | Inr quad_part \<Rightarrow>
            (Ret (\<lparr>curr_offset = 0, src_handle = h\<rparr>,
                  \<lparr>file_path = path_filename path, file_size = quad_part, file_perm = 0\<rparr>),
             (src\<lparr>src_total_size := src_total_size src + quad_part\<rparr>, w1)))))"

text \<open>The file is given its size, whatever it had before, and keeps the bytes it had.\<close>

definition set_file_size_windows :: "'w win_files \<Rightarrow> string \<Rightarrow> basic_file_info \<Rightarrow> int \<Rightarrow> 'w \<Rightarrow> unit outcome \<times> 'w" where
  "set_file_size_windows fapi path fi h w =
     (let n = string_of_nat (unat (file_size fi)) in
      case wf_set_pointer fapi h (file_size fi) w of
        (Some gle, w1) \<Rightarrow> (Throw (win_error fapi (''SetFilePointerEx() '' @ path @ '' to '' @ n) gle), w1)
      | (None, w1) \<Rightarrow> (case wf_set_end fapi h w1 of
          (Some gle, w2) \<Rightarrow> (Throw (win_error fapi (''SetEndOfFile() '' @ path @ '' at '' @ n) gle), w2)
        | (None, w2) \<Rightarrow> (case wf_set_pointer fapi h 0 w2 of
            (Some gle, w3) \<Rightarrow> (Throw (win_error fapi (''SetFilePointerEx() '' @ path @ '' to 0'') gle), w3)
          | (None, w3) \<Rightarrow> (Ret (), w3))))"

text \<open>The bytes that the mapping shows; the sweeper closes the handle of the mapping in every case.\<close>

definition map_file_windows :: "'w win_files \<Rightarrow> string \<Rightarrow> basic_file_info \<Rightarrow> int \<Rightarrow> 'w \<Rightarrow> byte list option outcome \<times> 'w" where
  "map_file_windows fapi path fi h w =
     (if file_size fi > 0 then
        if file_size fi > -1 then
          (Throw (Transfer_error ENOSYS (''File size is too large for this platform: ''
             @ string_of_nat (unat (file_size fi)))), w)
        else (let what = path @ '' (size: '' @ string_of_nat (unat (file_size fi)) @ '')'' in
          case wf_create_mapping fapi h w of
            (Inl gle, w1) \<Rightarrow> (Throw (win_error fapi (''CreateFileMappingW() '' @ what) gle), w1)
          | (Inr hmap, w1) \<Rightarrow> sweep_scope (wf_close fapi hmap)
              (\<lambda>w. case wf_map_view fapi hmap w of
                 (Inl gle, w2) \<Rightarrow> (Throw (win_error fapi (''MapViewOfFile() '' @ what) gle), w2)
               | (Inr bytes, w2) \<Rightarrow> (Ret (Some bytes, False), w2)) w1)
      else (Ret None, w))"

definition dest_open_regular_file_windows ::
    "'w win_files \<Rightarrow> string \<Rightarrow> basic_file_info \<Rightarrow> 'w dest_st \<Rightarrow> recv_file_context outcome \<times> 'w dest_st" where
  "dest_open_regular_file_windows fapi path fi s = (case s of (dst, w) \<Rightarrow>
     (case wf_open_always fapi path w of
        (Inl gle, w1) \<Rightarrow> (Throw (win_error fapi (''CreateFileW() '' @ path @ '' for read'') gle), (dst, w1))
      | (Inr h, w1) \<Rightarrow> (case set_file_size_windows fapi path fi h w1 of
          (Ret _, w2) \<Rightarrow> (case map_file_windows fapi path fi h w2 of
              (Ret view, w3) \<Rightarrow>
                (Ret \<lparr>received_size = 0, mapped_length = file_size fi, dst_file_mapped = (view \<noteq> None), dst_handle = h,
                      dst_pages = (case view of None \<Rightarrow> [] | Some bytes \<Rightarrow> bytes)\<rparr>,
                 (dst\<lparr>dst_total_size := dst_total_size dst + file_size fi\<rparr>, w3))
            | (Throw e, w3) \<Rightarrow> (Throw e, (dst, w3))
            | (Abort, w3) \<Rightarrow> (Abort, (dst, w3))
            | (Undefined, w3) \<Rightarrow> (Undefined, (dst, w3)))
        | (Throw e, w2) \<Rightarrow> (Throw e, (dst, w2))
        | (Abort, w2) \<Rightarrow> (Abort, (dst, w2))
        | (Undefined, w2) \<Rightarrow> (Undefined, (dst, w2)))))"

section \<open>Properties\<close>

text \<open>A block with its header is sent only when the system reports all of it, or reports success at once.\<close>

lemma send_file_windows_sent:
  "send_file_windows api h off n (Some hdr) w = (Ret True, w') \<longleftrightarrow>
     wn_transmit api h n (offset_low off) (offset_high off) (Some hdr) w = (None, w') \<or>
     (\<exists>w1. wn_transmit api h n (offset_low off) (offset_high off) (Some hdr) w = (Some WSA_IO_PENDING, w1) \<and>
           wn_overlapped api w1 = (Some (n + word_of_nat (length hdr)), w'))"
  by (auto simp: send_file_windows_def split: prod.splits option.splits if_splits)

lemma send_file_windows_no_header:
  "wn_transmit api h n (offset_low off) (offset_high off) None w = (Some WSA_IO_PENDING, w1) \<Longrightarrow>
   wn_overlapped api w1 = (Some k, w2) \<Longrightarrow> send_file_windows api h off n None w = (Undefined, w2)"
  by (simp add: send_file_windows_def)

lemma source_open_windows_no_perm:
  "source_open_regular_file_windows fapi path (src, w) = (Ret (ctx, fi), (src', w')) \<Longrightarrow>
   file_perm fi = 0 \<and> file_path fi = path_filename path \<and> src_total_size src' = src_total_size src + file_size fi"
  by (auto simp: source_open_regular_file_windows_def split: prod.splits sum.splits)

lemma map_file_windows_closes:
  "wf_create_mapping fapi h w = (Inr hmap, w1) \<Longrightarrow> file_size fi > 0 \<Longrightarrow>
   \<exists>w2. snd (map_file_windows fapi path fi h w) = wf_close fapi hmap w2"
  by (auto simp: map_file_windows_def sweep_scope_def Let_def leD [OF word_n1_ge] split: prod.splits sum.splits)

lemma map_file_windows_view:
  "map_file_windows fapi path fi h w = (Ret view, w') \<Longrightarrow> (view \<noteq> None) = (file_size fi > 0)"
  by (auto simp: map_file_windows_def sweep_scope_def Let_def split: prod.splits sum.splits if_splits)

lemma dest_open_windows_ready:
  "dest_open_regular_file_windows fapi path fi (dst, w) = (Ret ctx, (dst', w')) \<Longrightarrow>
   dst_file_mapped ctx = (file_size fi > 0) \<and> received_size ctx = 0 \<and> mapped_length ctx = file_size fi \<and>
   dst_total_size dst' = dst_total_size dst + file_size fi"
  by (auto simp: dest_open_regular_file_windows_def dest: map_file_windows_view
      split: prod.splits sum.splits outcome.splits)

end
