(* ===== verification/Runtime.thy ===== *)
theory Runtime
  imports Transfer_Open Arguments Handshake
begin

text \<open>
  What the other components stand on: the global initialisation and finalisation of logging and of the
  network (\<open>infra/infra.h\<close>), the table of the messages of Windows errors (\<open>infra/logging.h\<close>), and how the
  contexts of the files of a transfer are moved into their vector (\<open>transfer.h\<close>, \<open>infra/macro.h\<close>).
\<close>

section \<open>Global initialisation\<close>

text \<open>
  \<open>g_logger\<close> is its level, \<open>None\<close> for the null pointer. What \<open>spdlog\<close> and \<open>WSAStartup\<close> answer are
  parameters; on Linux there is nothing to do for the network.
\<close>

record runtime =
  g_logger :: "log_level option"
  network_up :: bool

definition runtime_start :: runtime where
  "runtime_start = \<lparr>g_logger = None, network_up = False\<rparr>"

datatype platform = Windows | Linux

text \<open>\<open>made\<close> is the exception of \<open>stderr_color_mt\<close>, which is thrown on after it was printed.\<close>

definition global_initialize_logging :: "cpp_exception option \<Rightarrow> runtime \<Rightarrow> unit outcome \<times> runtime" where
  "global_initialize_logging made rt = (case made of
       Some ex \<Rightarrow> (Throw ex, rt)
     | None \<Rightarrow> (Ret (), rt\<lparr>g_logger := Some Level_info\<rparr>))"

definition global_finalize_logging :: "runtime \<Rightarrow> runtime" where
  "global_finalize_logging rt = (if g_logger rt \<noteq> None then rt\<lparr>g_logger := None\<rparr> else rt)"

definition global_initialize_network :: "platform \<Rightarrow> int \<Rightarrow> runtime \<Rightarrow> unit outcome \<times> runtime" where
  "global_initialize_network pf ret rt = (case pf of
       Windows \<Rightarrow> if ret \<noteq> 0 then (Throw (System_error ret), rt) else (Ret (), rt\<lparr>network_up := True\<rparr>)
     | Linux \<Rightarrow> (Ret (), rt))"

text \<open>\<open>cleaned\<close> is the error of a failed \<open>WSACleanup\<close>.\<close>

definition global_finalize_network :: "platform \<Rightarrow> int option \<Rightarrow> runtime \<Rightarrow> unit outcome \<times> runtime" where
  "global_finalize_network pf cleaned rt = (case pf of
       Windows \<Rightarrow> (case cleaned of
           Some wsagle \<Rightarrow> (Throw (System_error wsagle), rt)
         | None \<Rightarrow> (Ret (), rt\<lparr>network_up := False\<rparr>))
     | Linux \<Rightarrow> (Ret (), rt))"

definition global_initialize :: "platform \<Rightarrow> cpp_exception option \<Rightarrow> int \<Rightarrow> runtime \<Rightarrow> unit outcome \<times> runtime" where
  "global_initialize pf made ret = seq_st (global_initialize_logging made) (\<lambda>_. global_initialize_network pf ret)"

text \<open>An exception in the \<open>noexcept\<close> destructor is \<open>std::terminate\<close>.\<close>

definition global_finalize :: "platform \<Rightarrow> int option \<Rightarrow> runtime \<Rightarrow> unit outcome \<times> runtime" where
  "global_finalize pf cleaned rt = (case global_finalize_network pf cleaned rt of
       (Ret _, rt') \<Rightarrow> (Ret (), global_finalize_logging rt')
     | (_, rt') \<Rightarrow> (Abort, rt'))"

lemma global_round_trip:
  assumes "global_initialize pf made ret runtime_start = (Ret (), rt)"
  shows "g_logger rt = Some Level_info" and "network_up rt = (pf = Windows)"
    and "global_finalize pf None rt = (Ret (), runtime_start)"
  using assms
  by (auto simp: global_initialize_def global_initialize_logging_def global_initialize_network_def runtime_start_def
      global_finalize_def global_finalize_network_def global_finalize_logging_def seq_st_def
      split: option.splits platform.splits if_splits)

lemma failed_cleanup_terminates: "global_finalize Windows (Some wsagle) rt = (Abort, rt)"
  by (simp add: global_finalize_def global_finalize_network_def)

text \<open>When only the network fails, the destructor of the object does not run and the logger stays.\<close>

lemma failed_startup_keeps_logger:
  "ret \<noteq> 0 \<Longrightarrow> \<exists>rt. global_initialize Windows None ret runtime_start = (Throw (System_error ret), rt) \<and> g_logger rt = Some Level_info"
  by (simp add: global_initialize_def global_initialize_logging_def global_initialize_network_def)

section \<open>Messages of Windows errors\<close>

text \<open>
  The table behind its shared mutex. \<open>format\<close> is \<open>FormatMessageA\<close>, \<open>None\<close> when it has no message. A
  thread looks the code up, formats the message without a lock, and stores it; the steps of several
  threads interleave.
\<close>

type_synonym message_table = "int \<Rightarrow> string option"

datatype message_pc = Msg_lookup int | Msg_format int | Msg_store int string | Msg_returned int string

record messages_state =
  g_getlasterror_message :: message_table
  message_pcs :: "nat \<Rightarrow> message_pc"

definition unknown_message :: string where
  "unknown_message = ''UNKNOWN_ERROR_MESSAGE''"

fun getlasterror_step :: "(int \<Rightarrow> string option) \<Rightarrow> message_pc \<Rightarrow> message_table \<Rightarrow> message_pc \<times> message_table" where
  "getlasterror_step format (Msg_lookup gle) table = (case table gle of
       Some msg \<Rightarrow> (Msg_returned gle msg, table)
     | None \<Rightarrow> (Msg_format gle, table))"
| "getlasterror_step format (Msg_format gle) table = (case format gle of
       None \<Rightarrow> (Msg_returned gle unknown_message, table)
     | Some msg \<Rightarrow> (Msg_store gle msg, table))"
| "getlasterror_step format (Msg_store gle msg) table = (Msg_returned gle msg, table(gle \<mapsto> msg))"
| "getlasterror_step format (Msg_returned gle msg) table = (Msg_returned gle msg, table)"

definition str_getlasterror :: "(int \<Rightarrow> string option) \<Rightarrow> int \<Rightarrow> message_table \<Rightarrow> string \<times> message_table" where
  "str_getlasterror format gle table = (case table gle of
       Some msg \<Rightarrow> (msg, table)
     | None \<Rightarrow> (case format gle of
           None \<Rightarrow> (unknown_message, table)
         | Some msg \<Rightarrow> (msg, table(gle \<mapsto> msg))))"

inductive messages_step :: "(int \<Rightarrow> string option) \<Rightarrow> messages_state \<Rightarrow> messages_state \<Rightarrow> bool" for format where
  thread: "getlasterror_step format (message_pcs s t) (g_getlasterror_message s) = (pc, table) \<Longrightarrow>
    messages_step format s (s\<lparr>message_pcs := (message_pcs s)(t := pc), g_getlasterror_message := table\<rparr>)"

inductive messages_reachable :: "(int \<Rightarrow> string option) \<Rightarrow> messages_state \<Rightarrow> bool" for format where
  start: "\<forall>t. \<exists>gle. message_pcs s t = Msg_lookup gle \<Longrightarrow> g_getlasterror_message s = Map.empty \<Longrightarrow> messages_reachable format s"
| step: "messages_reachable format s \<Longrightarrow> messages_step format s s' \<Longrightarrow> messages_reachable format s'"

text \<open>The reference: what the system says of a code, without a table.\<close>

definition error_message :: "(int \<Rightarrow> string option) \<Rightarrow> int \<Rightarrow> string" where
  "error_message format gle = (case format gle of Some msg \<Rightarrow> msg | None \<Rightarrow> unknown_message)"

fun message_pc_ok :: "(int \<Rightarrow> string option) \<Rightarrow> message_pc \<Rightarrow> bool" where
  "message_pc_ok format (Msg_lookup gle) = True"
| "message_pc_ok format (Msg_format gle) = True"
| "message_pc_ok format (Msg_store gle msg) = (format gle = Some msg)"
| "message_pc_ok format (Msg_returned gle msg) = (msg = error_message format gle)"

lemma getlasterror_step_ok:
  assumes "getlasterror_step format pc table = (pc', table')" and "message_pc_ok format pc" and "table \<subseteq>\<^sub>m format"
  shows "message_pc_ok format pc' \<and> table' \<subseteq>\<^sub>m format"
proof -
  have le: "table k = Some v \<Longrightarrow> format k = Some v" for k v
    using assms(3) by (metis domI map_le_def)
  have "\<And>k v. table' k = Some v \<Longrightarrow> format k = Some v"
    using assms(1,2) le by (cases pc) (auto split: option.splits if_splits)
  then have "table' \<subseteq>\<^sub>m format" by (auto simp: map_le_def)
  moreover have "message_pc_ok format pc'"
    using assms(1,2) le by (cases pc) (auto simp: error_message_def split: option.splits)
  ultimately show ?thesis by simp
qed

lemma messages_invariant:
  "messages_reachable format s \<Longrightarrow>
   (\<forall>t. message_pc_ok format (message_pcs s t)) \<and> g_getlasterror_message s \<subseteq>\<^sub>m format"
proof (induction rule: messages_reachable.induct)
  case (start s)
  from start(1) have "message_pc_ok format (message_pcs s t)" for t
    by (metis message_pc_ok.simps(1))
  with start(2) show ?case by (simp add: map_le_def)
next
  case (step s s')
  from step.hyps(2) obtain t pc table where
    st: "getlasterror_step format (message_pcs s t) (g_getlasterror_message s) = (pc, table)"
    and s': "s' = s\<lparr>message_pcs := (message_pcs s)(t := pc), g_getlasterror_message := table\<rparr>"
    by (auto elim: messages_step.cases)
  from getlasterror_step_ok [OF st] step.IH show ?case by (simp add: s')
qed

text \<open>
  Whatever the other threads do, the message a thread returns is the one the system gives for its code:
  the table is not observable.
\<close>

lemma messages_agree:
  assumes "messages_reachable format s" and "message_pcs s t = Msg_returned gle msg"
  shows "msg = error_message format gle"
  using messages_invariant [OF assms(1)] assms(2) by (metis message_pc_ok.simps(4))

text \<open>A thread on its own: three steps run the whole function.\<close>

definition run_step :: "(int \<Rightarrow> string option) \<Rightarrow> message_pc \<times> message_table \<Rightarrow> message_pc \<times> message_table" where
  "run_step format c = getlasterror_step format (fst c) (snd c)"

lemma str_getlasterror_runs:
  "(run_step format ^^ 3) (Msg_lookup gle, table) =
     (case str_getlasterror format gle table of (msg, table') \<Rightarrow> (Msg_returned gle msg, table'))"
  by (simp add: numeral_3_eq_3 run_step_def str_getlasterror_def split: option.split)

section \<open>Identities\<close>

text \<open>The clock and the random numbers are inputs.\<close>

definition identity_init :: "u64 \<Rightarrow> u32 \<Rightarrow> u32 \<Rightarrow> identity_t" where
  "identity_init now rd1 rd2 = \<lparr>id_timestamp = now, id_random1 = rd1, id_random2 = rd2\<rparr>"

definition identity_ne :: "identity_t \<Rightarrow> identity_t \<Rightarrow> bool" where
  "identity_ne a b \<longleftrightarrow> \<not> identity_eq a b"

lemma identity_init_distinct:
  "identity_ne (identity_init t a b) (identity_init t' a' b') \<longleftrightarrow> (t, a, b) \<noteq> (t', a', b')"
  by (auto simp: identity_ne_def identity_eq_def identity_init_def)

section \<open>Endpoints\<close>

text \<open>\<open>XCP_MOVE_FROM_OTHER\<close> leaves the default value of the field's type behind.\<close>

definition move_field :: "'a \<Rightarrow> 'a \<Rightarrow> 'a \<times> 'a" where
  "move_field fresh other = (other, fresh)"

definition endpoint_move :: "tcp_endpoint \<Rightarrow> tcp_endpoint \<times> tcp_endpoint" where
  "endpoint_move other =
     (let (host, host') = move_field [] (ep_host other); (port, port') = move_field None (ep_port other);
          (repeats, repeats') = move_field None (ep_repeats other);
          (resolved, resolved') = move_field [] (resolved_sockaddrs other)
      in (\<lparr>ep_host = host, ep_port = port, ep_repeats = repeats, resolved_sockaddrs = resolved\<rparr>,
          \<lparr>ep_host = host', ep_port = port', ep_repeats = repeats', resolved_sockaddrs = resolved'\<rparr>))"

lemma endpoint_moved: "endpoint_move other = (other, endpoint_new)"
  by (simp add: endpoint_move_def move_field_def endpoint_new_def)

section \<open>Descriptions of errors\<close>

definition error_description_windows :: "(u32 \<Rightarrow> string) \<Rightarrow> u32 \<Rightarrow> string" where
  "error_description_windows message wsagle =
     ''WSAGetLastError = '' @ string_of_nat (unat wsagle) @ '' ('' @ message wsagle @ '')''"

definition error_description_linux :: "(int \<Rightarrow> string) \<Rightarrow> int \<Rightarrow> string" where
  "error_description_linux strerror err =
     ''errno = '' @ (if err < 0 then ''-'' else []) @ string_of_nat (nat \<bar>err\<bar>) @ '' ('' @ strerror err @ '')''"

section \<open>Contexts of files\<close>

text \<open>
  Moving an object into a new one, whose members have their initial values first; the test for an open
  handle of its own never holds there. The result is the new object and what is left of the other.
\<close>

definition send_context_new :: send_file_context where
  "send_context_new = \<lparr>curr_offset = 0, src_handle = INVALID_FILE_HANDLE\<rparr>"

definition send_context_move ::
    "'w posix \<Rightarrow> send_file_context \<Rightarrow> 'w \<Rightarrow> send_file_context \<times> send_file_context \<times> 'w" where
  "send_context_move px other w =
     (let this1 = send_context_new\<lparr>curr_offset := curr_offset other\<rparr>;
          other1 = other\<lparr>curr_offset := 0\<rparr>
      in case (if src_handle this1 \<noteq> INVALID_FILE_HANDLE then close_send_handle px this1 w else (this1, w)) of
           (this2, w1) \<Rightarrow> (this2\<lparr>src_handle := src_handle other1\<rparr>, other1\<lparr>src_handle := INVALID_FILE_HANDLE\<rparr>, w1))"

definition recv_context_new :: recv_file_context where
  "recv_context_new = \<lparr>received_size = 0, mapped_length = 0, dst_file_mapped = False,
     dst_handle = INVALID_FILE_HANDLE, dst_pages = []\<rparr>"

definition recv_context_move ::
    "'w posix \<Rightarrow> recv_file_context \<Rightarrow> 'w \<Rightarrow> recv_file_context \<times> recv_file_context \<times> 'w" where
  "recv_context_move px other w =
     (let this1 = recv_context_new\<lparr>received_size := received_size other\<rparr>;
          other1 = other\<lparr>received_size := 0\<rparr>;
          this2 = (if dst_file_mapped this1 then unmap_file this1 else this1);
          this3 = this2\<lparr>dst_file_mapped := dst_file_mapped other1, mapped_length := mapped_length other1, dst_pages := dst_pages other1\<rparr>;
          other2 = other1\<lparr>dst_file_mapped := False, mapped_length := 0, dst_pages := []\<rparr>;
          w1 = (if dst_handle this3 \<noteq> INVALID_FILE_HANDLE then px_close px (dst_handle this3) w else w);
          this4 = close_recv_handle this3
      in (this4\<lparr>dst_handle := dst_handle other2\<rparr>, other2\<lparr>dst_handle := INVALID_FILE_HANDLE\<rparr>, w1))"

text \<open>The move assignment runs the destructor, which closes nothing, and builds the object again.\<close>

definition send_context_assign ::
    "'w posix \<Rightarrow> send_file_context \<Rightarrow> send_file_context \<Rightarrow> 'w \<Rightarrow> send_file_context \<times> send_file_context \<times> 'w" where
  "send_context_assign px this other w = send_context_move px other w"

lemma send_context_moved:
  "send_context_move px other w = (other, send_context_new, w)"
  by (simp add: send_context_move_def send_context_new_def Let_def)

lemma recv_context_moved:
  "recv_context_move px other w = (other, recv_context_new, w)"
  by (simp add: recv_context_move_def recv_context_new_def close_recv_handle_def Let_def)

lemma send_context_assign_leaks:
  "send_context_assign px this other w = (other, send_context_new, w)"
  by (simp add: send_context_assign_def send_context_moved)

text \<open>
  \<open>emplace_back\<close> builds the new element from the context and, when the vector is \<open>full\<close>, moves the others
  into new memory.
\<close>

fun move_all :: "('c \<Rightarrow> 'w \<Rightarrow> 'c \<times> 'c \<times> 'w) \<Rightarrow> 'c list \<Rightarrow> 'w \<Rightarrow> 'c list \<times> 'w" where
  "move_all move [] w = ([], w)"
| "move_all move (c # cs) w = (case move c w of (c', _, w1) \<Rightarrow>
     (case move_all move cs w1 of (cs', w2) \<Rightarrow> (c' # cs', w2)))"

definition emplace_back :: "('c \<Rightarrow> 'w \<Rightarrow> 'c \<times> 'c \<times> 'w) \<Rightarrow> bool \<Rightarrow> 'c list \<Rightarrow> 'c \<Rightarrow> 'w \<Rightarrow> 'c list \<times> 'w" where
  "emplace_back move full cs ctx w = (case move ctx w of (c, _, w1) \<Rightarrow>
     (case (if full then move_all move cs w1 else (cs, w1)) of (cs', w2) \<Rightarrow> (cs' @ [c], w2)))"

locale moving =
  fixes move :: "'c \<Rightarrow> 'w \<Rightarrow> 'c \<times> 'c \<times> 'w" and empty :: 'c
  assumes moved: "move c w = (c, empty, w)"
begin

lemma moved_all: "move_all move cs w = (cs, w)"
  by (induction cs arbitrary: w) (simp_all add: moved)

lemma emplaced: "emplace_back move full cs ctx w = (cs @ [ctx], w)"
  by (simp add: emplace_back_def moved moved_all)

end

interpretation send_moves: moving "send_context_move px" send_context_new
  by unfold_locales (rule send_context_moved)

interpretation recv_moves: moving "recv_context_move px" recv_context_new
  by unfold_locales (rule recv_context_moved)

text \<open>
  So the contexts of a transfer end up in its vector as they were opened, no handle is closed on the
  way and none is kept twice.
\<close>

lemma send_context_emplaced:
  "fst (emplace_back (send_context_move px) full (send_ctx src) ctx w) = send_ctx (add_source_file ctx fi src)"
  by (simp add: send_moves.emplaced add_source_file_def)

section \<open>Releasing a file on Windows\<close>

text \<open>Here the test of \<open>unmap_file\<close> is on the mapping.\<close>

record 'w win_release =
  wr_close :: "int \<Rightarrow> 'w \<Rightarrow> 'w"
  wr_unmap :: "u64 \<Rightarrow> 'w \<Rightarrow> 'w" \<comment> \<open>flushes that many bytes of the view and unmaps it\<close>

definition close_send_handle_windows :: "'w win_release \<Rightarrow> send_file_context \<Rightarrow> 'w \<Rightarrow> send_file_context \<times> 'w" where
  "close_send_handle_windows api ctx w =
     (if src_handle ctx \<noteq> INVALID_FILE_HANDLE
      then (ctx\<lparr>src_handle := INVALID_FILE_HANDLE\<rparr>, wr_close api (src_handle ctx) w) else (ctx, w))"

definition close_recv_handle_windows :: "'w win_release \<Rightarrow> recv_file_context \<Rightarrow> 'w \<Rightarrow> recv_file_context \<times> 'w" where
  "close_recv_handle_windows api ctx w =
     (if dst_handle ctx \<noteq> INVALID_FILE_HANDLE
      then (ctx\<lparr>dst_handle := INVALID_FILE_HANDLE\<rparr>, wr_close api (dst_handle ctx) w) else (ctx, w))"

definition unmap_file_windows :: "'w win_release \<Rightarrow> recv_file_context \<Rightarrow> 'w \<Rightarrow> recv_file_context \<times> 'w" where
  "unmap_file_windows api ctx w =
     (if dst_file_mapped ctx
      then (ctx\<lparr>dst_file_mapped := False, mapped_length := 0\<rparr>, wr_unmap api (mapped_length ctx) w) else (ctx, w))"

text \<open>
  The loop of \<open>dispose_impl\<close> closes a handle before it unmaps the file. On Windows every mapping is gone
  afterwards; on Linux a file that is still mapped stays mapped.
\<close>

lemma disposed_windows_unmaps:
  "close_recv_handle_windows api ctx w = (ctx1, w1) \<Longrightarrow> unmap_file_windows api ctx1 w1 = (ctx2, w2) \<Longrightarrow>
   dst_file_mapped ctx2 = False \<and> dst_handle ctx2 = INVALID_FILE_HANDLE"
  by (auto simp: close_recv_handle_windows_def unmap_file_windows_def split: if_splits)

lemma disposed_linux_stays_mapped:
  "dst_file_mapped (unmap_file (close_recv_handle ctx)) = dst_file_mapped ctx"
  by (simp add: unmap_file_def close_recv_handle_def)

end
