(* ===== verification/Transfer_Success.thy ===== *)
theory Transfer_Success
  imports Transfer_Copy
begin

text \<open>
  A transfer that nothing disturbs succeeds: when every connection takes what its channel sends, and no
  socket is closed, no channel of either side fails, so that all of them return successfully. Together with
  the bound of \<open>Transfer_Ends\<close> this is total: whatever is scheduled, the files are copied.
\<close>

section \<open>What a channel sends\<close>

text \<open>A block carries at least a byte and has a header of 16; the tail is another header.\<close>

definition wire_bytes :: "basic_transfer_info \<Rightarrow> nat" where
  "wire_bytes info = 17 * (\<Sum>n<length (files_info info). unat (file_size (files_info info ! n))) + 16"

definition piece_bytes :: "piece list \<Rightarrow> nat" where
  "piece_bytes bs = sum_list (map piece_length bs)"

lemma piece_bytes_simps [simp]:
  "piece_bytes [] = 0" "piece_bytes (x # xs) = piece_length x + piece_bytes xs"
  by (simp_all add: piece_bytes_def)

lemma bytes_of_mono: "A \<subseteq># B \<Longrightarrow> bytes_of A \<le> bytes_of B"
  by (auto simp: subset_mset.le_iff_add)

lemma piece_bytes_by_file:
  "list_all (block_ok data F) bs \<Longrightarrow> piece_bytes bs = (\<Sum>n<F. bytes_of (of_file n bs))"
proof (induction bs)
  case (Cons x xs)
  obtain m p l where x: "x = (m, p, l)" by (metis prod_cases3)
  with Cons.prems have m: "m < F" by simp
  have "(\<Sum>n<F. bytes_of (of_file n (x # xs))) = (\<Sum>n<F. (if n = m then l else 0) + bytes_of (of_file n xs))"
    by (rule sum.cong) (auto simp: x)
  also have "\<dots> = l + piece_bytes xs" using m Cons by (simp add: sum.distrib)
  finally show ?case by (simp add: x)
qed simp

lemma frame_length: "block_ok data F (n, p, l) \<Longrightarrow> length (frame h data (n, p, l)) = 16 + l"
proof -
  assume "block_ok data F (n, p, l)"
  then have "p + l \<le> length (data n)" by simp
  then have "l \<le> length (data n) - p" by linarith
  then show ?thesis by simp
qed

lemma frames_bytes: "list_all (block_ok data F) bs \<Longrightarrow> length (frames h data bs) \<le> 17 * piece_bytes bs"
proof (induction bs)
  case (Cons x xs)
  obtain m p l where x: "x = (m, p, l)" by (metis prod_cases3)
  with Cons.prems have "length (frame h data x) = 16 + l" "0 < l" using frame_length [of data F m p l h] by simp_all
  with Cons x show ?case by (simp del: frame.simps)
qed simp

text \<open>However the blocks are shared out, no channel sends more than that.\<close>

lemma channel_room:
  assumes inv: "xfer_inv h contents C info data s" and k: "k < C"
  shows "length (frames h data (cn_blocks (xf_conns s k) @ src_sent (sc_pc (cn_src (xf_conns s k))))) + 16 \<le> wire_bytes info"
proof -
  let ?c = "xf_conns s k" and ?F = "length (files_info info)"
  let ?bs = "cn_blocks ?c @ src_sent (sc_pc (cn_src ?c))"
  note d = xfer_invD [OF inv]
  have ok: "list_all (block_ok data ?F) ?bs"
    using d(12) [OF k] by (auto simp: src_inv_def Let_def src_sent_def split: source_pc.splits)
  have each: "bytes_of (of_file n ?bs) \<le> unat (file_size (files_info info ! n))" if n: "n < ?F" for n
  proof -
    let ?all = "all_of C (acc_blocks n) (xf_conns s) + all_of C (mid_blocks n) (xf_conns s) + all_of C (rest_blocks n) (xf_conns s)"
    have "of_file n ?bs \<subseteq># ?all"
      using all_of_sub [OF k, of "\<lambda>c. acc_blocks n c + mid_blocks n c + rest_blocks n c" "xf_conns s"]
      unfolding held_blocks all_of_add .
    then have "bytes_of (of_file n ?bs) \<le> bytes_of ?all" by (rule bytes_of_mono)
    moreover have "tiling ?all (min (unat (curr_offset (send_ctx (xf_src s) ! n))) (length (data n)))"
      using d(14) [OF n] unfolding file_inv_def Let_def by blast
    ultimately show ?thesis using tiling_bytes d(7) [OF n] by fastforce
  qed
  have "piece_bytes ?bs \<le> (\<Sum>n<?F. unat (file_size (files_info info ! n)))"
    unfolding piece_bytes_by_file [OF ok] by (rule sum_mono) (simp add: each del: of_file_simps)
  with frames_bytes [OF ok, of h] show ?thesis unfolding wire_bytes_def by linarith
qed

section \<open>Healthy connections\<close>

text \<open>\<open>R\<close> is what the connection takes in all.\<close>

definition healthy :: "nat \<Rightarrow> conn \<Rightarrow> bool" where
  "healthy R c \<longleftrightarrow> sock_open (sc_sock (cn_src c)) \<and> sock_open (dc_sock (cn_dst c))
     \<and> R \<le> length (outbox (sc_sock (cn_src c))) + send_room (sc_sock (cn_src c))
     \<and> sc_pc (cn_src c) \<noteq> Src_returned False \<and> dc_pc (cn_dst c) \<noteq> Dst_returned False"

lemma socket_send_enough:
  assumes "sock_open s" and "length bs \<le> send_room s"
  shows "socket_send bs s = (True, s\<lparr>outbox := outbox s @ bs, send_room := send_room s - length bs\<rparr>)"
  using socket_sendv_enough [of s "[bs]"] assms by (simp add: socket_send_def)

lemma socket_send_file_enough:
  assumes "sock_open s" and "unat off + unat n \<le> length d" and "length hdr + unat n \<le> send_room s"
  shows "socket_send_file (Some d) off n (Some hdr) s = (True,
    s\<lparr>outbox := outbox s @ hdr @ take (unat n) (drop (unat off) d), send_room := send_room s - (length hdr + unat n)\<rparr>)"
proof -
  have "length (take (unat n) (drop (unat off) d)) = unat n" using assms(2) by simp
  with assms(1,3) show ?thesis
    by (simp add: socket_send_file_def sys_sendfile_def sys_write_enough del: length_take)
qed

lemma src_step_healthy:
  assumes inv: "xfer_inv h contents C info data s" and k: "k < C" and R: "wire_bytes info \<le> R"
    and ok: "healthy R (xf_conns s k)"
    and step: "source_channel_step h contents e (xf_src s) (cn_src (xf_conns s k)) = (Ret ch, src')"
  shows "healthy R (src_moved (xf_conns s k) ch)"
proof -
  let ?c = "xf_conns s k" and ?F = "length (files_info info)"
  let ?sock = "sc_sock (cn_src ?c)"
  note d = xfer_invD [OF inv] and room = channel_room [OF inv k] and si = xfer_invD(12) [OF inv k]
  show ?thesis
  proof (cases "sc_pc (cn_src ?c)")
    case (Src_fetch n b)
    show ?thesis
    proof (cases "n < ?F")
      case True
      with step d(1) Src_fetch have "sc_sock ch = ?sock \<and> sc_pc ch \<noteq> Src_returned False"
        by (auto simp: source_channel_step_def split: if_splits prod.splits option.splits)
      with ok show ?thesis by (simp add: healthy_def src_moved_def)
    next
      case False
      have "outbox ?sock = frames h data (cn_blocks ?c)" using si Src_fetch by (simp add: src_inv_def)
      with room R ok Src_fetch have "16 \<le> send_room ?sock" "sock_open ?sock" by (simp_all add: healthy_def)
      then have "socket_send (final_tail h) ?sock
          = (True, ?sock\<lparr>outbox := outbox ?sock @ final_tail h, send_room := send_room ?sock - 16\<rparr>)"
        using socket_send_enough [of ?sock "final_tail h"] by simp
      with step d(1) Src_fetch False \<open>16 \<le> send_room ?sock\<close> ok show ?thesis
        by (auto simp: source_channel_step_def healthy_def src_moved_def)
    qed
  next
    case (Src_send n p l b)
    have x: "n < ?F" "unat p + unat l \<le> length (data n)" and out: "outbox ?sock = frames h data (cn_blocks ?c)"
      using si Src_send by (simp_all add: src_inv_def)
    with room R ok Src_send have r: "16 + unat l \<le> send_room ?sock" "sock_open ?sock" by (simp_all add: healthy_def)
    then have "socket_send_file (contents (src_handle (send_ctx (xf_src s) ! n))) p l (Some (block_header h p l n)) ?sock
        = (True, ?sock\<lparr>outbox := outbox ?sock @ block_header h p l n @ take (unat l) (drop (unat p) (data n)),
            send_room := send_room ?sock - (16 + unat l)\<rparr>)"
      using socket_send_file_enough [of ?sock p l "data n" "block_header h p l n"] x d(6) by simp
    with step d(1) Src_send r x ok show ?thesis
      by (auto simp: source_channel_step_def healthy_def src_moved_def Let_def split: if_splits outcome.splits)
  next
    case (Src_returned b)
    with step d(1) ok show ?thesis by (simp add: source_channel_step_def healthy_def src_moved_def)
  qed
qed

text \<open>A receive that does not block finds its bytes: a source that has returned has sent everything.\<close>

lemma enabled_needs:
  assumes si: "src_inv h data F c" and di: "dst_inv h data c" and ok: "healthy R c" and en: "dst_enabled c"
  shows "dest_needs (dc_pc (cn_dst c)) \<le> length (avail c)"
proof (cases "src_returned (cn_src c)")
  case True
  with ok have pc: "sc_pc (cn_src c) = Src_returned True" by (auto simp: src_returned_def healthy_def)
  with si have out: "outbox (sc_sock (cn_src c)) = frames h data (cn_blocks c) @ final_tail h" by (simp add: src_inv_def)
  let ?g = "cn_got c" and ?bs = "cn_blocks c"
  have split: "frames h data ?bs = frames h data (take ?g ?bs) @ frames h data (drop ?g ?bs)"
    by (metis append_take_drop_id frames_simps(3))
  show ?thesis
  proof (cases "dc_pc (cn_dst c)")
    case Dst_header
    with di out split show ?thesis by (simp add: dst_inv_def avail_def)
  next
    case (Dst_body p l n)
    with di have b: "?g < length ?bs" "?bs ! ?g = (n, unat p, unat l)"
      and con: "cn_consumed c = length (frames h data (take ?g ?bs)) + 16" by (simp_all add: dst_inv_def Let_def)
    have "block_ok data F (n, unat p, unat l)" using src_block_ok [OF si b(1)] by (simp only: b)
    then have "length (frame h data (n, unat p, unat l)) = 16 + unat l" by (rule frame_length)
    moreover have "drop ?g ?bs = (n, unat p, unat l) # drop (Suc ?g) ?bs" using b by (metis Cons_nth_drop_Suc)
    ultimately show ?thesis using Dst_body con out split by (simp add: avail_def del: frame.simps)
  qed simp_all
next
  case False
  with en ok show ?thesis by (auto simp: dst_enabled_def healthy_def)
qed

lemma dest_channel_return_pc: "dest_channel_return b sock d = (Ret ch, d') \<Longrightarrow> ch = \<lparr>dc_sock = sock, dc_pc = Dst_returned b\<rparr>"
  by (auto simp: dest_channel_return_def split: prod.splits outcome.splits)

lemma dst_step_healthy:
  assumes inv: "xfer_inv h contents C info data s" and k: "k < C" and ok: "healthy R (xf_conns s k)"
    and en: "dst_enabled (xf_conns s k)"
    and step: "dest_channel_step g (xf_dst s) (dst_ready (xf_conns s k)) = (Ret ch, dst')"
  shows "healthy R (dst_moved (xf_conns s k) ch)"
proof -
  let ?c = "xf_conns s k" and ?F = "length (files_info info)"
  let ?sock = "dc_sock (dst_ready ?c)"
  note d = xfer_invD [OF inv] and si = xfer_invD(12) [OF inv k] and di = xfer_invD(13) [OF inv k]
  have needs: "dest_needs (dc_pc (cn_dst ?c)) \<le> length (inbox ?sock)"
    using enabled_needs [OF si di ok en] by (simp add: dst_ready_def)
  have op: "sock_open ?sock" using ok by (simp add: healthy_def dst_ready_def)
  have pc: "dc_pc (dst_ready ?c) = dc_pc (cn_dst ?c)" by (simp add: dst_ready_def)
  have "sock_open (dc_sock ch) \<and> dc_pc ch \<noteq> Dst_returned False"
  proof (cases "dc_pc (cn_dst ?c)")
    case Dst_header
    then have "socket_recv 16 ?sock = (True, take 16 (inbox ?sock), ?sock\<lparr>inbox := drop 16 (inbox ?sock)\<rparr>)"
      using socket_recv_enough [OF op, of 16] needs by simp
    with step Dst_header pc op d(11) show ?thesis
      by (auto simp: dest_channel_step_def dest_recv_header_def dest!: dest_channel_return_pc split: prod.splits if_splits)
  next
    case (Dst_body p l n)
    with di have b: "cn_got ?c < length (cn_blocks ?c)" "cn_blocks ?c ! cn_got ?c = (n, unat p, unat l)"
      by (simp_all add: dst_inv_def Let_def)
    have "block_ok data ?F (n, unat p, unat l)" using src_block_ok [OF si b(1)] by (simp only: b)
    then have "unat l < 2 ^ 31" by simp
    then have "socket_recv l ?sock = (True, take (unat l) (inbox ?sock), ?sock\<lparr>inbox := drop (unat l) (inbox ?sock)\<rparr>)"
      using socket_recv_enough [OF op, of l] needs Dst_body by simp
    with step Dst_body pc op show ?thesis
      by (auto simp: dest_channel_step_def dest_recv_body_def Let_def split: if_splits)
  next
    case (Dst_account l n)
    with step pc op d(2) show ?thesis
      by (auto simp: dest_channel_step_def dest_account_def Let_def split: if_splits)
  next
    case (Dst_progress l n f)
    with step pc op show ?thesis by (auto simp: dest_channel_step_def)
  next
    case (Dst_returned b)
    with step pc op ok show ?thesis by (auto simp: dest_channel_step_def healthy_def)
  qed
  with ok show ?thesis by (simp add: healthy_def dst_moved_def)
qed

section \<open>Undisturbed runs\<close>

definition all_healthy :: "nat \<Rightarrow> nat \<Rightarrow> xfer \<Rightarrow> bool" where
  "all_healthy R C s \<longleftrightarrow> (\<forall>k<C. healthy R (xf_conns s k))"

lemma busy_move_healthy:
  assumes inv: "xfer_inv h contents C info data s" and R: "wire_bytes info \<le> R" and ok: "all_healthy R C s"
    and m: "move_busy m s" "xfer_move h g contents C m s = Some s'"
  shows "all_healthy R C s'"
proof (cases m)
  case (Move_src k e)
  with m(2) obtain ch src' where k: "k < C" and st: "source_channel_step h contents e (xf_src s) (cn_src (xf_conns s k)) = (Ret ch, src')"
    and s': "s' = s\<lparr>xf_src := src', xf_conns := (xf_conns s)(k := src_moved (xf_conns s k) ch)\<rparr>"
    by (auto split: if_splits prod.splits outcome.splits)
  with ok src_step_healthy [OF inv k R _ st] show ?thesis by (auto simp: all_healthy_def)
next
  case (Move_dst k)
  with m(2) obtain ch dst' where k: "k < C" and en: "dst_enabled (xf_conns s k)"
    and st: "dest_channel_step g (xf_dst s) (dst_ready (xf_conns s k)) = (Ret ch, dst')"
    and s': "s' = s\<lparr>xf_dst := dst', xf_conns := (xf_conns s)(k := dst_moved (xf_conns s k) ch)\<rparr>"
    by (auto split: if_splits prod.splits outcome.splits)
  with ok dst_step_healthy [OF inv k _ en st] show ?thesis by (auto simp: all_healthy_def)
next
  case (Move_close k)
  with m(1) show ?thesis by simp
qed

lemma busy_run_healthy:
  "busy_run h g contents C ms s \<Longrightarrow> xfer_run h g contents C ms s = Some s' \<Longrightarrow> xfer_inv h contents C info data s
    \<Longrightarrow> wire_bytes info \<le> R \<Longrightarrow> all_healthy R C s \<Longrightarrow> all_healthy R C s'"
proof (induction ms arbitrary: s)
  case (Cons m ms)
  then obtain s1 where m: "move_busy m s" "xfer_move h g contents C m s = Some s1"
    and r: "busy_run h g contents C ms s1" "xfer_run h g contents C ms s1 = Some s'" by (auto split: option.splits)
  show ?case
    by (rule Cons.IH [OF r xfer_step_inv [OF xfer_move_step [OF m(2)] Cons.prems(3)] Cons.prems(4)
          busy_move_healthy [OF Cons.prems(3-5) m]])
qed simp

lemma stuck_returned:
  assumes inv: "xfer_inv h contents C info data s" and ok: "all_healthy R C s"
    and stuck: "\<nexists>m s'. move_busy m s \<and> xfer_move h g contents C m s = Some s'" and k: "k < C"
  shows "sc_pc (cn_src (xf_conns s k)) = Src_returned True \<and> dc_pc (cn_dst (xf_conns s k)) = Dst_returned True"
proof -
  have "src_returned (cn_src (xf_conns s k))" "\<exists>b. dc_pc (cn_dst (xf_conns s k)) = Dst_returned b"
    using not_stuck [OF inv k, of g] stuck by blast+
  moreover have "healthy R (xf_conns s k)" using ok k by (simp add: all_healthy_def)
  ultimately show ?thesis by (auto simp: src_returned_def healthy_def)
qed

text \<open>The sockets at the start: connected, with room for the whole transfer.\<close>

definition undisturbed :: "nat \<Rightarrow> basic_transfer_info \<Rightarrow> (nat \<Rightarrow> os_socket_t) \<Rightarrow> (nat \<Rightarrow> os_socket_t) \<Rightarrow> bool" where
  "undisturbed C info ss ds \<longleftrightarrow>
     (\<forall>k<C. sock_open (ss k) \<and> outbox (ss k) = [] \<and> wire_bytes info \<le> send_room (ss k) \<and> sock_open (ds k))"

lemma undisturbed_healthy:
  "undisturbed C info ss ds \<Longrightarrow> all_healthy (wire_bytes info) C (transfer_start src dst ss ds)"
  by (simp add: undisturbed_def all_healthy_def healthy_def transfer_start_def dest_channel_start_def)

lemma undisturbed_total:
  assumes S: "source_ready src" and info: "src_info src = Some info" and D: "dest_sized info C dst"
    and st: "files_stable contents C info src" and und: "undisturbed C info ss ds"
    and run: "busy_run h g contents C ms (transfer_start src dst ss ds)"
      "xfer_run h g contents C ms (transfer_start src dst ss ds) = Some s"
  shows "length ms \<le> xfer_work C info (transfer_start src dst ss ds)"
    and "(\<nexists>m s'. move_busy m s \<and> xfer_move h g contents C m s = Some s') \<Longrightarrow>
      (\<forall>k<C. sc_pc (cn_src (xf_conns s k)) = Src_returned True \<and> dc_pc (cn_dst (xf_conns s k)) = Dst_returned True)
      \<and> (\<forall>n<length (files_info info). contents (src_handle (send_ctx src ! n)) = Some (dst_pages (recv_ctx (xf_dst s) ! n)))"
proof -
  let ?s0 = "transfer_start src dst ss ds"
  have out: "\<forall>k<C. outbox (ss k) = []" using und by (simp add: undisturbed_def)
  have inv0: "xfer_inv h contents C info (file_data contents src) ?s0"
    using xfer_initial_inv [OF transfer_start_initial [OF S info D st out], where h = h] by (simp add: transfer_start_def)
  show "length ms \<le> xfer_work C info ?s0" by (rule busy_run_bound [OF inv0 run(1)])
  have inv: "xfer_inv h contents C info (file_data contents src) s" by (rule xfer_run_inv [OF run(2) inv0])
  have ok: "all_healthy (wire_bytes info) C s"
    by (rule busy_run_healthy [OF run inv0 order_refl undisturbed_healthy [OF und]])
  assume stuck: "\<nexists>m s'. move_busy m s \<and> xfer_move h g contents C m s = Some s'"
  note ret = stuck_returned [OF inv ok stuck]
  have "\<forall>k<C. dc_pc (cn_dst (xf_conns s k)) = Dst_returned True" using ret by blast
  with ready_copy [OF S info D st out run(2)] ret
  show "(\<forall>k<C. sc_pc (cn_src (xf_conns s k)) = Src_returned True \<and> dc_pc (cn_dst (xf_conns s k)) = Dst_returned True)
      \<and> (\<forall>n<length (files_info info). contents (src_handle (send_ctx src ! n)) = Some (dst_pages (recv_ctx (xf_dst s) ! n)))"
    by blast
qed

end
