(* ===== verification/Windows_Transfer.thy ===== *)
theory Windows_Transfer
  imports Windows_IO Transfer_Copy
begin

text \<open>
  A transfer does not depend on the platform of its ends: when the calls of Windows do what is
  documented, sending a block there is sending it on Linux, so that the channels are those of \<open>Channels\<close>;
  and a destination whose file was opened on Windows is one they can fill, although that file keeps the
  bytes it had before.
\<close>

section \<open>Sending\<close>

text \<open>
  What is documented of \<open>WSASend\<close> and \<open>TransmitFile\<close> on a connected socket, in terms of its stream:
  success at once means that everything was written, a pending operation ends with the number of
  bytes written, and any failure has written less.
\<close>

fun completes :: "'w win_net \<Rightarrow> nat \<Rightarrow> u32 option \<times> 'w \<Rightarrow> int \<times> 'w \<Rightarrow> bool" where
  "completes api m (None, s1) (cnt, s') \<longleftrightarrow> cnt = int m \<and> s1 = s'"
| "completes api m (Some e, s1) (cnt, s') \<longleftrightarrow>
     (if e = WSA_IO_PENDING then (case wn_overlapped api s1 of
          (None, s2) \<Rightarrow> cnt \<noteq> int m \<and> s2 = s'
        | (Some k, s2) \<Rightarrow> cnt = uint k \<and> s2 = s')
      else cnt \<noteq> int m \<and> s1 = s')"

definition net_documented :: "os_socket_t win_net \<Rightarrow> (int \<Rightarrow> byte list option) \<Rightarrow> bool" where
  "net_documented api contents \<longleftrightarrow>
     (\<forall>vec s. length (concat vec) < 2 ^ 32 \<longrightarrow> completes api (length (concat vec)) (wn_send api vec s) (sys_write (concat vec) s))
     \<and> (\<forall>h n low high hdr d s. contents h = Some d
          \<longrightarrow> length hdr + unat n < 2 ^ 32
          \<longrightarrow> unat (push_bit 32 (ucast high) OR ucast low :: u64) + unat n \<le> length d
          \<longrightarrow> completes api (length hdr + unat n) (wn_transmit api h n low high (Some hdr) s)
                (sys_write (hdr @ take (unat n) (drop (unat (push_bit 32 (ucast high) OR ucast low :: u64)) d)) s))"

text \<open>One write of two parts is a write of the first and, when that was complete, one of the second.\<close>

lemma sys_write_append:
  assumes "sys_write a s = (c, s1)" and "sys_write b s1 = (c2, s2)" and "sys_write (a @ b) s = (c', s')"
  shows "if c = int (length a) then s' = s2 \<and> (c' = int (length (a @ b)) \<longleftrightarrow> c2 = int (length b))
    else s' = s1 \<and> c' \<noteq> int (length (a @ b))"
  using assms by (cases s; cases b) (auto simp: sys_write_def min_def split: if_splits)

lemma socket_send_file_written:
  assumes w: "sys_write (hdr @ take (unat n) (drop (unat off) d)) s = (cnt, s')" and range: "unat off + unat n \<le> length d"
  shows "socket_send_file (Some d) off n (Some hdr) s = (cnt = int (length hdr + unat n), s')"
proof -
  let ?body = "take (unat n) (drop (unat off) d)"
  have len: "length ?body = unat n" using range by simp
  obtain c1 s1 where 1: "sys_write hdr s = (c1, s1)" by (rule prod.exhaust)
  obtain c2 s2 where 2: "sys_write ?body s1 = (c2, s2)" by (rule prod.exhaust)
  note app = sys_write_append [OF 1 2 w]
  show ?thesis
  proof (cases "c1 = int (length hdr)")
    case True
    then have "socket_send_file (Some d) off n (Some hdr) s = (\<not> (c2 < 0 \<or> c2 \<noteq> int (unat n)), s2)"
      using 1 2 by (simp add: socket_send_file_def sys_sendfile_def)
    moreover have "\<not> (c2 < 0 \<or> c2 \<noteq> int (unat n)) \<longleftrightarrow> c2 = int (unat n)" by (metis of_nat_less_0_iff)
    ultimately show ?thesis using app True len by (simp only: length_append if_True)
  next
    case False
    then have n: "(\<not> c1 < 0 \<and> nat c1 = length hdr) = False" by auto
    have "socket_send_file (Some d) off n (Some hdr) s = (False, s1)"
      using 1 by (simp add: socket_send_file_def n)
    then show ?thesis using app False len by (simp only: length_append if_False)
  qed
qed

lemma completes_sent:
  assumes "completes api m r (cnt, s')"
  shows "(case r of (None, w1) \<Rightarrow> (True, w1)
     | (Some e, w1) \<Rightarrow> if e = WSA_IO_PENDING then (case wn_overlapped api w1 of
           (None, w2) \<Rightarrow> (False, w2) | (Some k, w2) \<Rightarrow> (unat k = m, w2)) else (False, w1)) = (cnt = int m, s')"
proof -
  have u: "uint k = int m \<longleftrightarrow> unat k = m" for k :: u32 by (metis of_nat_eq_iff uint_nat)
  show ?thesis
    using assms u by (cases r; cases "fst r") (auto split: if_splits prod.splits option.splits)
qed


text \<open>Calls that are never pending, on the stream of the model.\<close>

definition report_write :: "nat \<Rightarrow> int \<times> os_socket_t \<Rightarrow> u32 option \<times> os_socket_t" where
  "report_write m r = (if fst r = int m then None else Some 10054, snd r)"

definition stream_net :: "(int \<Rightarrow> byte list option) \<Rightarrow> os_socket_t win_net" where
  "stream_net contents = \<lparr>wn_send = (\<lambda>vec s. report_write (length (concat vec)) (sys_write (concat vec) s)),
     wn_transmit = (\<lambda>h n low high hdr s.
       let head = (case hdr of None \<Rightarrow> [] | Some b \<Rightarrow> b); d = (case contents h of None \<Rightarrow> [] | Some d \<Rightarrow> d) in
       report_write (length head + unat n)
         (sys_write (head @ take (unat n) (drop (unat (push_bit 32 (ucast high) OR ucast low :: u64)) d)) s)),
     wn_overlapped = (\<lambda>s. (None, s))\<rparr>"

lemma report_write_completes: "completes api m (report_write m r) r"
  by (cases r) (simp add: report_write_def WSA_IO_PENDING_def)

lemma stream_net_documented: "net_documented (stream_net contents) contents"
  by (simp add: net_documented_def stream_net_def report_write_completes)


text \<open>The same of \<open>sendv\<close>, which \<open>send\<close> and the messages go through.\<close>

lemma windows_sendv_alike:
  assumes "net_documented api contents" and small: "length (concat vec) < 2 ^ 32"
  shows "socket_sendv_windows api vec s = (case socket_sendv vec s of (ok, s') \<Rightarrow> (Ret ok, s'))"
proof -
  let ?m = "length (concat vec)"
  obtain cnt s' where w: "sys_write (concat vec) s = (cnt, s')" by (rule prod.exhaust)
  have c: "completes api ?m (wn_send api vec s) (cnt, s')"
    using assms(1) [unfolded net_documented_def, THEN conjunct1, rule_format, OF small, of s] w by simp
  have total: "sum_list (map length vec) = ?m" by (simp add: length_concat)
  have each: "\<not> (\<exists>v \<in> set vec. length v \<ge> 2 ^ 32)"
  proof
    assume "\<exists>v \<in> set vec. length v \<ge> 2 ^ 32"
    then obtain v where v: "v \<in> set vec" "length v \<ge> 2 ^ 32" by blast
    then have "length v \<le> sum_list (map length vec)" by (intro member_le_sum_list) auto
    with v(2) small total show False by linarith
  qed
  have u: "(ucast k :: u64) = word_of_nat ?m \<longleftrightarrow> unat k = ?m" for k :: u32
  proof -
    have "unat (word_of_nat ?m :: u64) = ?m" using small by (simp add: unat_of_nat)
    moreover have "unat (ucast k :: u64) = unat k" by simp
    ultimately show ?thesis by (metis word_unat_eq_iff)
  qed
  have "internal_sendv_windows api vec (word_of_nat ?m) s = (cnt = int ?m, s')"
    using completes_sent [OF c] by (cases "wn_send api vec s"; cases "fst (wn_send api vec s)")
      (auto simp: internal_sendv_windows_def u split: if_splits prod.splits option.splits)
  moreover have "socket_sendv vec s = (cnt = int ?m, s')"
  proof -
    have "-1 \<le> cnt" "cnt \<le> int ?m" using sys_write_count [OF w] by simp_all
    then have "(word_of_int cnt :: u64) = word_of_nat ?m \<longleftrightarrow> cnt = int ?m"
    proof (cases "cnt = -1")
      case True
      have "(word_of_nat ?m :: u64) \<noteq> -1"
      proof
        assume "(word_of_nat ?m :: u64) = -1"
        then have "unat (word_of_nat ?m :: u64) = unat (-1 :: u64)" by (simp only:)
        then show False using small by (simp add: unat_of_nat unsigned_minus_1_eq_mask mask_eq_exp_minus_1)
      qed
      with True show ?thesis by auto
    next
      case False
      with \<open>-1 \<le> cnt\<close> \<open>cnt \<le> int ?m\<close> small have "unat (word_of_int cnt :: u64) = nat cnt"
        by (simp add: unat_eq_nat_uint uint_word_of_int)
      moreover have "unat (word_of_nat ?m :: u64) = ?m" using small by (simp add: unat_of_nat)
      ultimately have "(word_of_int cnt :: u64) = word_of_nat ?m \<longleftrightarrow> nat cnt = ?m" by (metis word_unat_eq_iff)
      also have "\<dots> \<longleftrightarrow> cnt = int ?m" using False \<open>-1 \<le> cnt\<close> by linarith
      finally show ?thesis .
    qed
    then show ?thesis using w by (simp add: socket_sendv_def internal_sendv_def total)
  qed
  ultimately show ?thesis using each by (simp only: socket_sendv_windows_def total if_False split)
qed

section \<open>Receiving\<close>

text \<open>
  What is documented of the calls on a file, with its position and its size in a state: a handle is
  valid, \<open>SetEndOfFile\<close> makes the position the size, and the view of a mapping (\<open>view_of\<close> is its file)
  shows the whole file.
\<close>

definition files_documented ::
    "'w win_files \<Rightarrow> (int \<Rightarrow> 'w \<Rightarrow> u64) \<Rightarrow> (int \<Rightarrow> 'w \<Rightarrow> u64) \<Rightarrow> (int \<Rightarrow> 'w \<Rightarrow> int) \<Rightarrow> bool" where
  "files_documented fapi position fsize view_of \<longleftrightarrow>
     (\<forall>p w h w'. wf_open_always fapi p w = (Inr h, w') \<longrightarrow> h \<noteq> INVALID_FILE_HANDLE)
     \<and> (\<forall>h q w w'. wf_set_pointer fapi h q w = (None, w') \<longrightarrow> position h w' = q \<and> fsize h w' = fsize h w)
     \<and> (\<forall>h w w'. wf_set_end fapi h w = (None, w') \<longrightarrow> fsize h w' = position h w)
     \<and> (\<forall>h w m w'. wf_create_mapping fapi h w = (Inr m, w') \<longrightarrow> fsize h w' = fsize h w \<and> view_of m w' = h)
     \<and> (\<forall>m w bs w'. wf_map_view fapi m w = (Inr bs, w') \<longrightarrow> length bs = unat (fsize (view_of m w) w))"

lemma set_file_size_windows_sized:
  assumes "files_documented fapi position fsize view_of" and "set_file_size_windows fapi path fi h w = (Ret (), w')"
  shows "fsize h w' = file_size fi"
proof -
  from assms(2) obtain w1 w2 where c: "wf_set_pointer fapi h (file_size fi) w = (None, w1)" "wf_set_end fapi h w1 = (None, w2)"
    "wf_set_pointer fapi h 0 w2 = (None, w')"
    by (auto simp: set_file_size_windows_def Let_def split: prod.splits option.splits)
  have "position h w1 = file_size fi" "fsize h w2 = position h w1" "fsize h w' = fsize h w2"
    using assms(1) c unfolding files_documented_def by blast+
  then show ?thesis by simp
qed

lemma map_file_windows_sized:
  assumes "files_documented fapi position fsize view_of" and "map_file_windows fapi path fi h w = (Ret (Some bs), w')"
    and "fsize h w = file_size fi"
  shows "length bs = unat (file_size fi)"
proof -
  from assms(2) obtain m w1 w2 where c: "wf_create_mapping fapi h w = (Inr m, w1)" "wf_map_view fapi m w1 = (Inr bs, w2)"
    by (auto simp: map_file_windows_def sweep_scope_def Let_def split: prod.splits sum.splits if_splits)
  have "fsize h w1 = fsize h w" "view_of m w1 = h" "length bs = unat (fsize (view_of m w1) w1)"
    using assms(1) c unfolding files_documented_def by blast+
  with assms(3) show ?thesis by simp
qed

lemma dest_open_windows_sized:
  assumes "files_documented fapi position fsize view_of" and "dest_open_regular_file_windows fapi path fi (dst, w) = (Ret ctx, s')"
  shows "recv_sized fi ctx \<and> fst s' = dst\<lparr>dst_total_size := dst_total_size dst + file_size fi\<rparr>"
proof -
  from assms(2) obtain h w1 w2 view w3 where c: "wf_open_always fapi path w = (Inr h, w1)"
    and sz: "set_file_size_windows fapi path fi h w1 = (Ret (), w2)" and mp: "map_file_windows fapi path fi h w2 = (Ret view, w3)"
    and ctx: "ctx = \<lparr>received_size = 0, mapped_length = file_size fi, dst_file_mapped = (view \<noteq> None), dst_handle = h,
        dst_pages = (case view of None \<Rightarrow> [] | Some bytes \<Rightarrow> bytes)\<rparr>"
    and s': "fst s' = dst\<lparr>dst_total_size := dst_total_size dst + file_size fi\<rparr>"
    by (auto simp: dest_open_regular_file_windows_def split: prod.splits sum.splits outcome.splits)
  have "h \<noteq> INVALID_FILE_HANDLE" using assms(1) c unfolding files_documented_def by blast
  moreover have "length (dst_pages ctx) = unat (file_size fi)"
  proof (cases view)
    case None
    then have "file_size fi = 0" using map_file_windows_view [OF mp] by (simp add: word_gt_0)
    with None ctx show ?thesis by simp
  next
    case (Some bs)
    with map_file_windows_sized [OF assms(1) _ set_file_size_windows_sized [OF assms(1) sz]] mp ctx show ?thesis by simp
  qed
  ultimately show ?thesis using map_file_windows_view [OF mp] ctx s' by (simp add: recv_sized_def)
qed

text \<open>\<open>prepare_transfer_regular_file\<close> with the Windows branch of what it calls.\<close>

definition dest_prepare_regular_file_windows :: "'w win_files \<Rightarrow> 'w dest_st \<Rightarrow> unit outcome \<times> 'w dest_st" where
  "dest_prepare_regular_file_windows fapi s = (case dst_info (fst s) of
       None \<Rightarrow> (Abort, s)
     | Some info \<Rightarrow>
         if length (files_info info) \<noteq> 1 then (Abort, s)
         else seq_st (dest_open_regular_file_windows fapi (requested_dst_path (fst s)) (files_info info ! 0)) add_recv_ctx s)"

lemma dest_prepare_windows_sized:
  assumes doc: "files_documented fapi position fsize view_of" and info: "dst_info dst0 = Some info" and none: "recv_ctx dst0 = []"
    and gate: "gate_valid (gate_all_channels_finished dst0)" "gate_needed (gate_all_channels_finished dst0) = C"
    and "\<not> dst_dispose_required dst0" and "0 < C"
    and p: "dest_prepare_regular_file_windows fapi (dst0, w) = (Ret (), (dst, w'))"
  shows "dest_sized info C dst \<and> length (files_info info) = 1"
proof -
  from p info obtain ctx s1 where one: "length (files_info info) = 1"
    and o: "dest_open_regular_file_windows fapi (requested_dst_path dst0) (files_info info ! 0) (dst0, w) = (Ret ctx, s1)"
    and a: "add_recv_ctx ctx s1 = (Ret (), (dst, w'))"
    by (auto simp: dest_prepare_regular_file_windows_def seq_st_Ret_iff split: if_splits)
  from dest_open_windows_sized [OF doc o] have "recv_sized (files_info info ! 0) ctx"
    "fst s1 = dst0\<lparr>dst_total_size := dst_total_size dst0 + file_size (files_info info ! 0)\<rparr>" by simp_all
  moreover from one obtain fi where "files_info info = [fi]" by (auto simp: length_Suc_conv)
  ultimately show ?thesis using a assms(2-7) by (auto simp: add_recv_ctx_def dest_sized_def)
qed

text \<open>C39: on Windows the destination's file is opened with the bytes it had before (\<open>OPEN_ALWAYS\<close>) and only given its
  new size, yet nothing of them is left: when the calls do what is documented and the channels of the
  destination all return successfully, the file is the source's, byte for byte, whatever it held and
  however the channels interleave.\<close>

theorem windows_destination_copied:
  assumes "files_documented fapi position fsize view_of" and "dst_info dst0 = Some info" and "recv_ctx dst0 = []"
    and "gate_valid (gate_all_channels_finished dst0)" and "gate_needed (gate_all_channels_finished dst0) = C"
    and "\<not> dst_dispose_required dst0" and "0 < C"
    and "dest_prepare_regular_file_windows fapi (dst0, w) = (Ret (), (dst, w'))"
    and "source_ready src" and "src_info src = Some info" and "files_stable contents C info src"
    and "\<forall>k<C. outbox (ss k) = []" and "xfer_run h g contents C ms (transfer_start src dst ss ds) = Some s"
    and "\<forall>k<C. dc_pc (cn_dst (xf_conns s k)) = Dst_returned True"
  shows "contents (src_handle (send_ctx src ! 0)) = Some (dst_pages (recv_ctx (xf_dst s) ! 0))"
proof -
  have "dest_sized info C dst" "length (files_info info) = 1"
    using dest_prepare_windows_sized [OF assms(1-8)] by simp_all
  then show ?thesis using ready_copy [OF assms(9,10) _ assms(11-14), of 0] by simp
qed

text \<open>A file system with one file of five bytes, all of them 7, of which the state is the position and the size.\<close>

definition old_file :: "(u64 \<times> u64) win_files" where
  "old_file = \<lparr>wf_create_read = (\<lambda>p w. (Inr 5, w)), wf_file_size = (\<lambda>h w. Inr (snd w)), wf_open_always = (\<lambda>p w. (Inr 5, (0, 5))),
     wf_set_pointer = (\<lambda>h q w. (None, (q, snd w))), wf_set_end = (\<lambda>h w. (None, (fst w, fst w))),
     wf_create_mapping = (\<lambda>h w. (Inr h, w)), wf_map_view = (\<lambda>m w. (Inr (replicate (unat (snd w)) 7), w)),
     wf_close = (\<lambda>h w. w), wf_last_error = (\<lambda>gle. [])\<rparr>"

lemma old_file_documented: "files_documented old_file (\<lambda>h. fst) (\<lambda>h. snd) (\<lambda>m w. m)"
  by (auto simp: files_documented_def old_file_def INVALID_FILE_HANDLE_def)

definition old_start :: transfer_destination where
  "old_start = demo_destination\<lparr>recv_ctx := [], dst_total_size := 0\<rparr>"

definition old_destination :: transfer_destination where
  "old_destination = demo_destination\<lparr>recv_ctx := [\<lparr>received_size = 0, mapped_length = 3, dst_file_mapped = True, dst_handle = 5,
     dst_pages = [7, 7, 7]\<rparr>], dst_total_size := 3\<rparr>"

lemma old_bytes: "replicate 3 (7 :: byte) = [7, 7, 7]"
  by (simp add: numeral_3_eq_3)

lemma old_prepared: "dest_prepare_regular_file_windows old_file (old_start, (0, 5)) = (Ret (), (old_destination, (0, 3)))"
  by (simp add: dest_prepare_regular_file_windows_def old_start_def demo_destination_def demo_info_def seq_st_def add_recv_ctx_def
      dest_open_regular_file_windows_def set_file_size_windows_def map_file_windows_def sweep_scope_def old_file_def
      old_destination_def Let_def old_bytes)

definition old_begin :: xfer where
  "old_begin = transfer_start demo_source old_destination (\<lambda>_. sc_sock (cn_src demo_conn)) (\<lambda>_. dc_sock (cn_dst demo_conn))"

definition old_final :: xfer where
  "old_final = the (xfer_run LittleEndian LittleEndian demo_contents 2 demo_schedule old_begin)"

lemma old_run:
  "\<exists>s. xfer_run LittleEndian LittleEndian demo_contents 2 demo_schedule old_begin = Some s
    \<and> dc_pc (cn_dst (xf_conns s 0)) = Dst_returned True \<and> dc_pc (cn_dst (xf_conns s 1)) = Dst_returned True"
  by (simp add: old_begin_def transfer_start_def old_destination_def demo_state demo_eval demo_schedule_def)

theorem windows_destination_copied_witness:
  "dst_pages (recv_ctx old_destination ! 0) = [7, 7, 7] \<and> Some (dst_pages (recv_ctx (xf_dst old_final) ! 0)) = Some [10, 20, 30]"
proof -
  obtain s where run: "xfer_run LittleEndian LittleEndian demo_contents 2 demo_schedule old_begin = Some s"
    and ret: "dc_pc (cn_dst (xf_conns s 0)) = Dst_returned True" "dc_pc (cn_dst (xf_conns s 1)) = Dst_returned True"
    using old_run by blast
  have "demo_contents (src_handle (send_ctx demo_source ! 0)) = Some (dst_pages (recv_ctx (xf_dst s) ! 0))"
  proof (rule windows_destination_copied [OF old_file_documented _ _ _ _ _ _ old_prepared])
    show "source_ready demo_source" by (rule source_ctor_ready [OF copy_px_source])
    show "xfer_run LittleEndian LittleEndian demo_contents 2 demo_schedule (transfer_start demo_source old_destination
      (\<lambda>_. sc_sock (cn_src demo_conn)) (\<lambda>_. dc_sock (cn_dst demo_conn))) = Some s" using run by (simp only: old_begin_def)
    show "\<forall>k<2. dc_pc (cn_dst (xf_conns s k)) = Dst_returned True" using ret by (auto simp: less_2_cases_iff)
    show "files_stable demo_contents 2 demo_info demo_source"
      by (simp add: files_stable_def demo_source_def demo_info_def demo_contents_def)
  qed (simp_all add: old_start_def demo_destination_def demo_source_def demo_conn_def gate_valid_def gate_initialized_def gate_needed_def
      INVALID_SIGNAL_COUNT_def)
  with run show ?thesis by (simp add: old_final_def old_destination_def demo_source_def demo_contents_def)
qed

end
