(* ===== verification/Spec2Isabelle.thy ===== *)
theory Spec2Isabelle
  imports User Sockaddr Events Rundown Disposable Handshake Transfer_Ends Transfer_Copy Sock_Setup Client Client_Session
    Launch Accept Accept_Loop Accepted Arguments Programs Dialogue Semaphore Windows_User Windows_IO Runtime Transfer_Success Windows_Transfer
begin

text \<open>
  A verification library of xcp, a client (\<open>xcp\<close>) and a server (\<open>xcpd\<close>) that copy a file or a directory
  over many parallel TCP connections. It models the C++ code under \<open>src/src\<close> and the part of the
  serialisation library under \<open>src/thirdparty/cereal\<close> that the messages go through.

  How the program works, and where each part is modelled. The server listens on a portal and on any number of
  channels. The client connects to the portal, greets, negotiates a version and gets the list of channels;
  it connects to each of them as often as the server repeats it, sends a transfer request, and gets a
  response. One of the two then holds a transfer source and the other a transfer destination, and
  the channels of both move the blocks of all files at the same time.

  Conventions. A machine integer is a word of its width; \<open>Xcp_Prelude\<close> has the byte orders, the results of C++
  statements (\<open>outcome\<close>: a value, an exception, \<open>std::abort\<close>, undefined behaviour) and their
  sequences over a state (\<open>seq_st\<close>). A call of the system is a field of a record of functions over an
  abstract state \<open>'w\<close> (\<open>posix\<close>, \<open>sock_api\<close>, \<open>win_files\<close>, \<open>win_net\<close>, \<open>win_accounts\<close>, \<open>linux_sem\<close>, \<open>windows_sem\<close>): what
  is proved holds for any answers, unless a hypothesis says what the system documents. Threads
  are program counters that step relations or step functions interleave; what a step does without a lock is
  as small as the code makes it atomic. The branches are those of Linux; those of Windows are in
  theories of their own, or are said to be theirs.

  The data path.
    \<^item> \<open>Socket\<close>: \<open>os_socket_t::recv\<close>, \<open>send\<close>, \<open>sendv\<close>, \<open>send_file\<close> (\<open>infra/network.h\<close>, \<open>infra/network.cpp\<close>) on a
      connection with its two streams, and the contract of a stream (locale \<open>stream\<close>).
    \<^item> \<open>Blocksize\<close>: the adaptive block size of \<open>transfer_source::invoke_channel\<close>, in IEEE double arithmetic.
    \<^item> \<open>Block_Channel\<close>, \<open>Channels\<close>: the steps of \<open>invoke_portal\<close> and \<open>invoke_channel\<close> of both sides
      (\<open>transfer.h\<close>, \<open>transfer.cpp\<close>), the shared offsets and counters, and the interleaving of
      all channels with the invariant of the whole transfer; \<open>Tiling\<close> has the lemmas on intervals.
    \<^item> \<open>Transfer_Correct\<close>, \<open>Transfer_Ends\<close>: no assertion fails, the blocks tile each file, the files are equal when
      the channels succeed; every run ends (a measure) and none is stuck. \<open>Transfer_Success\<close>: a transfer that
      nothing disturbs never fails, so that its runs end in success.
    \<^item> \<open>Transfer_Open\<close>, \<open>Paths\<close>: the constructors, \<open>prepare_transfer_*\<close>, \<open>internal_open_regular_file\<close>,
      \<open>init_transfer_info\<close> and \<open>dispose_impl\<close> of \<open>transfer.cpp\<close>; \<open>Transfer_Copy\<close> joins them to the channels.
    \<^item> \<open>Windows_IO\<close>: sending, sending files and opening files on Windows. \<open>Windows_Transfer\<close>: what is sent is what
      Linux sends, and a destination that is opened over a file with other bytes gets the source's.

  Connecting and the messages.
    \<^item> \<open>Sockaddr\<close>, \<open>Endpoint\<close>: \<open>tcp_sockaddr\<close> and \<open>tcp_endpoint\<close> (\<open>infra/network.*\<close>). The regular expressions of the
      source run on a model of \<open>std::regex\<close> with its backtracking (\<open>Ecma_Regex\<close>) and are shown equal to
      parsers without backtracking; so does \<open>Host_Path\<close> for \<open>host_path\<close> (\<open>program_options.*\<close>).
    \<^item> \<open>Sock_Setup\<close>: creating, binding, listening, accepting and connecting, with every socket of a failed
      attempt closed.
    \<^item> \<open>Handshake\<close>: the headers, the greeting and the version negotiation on both sides (\<open>client.cpp\<close>, \<open>server.cpp\<close>).
    \<^item> \<open>Cereal\<close>, \<open>Messages\<close>, \<open>User\<close>: the portable binary archive, the messages of \<open>message.h\<close>, and the user
      names of \<open>infra/user.*\<close>; each type is an interpretation of the locale \<open>codec\<close>, or of
      \<open>portable_codec\<close> when hosts of different byte order understand each other.
    \<^item> \<open>Dialogue\<close>: what client and server exchange on the portal, message by message, up to the copied files.

  The server.
    \<^item> \<open>Accept\<close>, \<open>Accept_Loop\<close>, \<open>Accepted\<close>, \<open>Launch\<close>: \<open>init\<close> and the closing of the listeners, \<open>fn_thread_accept\<close>
      interleaved with the disposal and the threads it launches, \<open>fn_thread_unified_accepted_socket\<close>,
      and \<open>launch_thread\<close> of \<open>common.h\<close>.
    \<^item> \<open>Server\<close>: the channels it tells the client, the resolution of the requested path, and the transfer and the
      response that \<open>fn_portal\<close> makes of a request.
    \<^item> \<open>Session\<close>, \<open>Clients\<close>: one \<open>client_instance\<close> with its portal thread, channel threads and disposal, and the table
      of all of them.

  The client and the programs.
    \<^item> \<open>Client\<close>: preparing the transfer, the connections it opens, request and response, progress and the
      recorded result (\<open>client.*\<close>). \<open>Client_Session\<close>: its threads interleaved with \<open>dispose_impl\<close>.
    \<^item> \<open>Options\<close>, \<open>Arguments\<close>: \<open>post_process\<close>, the options that are registered, how CLI11 converts an
      argument with the stream operators of the source, and the verbosity.
    \<^item> \<open>Programs\<close>: the signal handlers (\<open>infra/sighandle.h\<close>) and \<open>main\<close> of both programs after parsing.

  What they share.
    \<^item> \<open>Gate\<close>, \<open>Events\<close>, \<open>Rundown\<close>, \<open>Disposable\<close>: \<open>gate_guard\<close>, \<open>manual_reset_event\<close>, \<open>rundown_protection\<close>,
      \<open>disposable\<close> and \<open>sweeper\<close>; the sequential operations, the contract of a gate (locale \<open>latch\<close>)
      and the interleavings of the real code with its mutexes.
    \<^item> \<open>Semaphore\<close>: \<open>infra/semaphore.h\<close> on both systems against the contract of a counter.
    \<^item> \<open>Runtime\<close>: the global initialisation, the table of error messages and the moves of the contexts of files.
    \<^item> \<open>Windows_User\<close>: home directories and user names on Windows.

  What the properties show. The main ones are two. \<open>copy_over_wire\<close>: a copy that the two sides negotiate over
  the portal gives each file the bytes of the source, for every interleaving of the channels in
  which those of the destination succeed. \<open>agreed_copy_succeeds\<close>: when the files stay as they are and the
  connections have room for what is sent, every interleaving ends, all channels of both sides return
  successfully, and each file is copied. \<open>channels_safe\<close>, \<open>blocks_tile_file\<close>, \<open>transfer_terminates\<close> and
  \<open>transfer_can_finish\<close> are what makes it hold of the concurrent part; the greeting, the version, the request and
  the endpoints have round trips; the synchronisation classes have their invariants under any
  interleaving; the server and the client have the order of their sessions, the end of their disposal
  and the faults of it that the model finds (\<open>transfer_freed_under_channel\<close>, \<open>client_portal_crashes\<close>,
  \<open>accept_follows_null\<close>, \<open>greeter_uses_freed\<close>). Each property with a hypothesis has a witness, which applies it
  to a concrete input.

  Bounds and fuel. A block has at most \<open>2 ^ 30\<close> bytes (\<open>MAX_TRANSFER_BLOCK_SIZE\<close>), which the code asserts.
  The offset of a file is moved past its end by each channel once at most: with \<open>C\<close> channels a file
  is assumed to have less than \<open>2 ^ 64 - (C + 1) * 2 ^ 30\<close> bytes, so that the offset does not wrap
  round (\<open>files_stable\<close>). A channel sends at most one header of 16 bytes for each byte of the files, that
  byte, and 16 bytes at its end: \<open>17 * N + 16\<close> bytes for files of \<open>N\<close> bytes (\<open>wire_bytes\<close>) is room enough
  for any block sizes. A message is shorter than \<open>2 ^ 31\<close> bytes, the limit of the code. The matcher of regular
  expressions has as fuel the repetitions an expression asks for and the length of the input: each
  further round of a repetition consumes a character. The accept loop takes at most four steps once its
  socket is closed. The count of a verbosity flag is below \<open>2 ^ 30\<close>.

  What is not modelled, and why. What is logged (\<open>spdlog\<close>); the parsing of the command line up to the conversion
  of an argument (CLI11); what the calls of the system do, beyond the hypotheses that are named; the
  real time of a transfer, which is an input of the adaptation of the block size; the progress line as
  it is printed; the branches of Cygwin, which are those of Windows or Linux; \<open>infra/predef.h\<close> and the macros that
  declare constructors or serialisation, whose effect is in the definitions that use them; includes,
  forward declarations and the choice of a branch by the preprocessor. The
  abort of a thread whose exception nobody catches is the outcome \<open>Abort\<close>, or a crashed thread.
\<close>

section \<open>A copy from the request to the last byte\<close>

text \<open>C1: a copy that client and server agree on succeeds unless something disturbs it. The hypotheses are those of
  \<open>copy_over_wire\<close>. Let the files stay as they are, the connections be open with room for the whole
  transfer, and the channels of both sides run in any interleaving, with any measured times and on
  hosts of any byte order, each step one of a channel that has not returned. Then there are at most
  \<open>xfer_work\<close> steps, and when no step is left every channel of both sides has returned successfully and
  each file of the destination has the bytes of the source's.\<close>

theorem agreed_copy_succeeds:
  assumes "client_init_transfer pxc opts wc = (Ret True, Some tc, wc1)"
    and "client_request opts tc = Ret req" and "request_ok req" and "response_ok resp"
    and "send_client_request hc opts tc c = (Ret True, c1)" and "arrives c c1 s sr"
    and "recv_transfer_request hs s = (Ret (Some q), s1)" and "handle_request env pxs n_server q ws = (Ret resp, Some ts, ws1)"
    and "send_transfer_response hs resp s1 = (Ret True, s2)" and "arrives s1 s2 c2 cr"
    and "recv_transfer_response hc pxc opts n_client (tc, wc1) c2 = (Ret True, (tc1, wc2), c3)"
    and "opens_valid pxc" and "opens_valid pxs" and "errno_nonzero pxs"
    and "C = unat (if from_server_to_client opts then n_client else n_server)"
  shows "\<exists>src dst info. transfer_ends tc1 ts = Some (src, dst) \<and> src_info src = Some info
    \<and> (\<forall>contents ss ds h g ms x. files_stable contents C info src \<longrightarrow> undisturbed C info ss ds
        \<longrightarrow> busy_run h g contents C ms (transfer_start src dst ss ds)
        \<longrightarrow> xfer_run h g contents C ms (transfer_start src dst ss ds) = Some x
        \<longrightarrow> length ms \<le> xfer_work C info (transfer_start src dst ss ds)
          \<and> ((\<nexists>m x'. move_busy m x \<and> xfer_move h g contents C m x = Some x')
              \<longrightarrow> (\<forall>k<C. sc_pc (cn_src (xf_conns x k)) = Src_returned True \<and> dc_pc (cn_dst (xf_conns x k)) = Dst_returned True)
                \<and> (\<forall>n<length (files_info info).
                     contents (src_handle (send_ctx src ! n)) = Some (dst_pages (recv_ctx (xf_dst x) ! n)))))"
proof -
  from agreed_ends [OF assms] obtain src dst info where e: "transfer_ends tc1 ts = Some (src, dst)"
    and r: "source_ready src" "src_info src = Some info" "dest_ready info C dst" .
  note R = r(1,2) dest_ready_sized [OF r(3)]
  show ?thesis
    by (intro exI conjI allI impI, rule e, rule r(2))
      (use undisturbed_total(1) [OF R] undisturbed_total(2) [OF R, THEN conjunct1] undisturbed_total(2) [OF R, THEN conjunct2]
        in \<open>simp_all\<close>)
qed

text \<open>The run of the download: it takes all its 18 steps and then no channel can take another.\<close>

lemma demo_busy: "busy_run LittleEndian BigEndian demo_contents 2 demo_schedule demo_start"
  by (simp add: demo_schedule_def demo_state demo_eval)

lemma demo_stuck: "\<not> (move_busy m demo_final \<and> xfer_move LittleEndian BigEndian demo_contents 2 m demo_final = Some x)"
  using demo_final_returned by (cases m) (auto simp: src_returned_def less_2_cases_iff)

theorem agreed_copy_succeeds_witness:
  "length demo_schedule \<le> xfer_work 2 demo_info demo_start
    \<and> sc_pc (cn_src (xf_conns demo_final 1)) = Src_returned True
    \<and> demo_contents (src_handle (send_ctx demo_source ! 0)) = Some (dst_pages (recv_ctx (xf_dst demo_final) ! 0))"
proof (rule download_dialogue, goal_cases)
  case d: (1 c1 s2)
  let ?ss = "\<lambda>_ :: nat. sc_sock (cn_src demo_conn)" and ?ds = "\<lambda>_ :: nat. dc_sock (cn_dst demo_conn)"
  have st: "files_stable demo_contents 2 demo_info demo_source"
    by (simp add: files_stable_def demo_source_def demo_info_def demo_contents_def)
  have und: "undisturbed 2 demo_info ?ss ?ds"
    by (simp add: undisturbed_def wire_bytes_def demo_conn_def demo_info_def dest_channel_start_def)
  have run: "xfer_run LittleEndian BigEndian demo_contents 2 demo_schedule demo_start = Some demo_final"
    using demo_run by (auto simp: demo_final_def)
  from agreed_copy_succeeds [OF d(1-5) wire_arrives d(6-8) wire_arrives d(9) copy_px_valid d(10,11) download_channels,
      unfolded download_ends(1)] download_ends(2)
  have all: "\<forall>contents ss ds h g ms x. files_stable contents 2 demo_info demo_source \<longrightarrow> undisturbed 2 demo_info ss ds
      \<longrightarrow> busy_run h g contents 2 ms (transfer_start demo_source demo_destination ss ds)
      \<longrightarrow> xfer_run h g contents 2 ms (transfer_start demo_source demo_destination ss ds) = Some x
      \<longrightarrow> length ms \<le> xfer_work 2 demo_info (transfer_start demo_source demo_destination ss ds)
        \<and> ((\<nexists>m x'. move_busy m x \<and> xfer_move h g contents 2 m x = Some x')
            \<longrightarrow> (\<forall>k<2. sc_pc (cn_src (xf_conns x k)) = Src_returned True \<and> dc_pc (cn_dst (xf_conns x k)) = Dst_returned True)
              \<and> (\<forall>n<length (files_info demo_info).
                   contents (src_handle (send_ctx demo_source ! n)) = Some (dst_pages (recv_ctx (xf_dst x) ! n))))"
    by auto
  from all [rule_format, OF st und, unfolded demo_start_eq, OF demo_busy run] demo_stuck
  show ?case by (simp add: demo_info_def)
qed

end
